(* ===== verification/Kernel_Prelude.thy ===== *)
theory Kernel_Prelude
  imports Main "HOL-Library.Word"
begin

text \<open>
  Shared material of the development: the C integer types of a 64-bit Linux kernel, the error
  numbers the drivers return, the faults a C statement can run into, user/kernel memory copies
  as list surgery, sequencing of statements that may fault, and the contract of a transition
  system with an inductive invariant that the component theories interpret.
\<close>

named_theorems kernel_simps \<open>unfolding rules for error numbers, flags and C conversions\<close>

section \<open>C types and constants\<close>

text \<open>
  \<open>size_t\<close>, \<open>unsigned long\<close> and addresses are 64 bits wide, \<open>u32\<close> and
  \<open>unsigned int\<close> 32. A \<open>loff_t\<close> is kept as its 64 bits: every expression of the
  drivers that reads \<^verbatim>\<open>*f_pos\<close> combines it with a \<open>size_t\<close>, and C then converts
  it to unsigned. System call results (\<open>int\<close>, \<open>long\<close>, \<open>ssize_t\<close>) are
  mathematical integers; a \<open>size_t\<close> that is returned goes through \<open>sint\<close>.
\<close>

type_synonym byte = "8 word"
type_synonym u8 = "8 word"
type_synonym u32 = "32 word"
type_synonym u64 = "64 word"
type_synonym size_t = "64 word"
type_synonym ulong = "64 word"
type_synonym loff_t = "64 word"
type_synonym ptr = "64 word"

abbreviation (input) EPERM :: int where "EPERM \<equiv> 1"
abbreviation (input) ENXIO :: int where "ENXIO \<equiv> 6"
abbreviation (input) EBADF :: int where "EBADF \<equiv> 9"
abbreviation (input) EAGAIN :: int where "EAGAIN \<equiv> 11"
abbreviation (input) ENOMEM :: int where "ENOMEM \<equiv> 12"
abbreviation (input) EFAULT :: int where "EFAULT \<equiv> 14"
abbreviation (input) EBUSY :: int where "EBUSY \<equiv> 16"
abbreviation (input) ENODEV :: int where "ENODEV \<equiv> 19"
abbreviation (input) EINVAL :: int where "EINVAL \<equiv> 22"
abbreviation (input) ENOTTY :: int where "ENOTTY \<equiv> 25"
abbreviation (input) ECANCELED :: int where "ECANCELED \<equiv> 125"
abbreviation (input) ERESTARTSYS :: int where "ERESTARTSYS \<equiv> 512"

text \<open>The system call layer cuts the count of a read or write, whatever the driver.\<close>

abbreviation MAX_RW_COUNT :: nat where "MAX_RW_COUNT \<equiv> 0x7ffff000"

text \<open>What a C statement of a driver does when it does not do what was meant.\<close>

datatype fault =
    NullDeref        \<comment> \<open>access through a null or freed pointer\<close>
  | OutOfBounds      \<comment> \<open>access past the end of the allocated object\<close>
  | DivideByZero
  | LockHeld         \<comment> \<open>acquiring a lock its holder already has\<close>
  | LockNotHeld      \<comment> \<open>releasing, or asserting, a lock that is not held\<close>
  | BugOn            \<comment> \<open>an assertion of the kernel fails\<close>

text \<open>Statement sequencing: a fault ends the call, otherwise the next statement runs.\<close>

definition bindS :: "'e + 'a \<Rightarrow> ('a \<Rightarrow> 'e + 'b) \<Rightarrow> 'e + 'b" where
  "bindS r f = (case r of Inl e \<Rightarrow> Inl e | Inr x \<Rightarrow> f x)"

section \<open>Copying into and out of a block of memory\<close>

definition blit :: "'a list \<Rightarrow> nat \<Rightarrow> 'a list \<Rightarrow> 'a list" where
  "blit xs i ys = take i xs @ ys @ drop (i + length ys) xs"

definition sub_block :: "nat \<Rightarrow> nat \<Rightarrow> 'a list \<Rightarrow> 'a list" where
  "sub_block i n xs = take n (drop i xs)"

section \<open>Transition systems with an inductive invariant\<close>

inductive reachable :: "('s \<Rightarrow> bool) \<Rightarrow> ('s \<Rightarrow> 's \<Rightarrow> bool) \<Rightarrow> 's \<Rightarrow> bool"
  for init :: "'s \<Rightarrow> bool" and step :: "'s \<Rightarrow> 's \<Rightarrow> bool" where
  reachable_init: "init s \<Longrightarrow> reachable init step s"
| reachable_step: "reachable init step s \<Longrightarrow> step s t \<Longrightarrow> reachable init step t"

locale transition_system =
  fixes init :: "'s \<Rightarrow> bool"
    and step :: "'s \<Rightarrow> 's \<Rightarrow> bool"
    and inv :: "'s \<Rightarrow> bool"
  assumes init_inv: "init s \<Longrightarrow> inv s"
    and step_inv: "inv s \<Longrightarrow> step s t \<Longrightarrow> inv t"
begin

lemma reachable_inv: "reachable init step s \<Longrightarrow> inv s"
  by (induction rule: reachable.induct) (auto intro: init_inv step_inv)

lemma steps_inv: "step\<^sup>*\<^sup>* s t \<Longrightarrow> inv s \<Longrightarrow> inv t"
  by (induction rule: rtranclp_induct) (auto intro: step_inv)

end

section \<open>Lemmas\<close>

lemma bindS_simps [simp]: "bindS (Inl e) f = Inl e" "bindS (Inr x) f = f x"
  by (simp_all add: bindS_def)

lemma bindS_eq_Inr: "bindS r f = Inr y \<longleftrightarrow> (\<exists>x. r = Inr x \<and> f x = Inr y)"
  by (cases r) simp_all

lemma bindS_eq_Inl: "bindS r f = Inl e \<longleftrightarrow> r = Inl e \<or> (\<exists>x. r = Inr x \<and> f x = Inl e)"
  by (cases r) simp_all

lemma length_blit [simp]: "i + length ys \<le> length xs \<Longrightarrow> length (blit xs i ys) = length xs"
  by (simp add: blit_def)

lemma nth_blit:
  assumes "i + length ys \<le> length xs" and "k < length xs"
  shows "blit xs i ys ! k = (if i \<le> k \<and> k < i + length ys then ys ! (k - i) else xs ! k)"
  using assms by (auto simp: blit_def nth_append min_def)

lemma length_sub_block [simp]: "length (sub_block i n xs) = min n (length xs - i)"
  by (simp add: sub_block_def min.commute)

lemma nth_sub_block: "i + k < length xs \<Longrightarrow> k < n \<Longrightarrow> sub_block i n xs ! k = xs ! (i + k)"
  by (simp add: sub_block_def)

lemma sub_block_blit_same: "i + length ys \<le> length xs \<Longrightarrow> sub_block i (length ys) (blit xs i ys) = ys"
  by (simp add: blit_def sub_block_def)

lemma mod_add_small: "p mod q + m < q \<Longrightarrow> (p + m) mod q = p mod q + (m :: nat)"
  by (metis mod_add_left_eq mod_less)

lemma div_add_small: "p mod q + m < q \<Longrightarrow> (p + m) div q = p div (q :: nat)"
  by (simp add: div_add1_eq [of p m q])

lemma mod_add_min_le:
  assumes "0 < (q :: nat)"
  shows "p mod q + min x (q - p mod q) \<le> q"
  using mod_less_divisor [OF assms, of p] by simp

lemma unat_min: "unat (min a b) = min (unat a) (unat b)"
  by (simp add: min_def word_le_nat_alt)

lemma unat_clip: "unat (if lim < c then lim else c) = min (unat c) (unat lim)"
  by (simp add: word_less_nat_alt)

lemma unat_sub_le: "b \<le> a \<Longrightarrow> unat (a - b) = unat a - unat b"
  by (rule unat_sub)

lemma sint_small:
  fixes w :: "64 word"
  assumes "unat w < 2 ^ 63"
  shows "sint w = int (unat w)"
proof -
  have u: "int (unat w) < int (2 ^ 63)" using assms by (simp only: of_nat_less_iff)
  have "sint w = signed_take_bit (LENGTH(64) - Suc 0) (uint w)" by (rule sint_uint)
  also have "\<dots> = uint w"
  proof (rule signed_take_bit_int_eq_self)
    have "- (2 ^ (LENGTH(64) - Suc 0)) \<le> (0 :: int)" by simp
    then show "- (2 ^ (LENGTH(64) - Suc 0)) \<le> uint w" using uint_ge_0 [of w] by linarith
    show "uint w < 2 ^ (LENGTH(64) - Suc 0)" using u by simp
  qed
  finally show ?thesis by simp
qed

lemma unat_of_nat_small:
  assumes "n < 2 ^ 64"
  shows "unat (of_nat n :: 64 word) = n"
proof -
  have "unat (of_nat n :: 64 word) = take_bit 64 n" by (simp add: unsigned_of_nat)
  also have "\<dots> = n" using assms by (simp only: take_bit_nat_eq_self)
  finally show ?thesis .
qed

lemma unat_rw_count: "unat (of_nat (min n MAX_RW_COUNT) :: size_t) = min n MAX_RW_COUNT"
proof (rule unat_of_nat_small)
  have "min n MAX_RW_COUNT \<le> MAX_RW_COUNT" by (rule min.cobounded2)
  then show "min n MAX_RW_COUNT < 2 ^ 64" by (rule le_less_trans) simp
qed

lemma word_eq_0_unat: "(w = 0) = (unat w = 0)"
  by (simp add: unat_eq_0)

end
