(* ===== verification/Mutex_Sparse.thy ===== *)
theory Mutex_Sparse
  imports Kernel_Prelude
begin

text \<open>
  The lock wrappers of \<^verbatim>\<open>src/scull/mutex_sparse.h\<close> that every scull system call goes
  through, with the context count of the static checker beside the lock itself.
\<close>

section \<open>The mutex wrappers of mutex\_sparse.h\<close>

text \<open>
  A mutex is held or not. Beside it runs the context count that the static checker sparse
  keeps for the annotations \<^verbatim>\<open>__acquire\<close> and \<^verbatim>\<open>__release\<close>. Acquiring a
  held mutex is a deadlock of the caller with itself: the critical sections of the drivers are
  single steps of the model, so no other thread can hold it. What
  \<^verbatim>\<open>mutex_lock_interruptible\<close> returned is the argument \<open>r\<close>.
\<close>

record mutex =
  held :: bool
  ctx :: int

definition mutex_init :: mutex where
  "mutex_init = \<lparr>held = False, ctx = 0\<rparr>"

definition acquire_ctx :: "mutex \<Rightarrow> mutex" where
  "acquire_ctx m = m\<lparr>ctx := ctx m + 1\<rparr>"

definition release_ctx :: "mutex \<Rightarrow> mutex" where
  "release_ctx m = m\<lparr>ctx := ctx m - 1\<rparr>"

definition mutex_lock_interruptible_sparse :: "int \<Rightarrow> mutex \<Rightarrow> fault + (int \<times> mutex)" where
  "mutex_lock_interruptible_sparse r m =
     (if r = 0
      then (if held m then Inl LockHeld else Inr (r, acquire_ctx (m\<lparr>held := True\<rparr>)))
      else Inr (r, m))"

definition mutex_lock_sparse :: "mutex \<Rightarrow> fault + mutex" where
  "mutex_lock_sparse m =
     (if held m then Inl LockHeld else Inr ((acquire_ctx m)\<lparr>held := True\<rparr>))"

definition mutex_unlock_sparse :: "mutex \<Rightarrow> fault + mutex" where
  "mutex_unlock_sparse m =
     (if held m then Inr ((release_ctx m)\<lparr>held := False\<rparr>) else Inl LockNotHeld)"

definition lockdep_assert_held :: "mutex \<Rightarrow> fault + unit" where
  "lockdep_assert_held m = (if held m then Inr () else Inl LockNotHeld)"

section \<open>Lemmas\<close>

lemmas mutex_defs = mutex_init_def acquire_ctx_def release_ctx_def
  mutex_lock_interruptible_sparse_def mutex_lock_sparse_def mutex_unlock_sparse_def
  lockdep_assert_held_def

end
