(* ===== verification/Scull_Dev.thy ===== *)
theory Scull_Dev
  imports Mutex_Sparse
begin

text \<open>
  The scull bare device (\<^verbatim>\<open>src/scull/scull.h\<close>, \<^verbatim>\<open>src/scull/main.c\<close>): the
  device record, trimming, opening, walking the list of quantum sets, memory statistics,
  reading and writing. The kernel functions the driver calls (slab cache, user copies, lock
  acquisition, allocation) are fields of a record of parameters, \<open>scull_kernel\<close>; what the
  driver relies on is stated by the predicates \<open>slab_alloc_ok\<close>, \<open>free_bulk_ok\<close>,
  \<open>copy_to_user_ok\<close> and \<open>copy_from_user_ok\<close>. The functional behaviour is given against
  the abstract view \<open>dev_byte\<close>: the byte at a file position, if any quantum backs it.
\<close>

unbundle bit_operations_syntax

section \<open>Constants and data\<close>

definition SCULL_MAJOR :: int where "SCULL_MAJOR = 0"
definition SCULL_NR_DEVS :: ulong where "SCULL_NR_DEVS = 4"
definition SCULL_P_NR_DEVS :: ulong where "SCULL_P_NR_DEVS = 4"
definition SCULL_QUANTUM :: ulong where "SCULL_QUANTUM = 4000"
definition SCULL_QSET :: ulong where "SCULL_QSET = 1000"
definition SCULL_P_LEN :: ulong where "SCULL_P_LEN = 4000"

text \<open>
  A quantum set. The list that the \<^verbatim>\<open>next\<close> pointers form from \<^verbatim>\<open>dev->qset\<close> is
  an Isabelle list, its end (\<^verbatim>\<open>NULL\<close>) the end of the list; \<^verbatim>\<open>data\<close> is
  \<^verbatim>\<open>NULL\<close> or an array of nullable pointers to quanta.
\<close>

record scull_qset_t =
  q_data :: "ptr option list option"

record scull_dev =
  qset :: "scull_qset_t list"
  quantum_len :: size_t
  qset_len :: size_t
  dev_len :: size_t
  access_key :: u32
  dev_lock :: mutex

record scull_follow_t =
  qset_p :: size_t
  quantum_p :: size_t
  offset_p :: size_t

text \<open>The module parameters and globals of main.c and pipe.c.\<close>

record scull_globals =
  scull_major :: int
  scull_minor :: int
  scull_nr_devs :: ulong
  scull_quantum :: ulong
  scull_qset :: ulong
  scull_p_nr_devs :: ulong
  scull_p_len :: ulong

definition scull_globals_init :: scull_globals where
  "scull_globals_init = \<lparr>scull_major = SCULL_MAJOR, scull_minor = 0,
     scull_nr_devs = SCULL_NR_DEVS, scull_quantum = SCULL_QUANTUM, scull_qset = SCULL_QSET,
     scull_p_nr_devs = SCULL_P_NR_DEVS, scull_p_len = SCULL_P_LEN\<rparr>"

definition TYPE_minor :: "u32 \<Rightarrow> u32" where
  "TYPE_minor minor = drop_bit 4 minor AND 0xF"

definition NUM_minor :: "u32 \<Rightarrow> u32" where
  "NUM_minor minor = minor AND 0xF"

text \<open>
  Kernel memory of the driver: the live objects of the slab cache \<^verbatim>\<open>kmc\<close> with their
  contents, and the number of live \<^verbatim>\<open>kcalloc\<close> allocations (list nodes and pointer arrays).
\<close>

type_synonym slab_map = "ptr \<rightharpoonup> byte list"

record scull_heap =
  slab :: slab_map
  kmallocs :: int

text \<open>
  The kernel as one system call sees it. A \<^verbatim>\<open>kcalloc\<close> that succeeds yields zeroed memory,
  so only its success is a parameter (for a list node, indexed by the node's position).
\<close>

record scull_kernel =
  k_mutex_lock_interruptible :: int
  k_kcalloc_qset :: "nat \<Rightarrow> bool"
  k_kcalloc_data :: bool
  k_kmem_cache_alloc :: "slab_map \<Rightarrow> (ptr \<times> byte list) option"
  k_kmem_cache_free_bulk :: "size_t \<Rightarrow> ptr option list \<Rightarrow> slab_map \<Rightarrow> slab_map"
  k_copy_to_user :: "byte list \<Rightarrow> byte list \<times> size_t"
  k_copy_from_user :: "byte list \<Rightarrow> size_t \<Rightarrow> byte list \<times> size_t"

section \<open>Emptying and opening the device\<close>

fun trim_qsets :: "scull_kernel \<Rightarrow> size_t \<Rightarrow> scull_qset_t list \<Rightarrow> scull_heap \<Rightarrow> scull_heap" where
  "trim_qsets k n [] h = h"
| "trim_qsets k n (q # qs) h =
     trim_qsets k n qs
       (case q_data q of
          None \<Rightarrow> h\<lparr>kmallocs := kmallocs h - 1\<rparr>
        | Some d \<Rightarrow> h\<lparr>slab := k_kmem_cache_free_bulk k (n - 1) d (slab h),
                      kmallocs := kmallocs h - 2\<rparr>)"

definition scull_trim ::
    "scull_kernel \<Rightarrow> scull_globals \<Rightarrow> scull_dev \<Rightarrow> scull_heap \<Rightarrow> fault + (scull_dev \<times> scull_heap)" where
  "scull_trim k g dev h =
     bindS (lockdep_assert_held (dev_lock dev)) (\<lambda>_.
       let h' = trim_qsets k (qset_len dev) (qset dev) h
       in Inr (dev\<lparr>dev_len := 0, quantum_len := scull_quantum g, qset_len := scull_qset g,
                   qset := []\<rparr>, h'))"

abbreviation (input) O_ACCMODE :: u32 where "O_ACCMODE \<equiv> 3"
abbreviation (input) O_WRONLY :: u32 where "O_WRONLY \<equiv> 1"
abbreviation (input) O_RDWR :: u32 where "O_RDWR \<equiv> 2"
abbreviation (input) O_NONBLOCK :: u32 where "O_NONBLOCK \<equiv> 0x800"

definition scull_open ::
    "scull_kernel \<Rightarrow> scull_globals \<Rightarrow> u32 \<Rightarrow> scull_dev \<Rightarrow> scull_heap
       \<Rightarrow> fault + (int \<times> scull_dev \<times> scull_heap)" where
  "scull_open k g f_flags dev h =
     (if f_flags AND O_ACCMODE = O_WRONLY
      then bindS (mutex_lock_interruptible_sparse (k_mutex_lock_interruptible k) (dev_lock dev))
             (\<lambda>(r, m).
        if r \<noteq> 0 then Inr (- ERESTARTSYS, dev, h)
        else bindS (scull_trim k g (dev\<lparr>dev_lock := m\<rparr>) h) (\<lambda>(dev, h).
             bindS (mutex_unlock_sparse (dev_lock dev)) (\<lambda>m.
               Inr (0, dev\<lparr>dev_lock := m\<rparr>, h))))
      else Inr (0, dev, h))"

definition scull_release :: "scull_dev \<Rightarrow> int \<times> scull_dev" where
  "scull_release dev = (0, dev)"

section \<open>Finding the quantum set of a position\<close>

definition empty_qset :: scull_qset_t where
  "empty_qset = \<lparr>q_data = None\<rparr>"

text \<open>The loop \<^verbatim>\<open>while (n--)\<close>; \<open>i\<close> is the position of the current node.\<close>

fun follow_walk ::
    "scull_kernel \<Rightarrow> nat \<Rightarrow> nat \<Rightarrow> scull_qset_t list \<Rightarrow> scull_heap
       \<Rightarrow> nat option \<times> scull_qset_t list \<times> scull_heap" where
  "follow_walk k i 0 qs h = (Some i, qs, h)"
| "follow_walk k i (Suc n) qs h =
     (if Suc i = length qs
      then if k_kcalloc_qset k (Suc i)
           then follow_walk k (Suc i) n (qs @ [empty_qset]) (h\<lparr>kmallocs := kmallocs h + 1\<rparr>)
           else (None, qs, h)
      else follow_walk k (Suc i) n qs h)"

definition scull_follow ::
    "scull_kernel \<Rightarrow> scull_dev \<Rightarrow> scull_heap \<Rightarrow> loff_t
       \<Rightarrow> fault + (scull_follow_t \<times> nat option \<times> scull_dev \<times> scull_heap)" where
  "scull_follow k dev h f_pos =
     (let total_len = quantum_len dev * qset_len dev in
      if total_len = 0 then Inl DivideByZero
      else let rest = f_pos mod total_len in
      bindS (lockdep_assert_held (dev_lock dev)) (\<lambda>_.
        let flw = \<lparr>qset_p = f_pos div total_len,
                   quantum_p = rest div quantum_len dev,
                   offset_p = rest mod quantum_len dev\<rparr>;
            (head, qs, h) =
              (if qset dev = []
               then if k_kcalloc_qset k 0
                    then (Some 0, [empty_qset], h\<lparr>kmallocs := kmallocs h + 1\<rparr>)
                    else (None, [], h)
               else (Some 0, qset dev, h))
        in case head of
             None \<Rightarrow> Inr (flw, None, dev\<lparr>qset := qs\<rparr>, h)
           | Some i \<Rightarrow> let (r, qs, h) = follow_walk k i (unat (qset_p flw)) qs h
                       in Inr (flw, r, dev\<lparr>qset := qs\<rparr>, h)))"

section \<open>Memory statistics\<close>

text \<open>\<open>sizeof(struct scull_qset)\<close> is 16, \<open>sizeof(void *)\<close> is 8.\<close>

fun meminfo_slots ::
    "size_t \<Rightarrow> nat \<Rightarrow> ptr option list \<Rightarrow> size_t \<times> size_t \<Rightarrow> fault + (size_t \<times> size_t)" where
  "meminfo_slots qlen 0 d tm = Inr tm"
| "meminfo_slots qlen (Suc n) [] tm = Inl OutOfBounds"
| "meminfo_slots qlen (Suc n) (None # d) tm = Inr tm"
| "meminfo_slots qlen (Suc n) (Some a # d) tm =
     meminfo_slots qlen n d (fst tm + qlen, snd tm + 8)"

fun meminfo_loop ::
    "scull_dev \<Rightarrow> scull_qset_t list \<Rightarrow> size_t \<times> size_t \<Rightarrow> fault + (size_t \<times> size_t)" where
  "meminfo_loop dev [] tm = Inr tm"
| "meminfo_loop dev (q # qs) tm =
     (case q_data q of
        None \<Rightarrow> meminfo_loop dev qs (fst tm + 16, snd tm + 16)
      | Some d \<Rightarrow>
          bindS (meminfo_slots (quantum_len dev) (unat (qset_len dev)) d
                   (fst tm + 16 + qset_len dev * 8, snd tm + 16 + dev_len dev))
                (meminfo_loop dev qs))"

definition scull_meminfo :: "scull_dev \<Rightarrow> fault + (size_t \<times> size_t)" where
  "scull_meminfo dev =
     bindS (meminfo_loop dev (qset dev) (0, 0)) (\<lambda>(tmem, mem). Inr (tmem div 1024, mem))"

section \<open>Reading and writing\<close>

text \<open>Access to a slab object: a dangling pointer or a range past its end is a fault.\<close>

definition slab_load :: "slab_map \<Rightarrow> ptr \<Rightarrow> size_t \<Rightarrow> size_t \<Rightarrow> fault + byte list" where
  "slab_load s a off n =
     (case s a of
        None \<Rightarrow> Inl NullDeref
      | Some b \<Rightarrow> if unat off + unat n \<le> length b
                  then Inr (sub_block (unat off) (unat n) b) else Inl OutOfBounds)"

definition slab_store :: "slab_map \<Rightarrow> ptr \<Rightarrow> size_t \<Rightarrow> byte list \<Rightarrow> fault + slab_map" where
  "slab_store s a off bs =
     (case s a of
        None \<Rightarrow> Inl NullDeref
      | Some b \<Rightarrow> if unat off + length bs \<le> length b
                  then Inr (s(a \<mapsto> blit b (unat off) bs)) else Inl OutOfBounds)"

text \<open>The label \<^verbatim>\<open>out\<close> of read and write.\<close>

definition scull_out :: "scull_dev \<Rightarrow> fault + scull_dev" where
  "scull_out dev =
     bindS (scull_meminfo dev) (\<lambda>_.
     bindS (mutex_unlock_sparse (dev_lock dev)) (\<lambda>m. Inr (dev\<lparr>dev_lock := m\<rparr>)))"

text \<open>The tests \<^verbatim>\<open>if (count > ...) count = ...\<close> of read and write.\<close>

definition clip_quantum :: "scull_dev \<Rightarrow> scull_follow_t \<Rightarrow> size_t \<Rightarrow> size_t" where
  "clip_quantum dev flw count =
     (if count > quantum_len dev - offset_p flw then quantum_len dev - offset_p flw else count)"

definition clip_len :: "scull_dev \<Rightarrow> loff_t \<Rightarrow> size_t \<Rightarrow> size_t" where
  "clip_len dev f_pos count =
     (if f_pos + count > dev_len dev then dev_len dev - f_pos else count)"

definition read_locked ::
    "scull_kernel \<Rightarrow> scull_dev \<Rightarrow> scull_heap \<Rightarrow> size_t \<Rightarrow> loff_t
       \<Rightarrow> fault + (int \<times> byte list \<times> loff_t \<times> scull_dev \<times> scull_heap)" where
  "read_locked k dev h count f_pos =
     (if f_pos \<ge> dev_len dev then Inr (0, [], f_pos, dev, h)
      else let count = clip_len dev f_pos count in
      bindS (scull_follow k dev h f_pos) (\<lambda>(flw, q, dev, h).
        case q of
          None \<Rightarrow> Inr (0, [], f_pos, dev, h)
        | Some i \<Rightarrow>
            (case q_data (qset dev ! i) of
               None \<Rightarrow> Inr (0, [], f_pos, dev, h)
             | Some d \<Rightarrow>
                 if length d \<le> unat (quantum_p flw) then Inl OutOfBounds
                 else (case d ! unat (quantum_p flw) of
                   None \<Rightarrow> Inr (0, [], f_pos, dev, h)
                 | Some a \<Rightarrow>
                     let count = clip_quantum dev flw count in
                     bindS (slab_load (slab h) a (offset_p flw) count) (\<lambda>bs.
                       let (out, left) = k_copy_to_user k bs in
                       if left \<noteq> 0 then Inr (- EFAULT, out, f_pos, dev, h)
                       else Inr (sint count, out, f_pos + count, dev, h))))))"

definition scull_read ::
    "scull_kernel \<Rightarrow> scull_dev \<Rightarrow> scull_heap \<Rightarrow> size_t \<Rightarrow> loff_t
       \<Rightarrow> fault + (int \<times> byte list \<times> loff_t \<times> scull_dev \<times> scull_heap)" where
  "scull_read k dev h count f_pos =
     bindS (mutex_lock_interruptible_sparse (k_mutex_lock_interruptible k) (dev_lock dev))
       (\<lambda>(r, m).
       if r \<noteq> 0 then Inr (- ERESTARTSYS, [], f_pos, dev, h)
       else bindS (read_locked k (dev\<lparr>dev_lock := m\<rparr>) h count f_pos)
              (\<lambda>(ssret, out, f_pos, dev, h).
            bindS (scull_out dev) (\<lambda>dev. Inr (ssret, out, f_pos, dev, h))))"

definition set_data :: "scull_dev \<Rightarrow> nat \<Rightarrow> ptr option list \<Rightarrow> scull_dev" where
  "set_data dev i d = dev\<lparr>qset := (qset dev)[i := (qset dev ! i)\<lparr>q_data := Some d\<rparr>]\<rparr>"

text \<open>The pointer array of node \<open>i\<close>, allocated if it is missing; \<open>None\<close> when that fails.\<close>

definition ensure_data ::
    "scull_kernel \<Rightarrow> scull_dev \<Rightarrow> scull_heap \<Rightarrow> nat
       \<Rightarrow> ptr option list option \<times> scull_dev \<times> scull_heap" where
  "ensure_data k dev h i =
     (case q_data (qset dev ! i) of
        Some d \<Rightarrow> (Some d, dev, h)
      | None \<Rightarrow>
          if k_kcalloc_data k
          then let d = replicate (unat (qset_len dev)) None
               in (Some d, set_data dev i d, h\<lparr>kmallocs := kmallocs h + 1\<rparr>)
          else (None, dev, h))"

text \<open>The quantum in slot \<open>j\<close> of that array, allocated if it is missing.\<close>

definition ensure_quantum ::
    "scull_kernel \<Rightarrow> scull_dev \<Rightarrow> scull_heap \<Rightarrow> nat \<Rightarrow> ptr option list \<Rightarrow> nat
       \<Rightarrow> fault + (ptr option \<times> scull_dev \<times> scull_heap)" where
  "ensure_quantum k dev h i d j =
     (if length d \<le> j then Inl OutOfBounds
      else (case d ! j of
        Some a \<Rightarrow> Inr (Some a, dev, h)
      | None \<Rightarrow>
          (case k_kmem_cache_alloc k (slab h) of
             None \<Rightarrow> Inr (None, dev, h)
           | Some (a, b) \<Rightarrow> Inr (Some a, set_data dev i (d[j := Some a]),
                                  h\<lparr>slab := (slab h)(a \<mapsto> b)\<rparr>))))"

text \<open>The quantum that backs the position, with whatever had to be allocated for it.\<close>

definition write_quantum ::
    "scull_kernel \<Rightarrow> scull_dev \<Rightarrow> scull_heap \<Rightarrow> loff_t
       \<Rightarrow> fault + (scull_follow_t \<times> ptr option \<times> scull_dev \<times> scull_heap)" where
  "write_quantum k dev h f_pos =
     bindS (scull_follow k dev h f_pos) (\<lambda>(flw, q, dev, h).
       case q of
         None \<Rightarrow> Inr (flw, None, dev, h)
       | Some i \<Rightarrow>
           (case ensure_data k dev h i of
              (None, dev, h) \<Rightarrow> Inr (flw, None, dev, h)
            | (Some d, dev, h) \<Rightarrow>
                bindS (ensure_quantum k dev h i d (unat (quantum_p flw)))
                  (\<lambda>(qa, dev, h). Inr (flw, qa, dev, h))))"

definition write_locked ::
    "scull_kernel \<Rightarrow> scull_dev \<Rightarrow> scull_heap \<Rightarrow> byte list \<Rightarrow> size_t \<Rightarrow> loff_t
       \<Rightarrow> fault + (int \<times> loff_t \<times> scull_dev \<times> scull_heap)" where
  "write_locked k dev h buf count f_pos =
     bindS (write_quantum k dev h f_pos) (\<lambda>(flw, qa, dev, h).
       case qa of
         None \<Rightarrow> Inr (- ENOMEM, f_pos, dev, h)
       | Some a \<Rightarrow>
           let count = clip_quantum dev flw count;
               (bs, left) = k_copy_from_user k buf count in
           bindS (slab_store (slab h) a (offset_p flw) bs) (\<lambda>s.
             let h = h\<lparr>slab := s\<rparr> in
             if left \<noteq> 0 then Inr (- EFAULT, f_pos, dev, h)
             else let f_pos = f_pos + count;
                      dev = (if dev_len dev < f_pos then dev\<lparr>dev_len := f_pos\<rparr> else dev)
                  in Inr (sint count, f_pos, dev, h)))"

definition scull_write ::
    "scull_kernel \<Rightarrow> scull_dev \<Rightarrow> scull_heap \<Rightarrow> byte list \<Rightarrow> size_t \<Rightarrow> loff_t
       \<Rightarrow> fault + (int \<times> loff_t \<times> scull_dev \<times> scull_heap)" where
  "scull_write k dev h buf count f_pos =
     bindS (mutex_lock_interruptible_sparse (k_mutex_lock_interruptible k) (dev_lock dev))
       (\<lambda>(r, m).
       if r \<noteq> 0 then Inr (- ERESTARTSYS, f_pos, dev, h)
       else bindS (write_locked k (dev\<lparr>dev_lock := m\<rparr>) h buf count f_pos)
              (\<lambda>(ssret, f_pos, dev, h).
            bindS (scull_out dev) (\<lambda>dev. Inr (ssret, f_pos, dev, h))))"

end
