(* ===== verification/Scull_Dev_Correct.thy ===== *)
theory Scull_Dev_Correct
  imports Scull_Dev
begin

text \<open>
  Correctness of the scull bare device: the well-formedness invariant \<open>dev_wf\<close>, the abstract
  contents \<open>dev_byte\<close>, the block addressing contract, and the behaviour of trim, open, read
  and write against them.
\<close>

section \<open>Documented behaviour of the kernel functions\<close>

text \<open>
  \<^verbatim>\<open>kmem_cache_alloc\<close> hands out an object that is not in use, of the cache's object size,
  with unspecified contents. \<^verbatim>\<open>kmem_cache_free_bulk\<close> frees the objects among the first
  entries of the array and skips null entries. A user copy that reports no uncopied bytes has
  copied all of them.
\<close>

definition slab_alloc_ok :: "nat \<Rightarrow> scull_kernel \<Rightarrow> bool" where
  "slab_alloc_ok objsz k \<longleftrightarrow>
     (\<forall>s a b. k_kmem_cache_alloc k s = Some (a, b) \<longrightarrow> a \<notin> dom s \<and> length b = objsz)"

definition free_bulk_ok :: "scull_kernel \<Rightarrow> bool" where
  "free_bulk_ok k \<longleftrightarrow>
     (\<forall>n d s. unat n \<le> length d \<longrightarrow>
        k_kmem_cache_free_bulk k n d s = s |` (- {a. Some a \<in> set (take (unat n) d)}))"

definition copy_to_user_ok :: "scull_kernel \<Rightarrow> bool" where
  "copy_to_user_ok k \<longleftrightarrow>
     (\<forall>bs. snd (k_copy_to_user k bs) = 0 \<longrightarrow> fst (k_copy_to_user k bs) = bs)"

definition copy_from_user_ok :: "scull_kernel \<Rightarrow> bool" where
  "copy_from_user_ok k \<longleftrightarrow>
     (\<forall>src n. unat n \<le> length src \<longrightarrow>
        length (fst (k_copy_from_user k src n)) = unat n \<and>
        (snd (k_copy_from_user k src n) = 0 \<longrightarrow>
           fst (k_copy_from_user k src n) = take (unat n) src))"

section \<open>Addressing\<close>

text \<open>
  A position of a block-structured file is a block and an offset in it. Within a block the
  positions are contiguous, and no two positions share a place.
\<close>

locale block_addressing =
  fixes valid :: "'g \<Rightarrow> bool"
    and bsize :: "'g \<Rightarrow> nat"
    and place :: "'g \<Rightarrow> nat \<Rightarrow> 'b \<times> nat"
  assumes offset_bound: "valid g \<Longrightarrow> snd (place g p) < bsize g"
    and place_inj: "valid g \<Longrightarrow> place g p = place g q \<Longrightarrow> p = q"
    and place_run: "valid g \<Longrightarrow> snd (place g p) + m < bsize g \<Longrightarrow>
        place g (p + m) = (fst (place g p), snd (place g p) + m)"
begin

lemma run_iff:
  assumes "valid g" and "snd (place g p) + n \<le> bsize g"
  shows "fst (place g x) = fst (place g p) \<and> snd (place g p) \<le> snd (place g x)
           \<and> snd (place g x) < snd (place g p) + n
         \<longleftrightarrow> p \<le> x \<and> x < p + n"
proof
  assume *: "fst (place g x) = fst (place g p) \<and> snd (place g p) \<le> snd (place g x)
           \<and> snd (place g x) < snd (place g p) + n"
  let ?m = "snd (place g x) - snd (place g p)"
  from * assms have "place g (p + ?m) = (fst (place g p), snd (place g p) + ?m)"
    by (intro place_run) auto
  with * have "place g (p + ?m) = place g x"
    by (cases "place g x") auto
  with assms(1) have "p + ?m = x" by (rule place_inj)
  with * show "p \<le> x \<and> x < p + n" by linarith
next
  assume x: "p \<le> x \<and> x < p + n"
  then obtain m where m: "x = p + m" "m < n" by (metis le_Suc_ex nat_add_left_cancel_less)
  with assms have "place g x = (fst (place g p), snd (place g p) + m)"
    using place_run [of g p m] by simp
  with m show "fst (place g x) = fst (place g p) \<and> snd (place g p) \<le> snd (place g x)
           \<and> snd (place g x) < snd (place g p) + n" by simp
qed

end

text \<open>The split of a position that \<^verbatim>\<open>__scull_follow\<close> computes, over the naturals.\<close>

type_synonym geometry = "nat \<times> nat"

definition scull_valid :: "geometry \<Rightarrow> bool" where
  "scull_valid g \<longleftrightarrow> 0 < fst g \<and> 0 < snd g"

definition scull_place :: "geometry \<Rightarrow> nat \<Rightarrow> (nat \<times> nat) \<times> nat" where
  "scull_place g p =
     (let t = fst g * snd g in ((p div t, p mod t div fst g), p mod t mod fst g))"

definition geom :: "scull_dev \<Rightarrow> geometry" where
  "geom dev = (unat (quantum_len dev), unat (qset_len dev))"

section \<open>Abstract contents and the invariant\<close>

definition quantum_at :: "scull_dev \<Rightarrow> nat \<times> nat \<Rightarrow> ptr option" where
  "quantum_at dev ij =
     (if fst ij < length (qset dev)
      then (case q_data (qset dev ! fst ij) of
              None \<Rightarrow> None
            | Some d \<Rightarrow> if snd ij < length d then d ! snd ij else None)
      else None)"

definition owned :: "scull_dev \<Rightarrow> ptr set" where
  "owned dev = {a. \<exists>ij. quantum_at dev ij = Some a}"

definition dev_byte :: "scull_dev \<Rightarrow> slab_map \<Rightarrow> nat \<Rightarrow> byte option" where
  "dev_byte dev s p =
     (let (ij, off) = scull_place (geom dev) p in
      case quantum_at dev ij of
        None \<Rightarrow> None
      | Some a \<Rightarrow> (case s a of
                     None \<Rightarrow> None
                   | Some b \<Rightarrow> if off < length b then Some (b ! off) else None))"

text \<open>
  The geometry is sane (no zero size, the bytes of one quantum set fit the address width, a
  quantum fits the objects of the slab cache); every pointer array has the length
  \<open>qset_len\<close>; the quanta are live slab objects, each in one slot only; the stored length is
  covered by the list of quantum sets; the lock is free and its context count settled.
\<close>

definition geom_ok :: "nat \<Rightarrow> scull_dev \<Rightarrow> bool" where
  "geom_ok objsz dev \<longleftrightarrow>
     0 < quantum_len dev \<and> 0 < qset_len dev \<and>
     unat (quantum_len dev) * unat (qset_len dev) < 2 ^ 64 \<and> unat (quantum_len dev) \<le> objsz"

definition store_wf :: "nat \<Rightarrow> scull_dev \<Rightarrow> slab_map \<Rightarrow> bool" where
  "store_wf objsz dev s \<longleftrightarrow>
     (\<forall>q \<in> set (qset dev). \<forall>d. q_data q = Some d \<longrightarrow> length d = unat (qset_len dev)) \<and>
     (\<forall>ij a. quantum_at dev ij = Some a \<longrightarrow> (\<exists>b. s a = Some b \<and> length b = objsz)) \<and>
     (\<forall>ij ij' a. quantum_at dev ij = Some a \<longrightarrow> quantum_at dev ij' = Some a \<longrightarrow> ij = ij') \<and>
     unat (dev_len dev) \<le> length (qset dev) * (unat (quantum_len dev) * unat (qset_len dev))"

definition dev_wf :: "nat \<Rightarrow> scull_dev \<Rightarrow> slab_map \<Rightarrow> bool" where
  "dev_wf objsz dev s \<longleftrightarrow> geom_ok objsz dev \<and> store_wf objsz dev s \<and> dev_lock dev = mutex_init"

text \<open>
  \<open>dev_ext\<close> relates a device and its slab to a later state in which storage may only have
  been added: sizes, stored length and lock are the same, every slot that was filled still
  holds the same quantum, live objects keep their contents, and added quanta were not live.
\<close>

definition dev_ext :: "scull_dev \<Rightarrow> slab_map \<Rightarrow> scull_dev \<Rightarrow> slab_map \<Rightarrow> bool" where
  "dev_ext dev s dev' s' \<longleftrightarrow>
     quantum_len dev' = quantum_len dev \<and> qset_len dev' = qset_len dev \<and>
     dev_len dev' = dev_len dev \<and> access_key dev' = access_key dev \<and>
     dev_lock dev' = dev_lock dev \<and> length (qset dev) \<le> length (qset dev') \<and>
     (\<forall>ij a. quantum_at dev ij = Some a \<longrightarrow> quantum_at dev' ij = Some a) \<and>
     (\<forall>ij a. quantum_at dev' ij = Some a \<longrightarrow> quantum_at dev ij = Some a \<or> a \<notin> dom s) \<and>
     (\<forall>a \<in> dom s. s' a = s a)"

text \<open>The arguments the VFS lets through: non-negative positions and counts.\<close>

definition rw_args_ok :: "size_t \<Rightarrow> loff_t \<Rightarrow> bool" where
  "rw_args_ok count f_pos \<longleftrightarrow> unat count < 2 ^ 63 \<and> unat f_pos < 2 ^ 63"

text \<open>
  What a read may return, over the abstract contents: nothing past the stored length or where
  no quantum backs the position, else the bytes up to the end of the quantum.
\<close>

definition spec_read :: "(nat \<Rightarrow> byte option) \<Rightarrow> nat \<Rightarrow> nat \<Rightarrow> nat \<Rightarrow> nat \<Rightarrow> byte list" where
  "spec_read c len q count p =
     (if len \<le> p \<or> c p = None then []
      else map (\<lambda>x. the (c x)) [p ..< p + min (min count (len - p)) (q - p mod q)])"

text \<open>
  What a write of \<open>bs\<close> at \<open>p\<close> does to the abstract contents: those bytes are there
  afterwards, and every other backed position keeps its byte.
\<close>

definition spec_write :: "(nat \<Rightarrow> byte option) \<Rightarrow> nat \<Rightarrow> byte list \<Rightarrow> (nat \<Rightarrow> byte option) \<Rightarrow> bool" where
  "spec_write c p bs c' \<longleftrightarrow>
     (\<forall>x < length bs. c' (p + x) = Some (bs ! x)) \<and>
     (\<forall>x v. c x = Some v \<longrightarrow> x < p \<or> p + length bs \<le> x \<longrightarrow> c' x = Some v)"

text \<open>
  The outcomes of a write whose lock was taken, for the device, slab and position before and
  after: it ran out of memory and only storage was added; the user copy failed and only the
  bytes of the target range may have changed; or the bytes up to the end of the quantum were
  written and position and length advanced.
\<close>

definition write_len :: "scull_dev \<Rightarrow> size_t \<Rightarrow> loff_t \<Rightarrow> nat" where
  "write_len dev count f_pos =
     min (unat count) (unat (quantum_len dev) - unat f_pos mod unat (quantum_len dev))"

definition write_outcome ::
    "scull_dev \<Rightarrow> slab_map \<Rightarrow> byte list \<Rightarrow> size_t \<Rightarrow> loff_t \<Rightarrow> int \<Rightarrow> loff_t \<Rightarrow> scull_dev \<Rightarrow> slab_map \<Rightarrow> bool"
  where
  "write_outcome dev s buf count f_pos ret f_pos' dev' s' \<longleftrightarrow>
     (let n = write_len dev count f_pos; c = dev_byte dev s; c' = dev_byte dev' s' in
      ret = - ENOMEM \<and> f_pos' = f_pos \<and> dev_ext dev s dev' s' \<or>
      ret = - EFAULT \<and> f_pos' = f_pos \<and> dev_len dev' = dev_len dev \<and> geom dev' = geom dev \<and>
        (\<exists>bs. length bs = n \<and> spec_write c (unat f_pos) bs c') \<or>
      ret = int n \<and> f_pos' = f_pos + of_nat n \<and>
        dev_len dev' = max (dev_len dev) f_pos' \<and> geom dev' = geom dev \<and> spec_write c (unat f_pos) (take n buf) c')"

section \<open>Addressing lemmas\<close>

lemma scull_place_run:
  assumes "snd (scull_place (q, n) p) + m < q"
  shows "scull_place (q, n) (p + m) =
           (fst (scull_place (q, n) p), snd (scull_place (q, n) p) + m)"
proof -
  have "p mod q + m < q"
    using assms by (simp add: scull_place_def mod_mult2_eq)
  then show ?thesis
    by (simp add: scull_place_def Let_def div_mult2_eq mod_mult2_eq mod_add_small div_add_small)
qed

interpretation sa: block_addressing scull_valid fst scull_place
proof (unfold_locales, goal_cases)
  case (1 g p)
  then show ?case by (auto simp: scull_valid_def scull_place_def Let_def)
next
  case (2 g p q)
  then show ?case
    by (auto simp: scull_valid_def scull_place_def Let_def)
      (metis div_mult_mod_eq)
next
  case (3 g p m)
  then show ?case by (cases g) (simp add: scull_place_run)
qed

section \<open>Following the list\<close>

lemma geom_place_ok: "geom_ok objsz dev \<Longrightarrow> scull_valid (geom dev)"
  by (simp add: geom_ok_def scull_valid_def geom_def unat_gt_0 word_neq_0_conv)

lemma unat_total_len:
  "geom_ok objsz dev \<Longrightarrow>
     unat (quantum_len dev * qset_len dev) = unat (quantum_len dev) * unat (qset_len dev)"
  by (simp add: geom_ok_def unat_word_ariths)

lemma follow_walk_grows:
  "follow_walk k i n qs h = (r, qs', h') \<Longrightarrow>
     \<exists>m. qs' = qs @ replicate m empty_qset \<and> h' = h\<lparr>kmallocs := kmallocs h + int m\<rparr>"
proof (induction k i n qs h rule: follow_walk.induct)
  case (1 k i qs h)
  then show ?case by (intro exI [of _ 0]) simp
next
  case (2 k i n qs h)
  show ?case
  proof (cases "Suc i = length qs \<and> k_kcalloc_qset k (Suc i)")
    case True
    with 2 obtain m where "qs' = (qs @ [empty_qset]) @ replicate m empty_qset"
      "h' = h\<lparr>kmallocs := kmallocs h + 1 + int m\<rparr>"
      by fastforce
    then show ?thesis by (intro exI [of _ "Suc m"]) simp
  next
    case False
    with 2 show ?thesis
      by (auto split: if_splits intro: exI [of _ 0])
  qed
qed

lemma follow_walk_node:
  "follow_walk k i n qs h = (Some j, qs', h') \<Longrightarrow> i < length qs \<Longrightarrow> j = i + n \<and> j < length qs'"
  by (induction k i n qs h rule: follow_walk.induct) (auto split: if_splits)

lemma follow_walk_inside:
  "i + n < length qs \<Longrightarrow> follow_walk k i n qs h = (Some (i + n), qs, h)"
  by (induction k i n qs h rule: follow_walk.induct) auto

lemma follow_walk_alloc:
  "\<forall>x. k_kcalloc_qset k x \<Longrightarrow> follow_walk k i n qs h = (r, qs', h') \<Longrightarrow> r \<noteq> None"
  by (induction k i n qs h rule: follow_walk.induct) (auto split: if_splits)

text \<open>
  What one call of \<^verbatim>\<open>__scull_follow\<close> does: the list grows by empty nodes at its end, each
  of them one allocation; the node returned is the one that holds the position; the list does
  not grow when it already reaches that node.
\<close>

lemma scull_follow_spec:
  assumes "geom_ok objsz dev" and "held (dev_lock dev)"
  obtains flw r m where
    "scull_follow k dev h f_pos =
       Inr (flw, r, dev\<lparr>qset := qset dev @ replicate m empty_qset\<rparr>,
            h\<lparr>kmallocs := kmallocs h + int m\<rparr>)"
    "((unat (qset_p flw), unat (quantum_p flw)), unat (offset_p flw))
       = scull_place (geom dev) (unat f_pos)"
    "\<And>i. r = Some i \<Longrightarrow> i = unat (qset_p flw) \<and> i < length (qset dev) + m"
    "unat (qset_p flw) < length (qset dev) \<Longrightarrow> m = 0 \<and> r = Some (unat (qset_p flw))"
    "(\<forall>x. k_kcalloc_qset k x) \<Longrightarrow> r \<noteq> None"
proof -
  let ?t = "quantum_len dev * qset_len dev"
  define flw where "flw = \<lparr>qset_p = f_pos div ?t, quantum_p = f_pos mod ?t div quantum_len dev,
                           offset_p = f_pos mod ?t mod quantum_len dev\<rparr>"
  have t: "?t \<noteq> 0" and ut: "unat ?t = unat (quantum_len dev) * unat (qset_len dev)"
    using assms(1) unat_total_len [OF assms(1)]
    by (auto simp: geom_ok_def word_eq_0_unat word_neq_0_conv [symmetric])
  have pl: "((unat (qset_p flw), unat (quantum_p flw)), unat (offset_p flw))
       = scull_place (geom dev) (unat f_pos)"
    by (simp add: flw_def scull_place_def geom_def unat_div unat_mod ut Let_def)
  show thesis
  proof (cases "qset dev = [] \<and> \<not> k_kcalloc_qset k 0")
    case True
    with t assms(2) have "scull_follow k dev h f_pos = Inr (flw, None, dev, h)"
      by (simp add: scull_follow_def Let_def lockdep_assert_held_def flw_def)
    with True pl show thesis by (intro that [of flw None 0]) auto
  next
    case False
    define z where "z = (if qset dev = [] then 1 else 0 :: nat)"
    let ?qs = "qset dev @ replicate z empty_qset"
    let ?h = "h\<lparr>kmallocs := kmallocs h + int z\<rparr>"
    obtain r qs' h' where w: "follow_walk k 0 (unat (qset_p flw)) ?qs ?h = (r, qs', h')"
      by (metis prod_cases3)
    have "0 < length ?qs" by (simp add: z_def)
    with w have node: "\<And>j. r = Some j \<Longrightarrow> j = unat (qset_p flw) \<and> j < length qs'"
      using follow_walk_node by fastforce
    obtain m where m:
      "qs' = ?qs @ replicate m empty_qset" "h' = ?h\<lparr>kmallocs := kmallocs ?h + int m\<rparr>"
      using follow_walk_grows [OF w] by blast
    have inside: "z = 0 \<and> m = 0 \<and> r = Some (unat (qset_p flw))"
      if "unat (qset_p flw) < length (qset dev)"
      using that w m follow_walk_inside [of 0 "unat (qset_p flw)" "qset dev" k h]
      by (auto simp: z_def)
    have "scull_follow k dev h f_pos = Inr (flw, r, dev\<lparr>qset := qs'\<rparr>, h')"
      using False t assms(2) w
      by (auto simp: scull_follow_def Let_def lockdep_assert_held_def flw_def z_def
          split: if_splits)
    then have eq: "scull_follow k dev h f_pos =
        Inr (flw, r, dev\<lparr>qset := qset dev @ replicate (z + m) empty_qset\<rparr>,
             h\<lparr>kmallocs := kmallocs h + int (z + m)\<rparr>)"
      using m by (simp add: replicate_add)
    show thesis
    proof (rule that [OF eq pl])
      show "i = unat (qset_p flw) \<and> i < length (qset dev) + (z + m)" if "r = Some i" for i
        using node [OF that] m by simp
      show "z + m = 0 \<and> r = Some (unat (qset_p flw))"
        if "unat (qset_p flw) < length (qset dev)"
        using inside [OF that] by simp
      show "r \<noteq> None" if "\<forall>x. k_kcalloc_qset k x"
        using follow_walk_alloc [OF that w] .
    qed
  qed
qed

section \<open>What the invariant gives\<close>

lemma quantum_at_simps [simp]:
  "quantum_at (dev\<lparr>dev_lock := m\<rparr>) = quantum_at dev"
  "quantum_at (dev\<lparr>dev_len := n\<rparr>) = quantum_at dev"
  "geom (dev\<lparr>dev_lock := m\<rparr>) = geom dev"
  "geom (dev\<lparr>dev_len := n\<rparr>) = geom dev"
  "geom (dev\<lparr>qset := qs\<rparr>) = geom dev"
  "geom_ok objsz (dev\<lparr>dev_lock := m\<rparr>) = geom_ok objsz dev"
  "geom_ok objsz (dev\<lparr>dev_len := n\<rparr>) = geom_ok objsz dev"
  "geom_ok objsz (dev\<lparr>qset := qs\<rparr>) = geom_ok objsz dev"
  "store_wf objsz (dev\<lparr>dev_lock := m\<rparr>) s = store_wf objsz dev s"
  by (auto simp: quantum_at_def geom_def geom_ok_def store_wf_def fun_eq_iff)

lemma dev_byte_lock [simp]:
  "dev_byte (dev\<lparr>dev_lock := m\<rparr>) = dev_byte dev" "dev_byte (dev\<lparr>dev_len := n\<rparr>) = dev_byte dev"
  by (simp_all add: dev_byte_def fun_eq_iff)

lemma q_data_empty_qset [simp]: "q_data empty_qset = None"
  by (simp add: empty_qset_def)

lemma store_wf_obj:
  "store_wf objsz dev s \<Longrightarrow> quantum_at dev ij = Some a \<Longrightarrow> \<exists>b. s a = Some b \<and> length b = objsz"
  unfolding store_wf_def by blast

lemma store_wf_inj:
  "store_wf objsz dev s \<Longrightarrow> quantum_at dev ij = Some a \<Longrightarrow> quantum_at dev ij' = Some a \<Longrightarrow> ij = ij'"
  unfolding store_wf_def by blast

lemma quantum_at_append [simp]:
  "quantum_at (dev\<lparr>qset := qset dev @ replicate m empty_qset\<rparr>) = quantum_at dev"
  by (auto simp: quantum_at_def fun_eq_iff nth_append)

lemma store_wf_append:
  "store_wf objsz dev s \<Longrightarrow> store_wf objsz (dev\<lparr>qset := qset dev @ replicate m empty_qset\<rparr>) s"
  unfolding store_wf_def quantum_at_append
  by (simp add: ball_Un add_mult_distrib trans_le_add1)

lemma meminfo_slots_ok: "n \<le> length d \<Longrightarrow> \<exists>tm'. meminfo_slots qlen n d tm = Inr tm'"
  by (induction qlen n d tm rule: meminfo_slots.induct) auto

lemma meminfo_loop_ok:
  assumes "\<forall>q \<in> set qs. \<forall>d. q_data q = Some d \<longrightarrow> length d = unat (qset_len dev)"
  shows "\<exists>tm'. meminfo_loop dev qs tm = Inr tm'"
  using assms
proof (induction dev qs tm rule: meminfo_loop.induct)
  case (1 dev tm)
  then show ?case by simp
next
  case (2 dev q qs tm)
  show ?case
  proof (cases "q_data q")
    case None
    with 2 show ?thesis by simp
  next
    case (Some d)
    with "2.prems" obtain tm' where
      "meminfo_slots (quantum_len dev) (unat (qset_len dev)) d
         (fst tm + 16 + qset_len dev * 8, snd tm + 16 + dev_len dev) = Inr tm'"
      using meminfo_slots_ok [of "unat (qset_len dev)" d] by fastforce
    with Some 2 show ?thesis by simp
  qed
qed

lemma scull_out_ok:
  assumes "store_wf objsz dev s" and "dev_lock dev = acquire_ctx (mutex_init\<lparr>held := True\<rparr>)"
  shows "scull_out dev = Inr (dev\<lparr>dev_lock := mutex_init\<rparr>)"
proof -
  from assms(1) obtain tm where "meminfo_loop dev (qset dev) (0, 0) = Inr tm"
    using meminfo_loop_ok [of "qset dev" dev "(0, 0)"] by (auto simp: store_wf_def)
  with assms(2) show ?thesis
    by (cases tm) (simp add: scull_out_def scull_meminfo_def mutex_defs)
qed

lemma place_in_qset:
  assumes "geom_ok objsz dev" and "store_wf objsz dev s" and "unat f_pos < unat (dev_len dev)"
  shows "fst (fst (scull_place (geom dev) (unat f_pos))) < length (qset dev)"
proof -
  let ?t = "unat (quantum_len dev) * unat (qset_len dev)"
  from assms(2,3) have "unat f_pos < length (qset dev) * ?t"
    by (simp add: store_wf_def)
  then have "unat f_pos div ?t < length (qset dev)"
    by (simp add: less_mult_imp_div_less)
  then show ?thesis by (simp add: scull_place_def geom_def Let_def)
qed

lemma place_slot:
  assumes "geom_ok objsz dev"
  shows "snd (fst (scull_place (geom dev) p)) < unat (qset_len dev)"
    and "snd (scull_place (geom dev) p) = p mod unat (quantum_len dev)"
proof -
  let ?q = "unat (quantum_len dev)" and ?n = "unat (qset_len dev)"
  from assms have "0 < ?q * ?n"
    by (auto simp: geom_ok_def unat_gt_0 word_neq_0_conv)
  then have "p mod (?q * ?n) < ?n * ?q" by (simp add: mult.commute)
  then show "snd (fst (scull_place (geom dev) p)) < ?n"
    by (simp add: scull_place_def geom_def Let_def less_mult_imp_div_less)
  show "snd (scull_place (geom dev) p) = p mod ?q"
    by (simp add: scull_place_def geom_def Let_def mod_mult2_eq)
qed

text \<open>A run of bytes inside one quantum, read through the abstract view.\<close>

lemma dev_byte_run:
  assumes "geom_ok objsz dev" and "store_wf objsz dev s"
    and "quantum_at dev (fst (scull_place (geom dev) p)) = Some a"
    and "s a = Some b" and "p mod unat (quantum_len dev) + n \<le> unat (quantum_len dev)"
  shows "map Some (sub_block (p mod unat (quantum_len dev)) n b) = map (dev_byte dev s) [p ..< p + n]"
proof (rule nth_equalityI)
  let ?q = "unat (quantum_len dev)"
  have lb: "length b = objsz" "?q \<le> objsz"
    using store_wf_obj [OF assms(2,3)] assms(1,4) by (auto simp: geom_ok_def)
  then show len: "length (map Some (sub_block (p mod ?q) n b)) = length (map (dev_byte dev s) [p ..< p + n])"
    using assms(5) by simp
  fix x
  assume "x < length (map Some (sub_block (p mod ?q) n b))"
  then have x: "x < n" using len by simp
  with assms(5) have "p mod ?q + x < ?q" by simp
  moreover have "snd (scull_place (geom dev) p) = p mod ?q"
    using place_slot(2) [OF assms(1)] .
  ultimately have "scull_place (geom dev) (p + x) = (fst (scull_place (geom dev) p), p mod ?q + x)"
    using sa.place_run [OF geom_place_ok [OF assms(1)], of p x] by (simp add: geom_def)
  with assms(3,4,5) lb x show
    "map Some (sub_block (p mod ?q) n b) ! x = map (dev_byte dev s) [p ..< p + n] ! x"
    by (simp add: dev_byte_def nth_sub_block)
qed

section \<open>Reading\<close>

lemma dev_byte_backed:
  assumes "geom_ok objsz dev" and "store_wf objsz dev s"
  shows "dev_byte dev s p = None \<longleftrightarrow> quantum_at dev (fst (scull_place (geom dev) p)) = None"
proof (cases "quantum_at dev (fst (scull_place (geom dev) p))")
  case None
  then show ?thesis by (simp add: dev_byte_def case_prod_unfold)
next
  case (Some a)
  with assms(2) obtain b where b: "s a = Some b" "length b = objsz"
    using store_wf_obj by blast
  have "snd (scull_place (geom dev) p) < objsz"
    using sa.offset_bound [OF geom_place_ok [OF assms(1)], of p] assms(1)
    by (simp add: geom_def geom_ok_def)
  with Some b show ?thesis by (simp add: dev_byte_def case_prod_unfold)
qed

lemma unat_clip_len:
  assumes "rw_args_ok count f_pos" and "f_pos < dev_len dev"
  shows "unat (clip_len dev f_pos count) = min (unat count) (unat (dev_len dev) - unat f_pos)"
proof -
  have "unat (f_pos + count) = unat f_pos + unat count"
    using assms(1) by (simp add: rw_args_ok_def unat_word_ariths)
  with assms(2) show ?thesis
    by (auto simp: clip_len_def word_less_nat_alt unat_sub_le [OF less_imp_le])
qed

lemma unat_clip_quantum:
  "offset_p flw \<le> quantum_len dev \<Longrightarrow> unat (clip_quantum dev flw count)
     = min (unat count) (unat (quantum_len dev) - unat (offset_p flw))"
  by (simp add: clip_quantum_def unat_clip unat_sub_le)

lemma quantum_at_slot:
  assumes "store_wf objsz dev s" and "i < length (qset dev)" and "j < unat (qset_len dev)"
  shows "quantum_at dev (i, j) = (case q_data (qset dev ! i) of None \<Rightarrow> None | Some d \<Rightarrow> d ! j)"
    and "q_data (qset dev ! i) = Some d \<Longrightarrow> length d = unat (qset_len dev)"
proof -
  show d: "length d = unat (qset_len dev)" if "q_data (qset dev ! i) = Some d" for d
    using assms(1) nth_mem [OF assms(2)] that unfolding store_wf_def by blast
  show "quantum_at dev (i, j) = (case q_data (qset dev ! i) of None \<Rightarrow> None | Some d \<Rightarrow> d ! j)"
    using assms(2,3) d by (simp add: quantum_at_def split: option.split)
qed

lemma read_locked_follow:
  assumes "scull_follow k dev h f_pos = Inr (flw, Some i, dev, h)" and "f_pos < dev_len dev"
    and "store_wf objsz dev s" and "i < length (qset dev)" and "quantum_p flw < qset_len dev"
  shows "read_locked k dev h count f_pos =
     (case quantum_at dev (i, unat (quantum_p flw)) of
        None \<Rightarrow> Inr (0, [], f_pos, dev, h)
      | Some a \<Rightarrow>
          let n = clip_quantum dev flw (clip_len dev f_pos count)
          in bindS (slab_load (slab h) a (offset_p flw) n) (\<lambda>bs.
               let (out, left) = k_copy_to_user k bs in
               if left \<noteq> 0 then Inr (- EFAULT, out, f_pos, dev, h)
               else Inr (sint n, out, f_pos + n, dev, h)))"
proof -
  note slot = quantum_at_slot [OF assms(3,4) assms(5) [unfolded word_less_nat_alt]]
  have pos: "\<not> dev_len dev \<le> f_pos" using assms(2) by simp
  show ?thesis
  proof (cases "q_data (qset dev ! i)")
    case None
    with slot(1) assms(1) pos show ?thesis by (simp add: read_locked_def Let_def)
  next
    case (Some d)
    with slot(2) assms(5) have "\<not> length d \<le> unat (quantum_p flw)"
      by (simp add: not_le word_less_nat_alt)
    with Some slot(1) assms(1) pos show ?thesis
      by (simp add: read_locked_def Let_def)
  qed
qed

text \<open>The critical section of a read, as an equation.\<close>

lemma read_locked_spec:
  assumes g: "geom_ok objsz dev" and w: "store_wf objsz dev (slab h)"
    and l: "held (dev_lock dev)" and args: "rw_args_ok count f_pos" and c: "copy_to_user_ok k"
  defines "out \<equiv> spec_read (dev_byte dev (slab h)) (unat (dev_len dev)) (unat (quantum_len dev))
                  (unat count) (unat f_pos)"
  shows "read_locked k dev h count f_pos =
     (if unat (dev_len dev) \<le> unat f_pos \<or> dev_byte dev (slab h) (unat f_pos) = None
      then Inr (0, [], f_pos, dev, h)
      else if snd (k_copy_to_user k out) \<noteq> 0
      then Inr (- EFAULT, fst (k_copy_to_user k out), f_pos, dev, h)
      else Inr (int (length out), out, f_pos + of_nat (length out), dev, h))"
proof (cases "unat (dev_len dev) \<le> unat f_pos")
  case True
  then show ?thesis by (simp add: read_locked_def word_le_nat_alt)
next
  case False
  then have lt: "f_pos < dev_len dev" "\<not> dev_len dev \<le> f_pos" by (simp_all add: word_less_nat_alt word_le_nat_alt)
  let ?p = "unat f_pos" and ?q = "unat (quantum_len dev)"
  obtain flw r m where f:
    "scull_follow k dev h f_pos = Inr (flw, r, dev\<lparr>qset := qset dev @ replicate m empty_qset\<rparr>,
            h\<lparr>kmallocs := kmallocs h + int m\<rparr>)"
    "((unat (qset_p flw), unat (quantum_p flw)), unat (offset_p flw)) = scull_place (geom dev) ?p"
    "unat (qset_p flw) < length (qset dev) \<Longrightarrow> m = 0 \<and> r = Some (unat (qset_p flw))"
    by (rule scull_follow_spec [OF g l, of k h f_pos]) blast
  define i j where "i = unat (qset_p flw)" and "j = unat (quantum_p flw)"
  have pl: "fst (scull_place (geom dev) ?p) = (i, j)" "snd (scull_place (geom dev) ?p) = unat (offset_p flw)"
    using f(2) by (simp_all add: i_def j_def flip: f(2))
  have ij: "i < length (qset dev)" "j < unat (qset_len dev)" and off: "unat (offset_p flw) = ?p mod ?q"
    using place_in_qset [OF g w, of f_pos] place_slot [OF g, of ?p] False pl by (auto simp: not_le)
  have f': "scull_follow k dev h f_pos = Inr (flw, Some i, dev, h)"
    using f(1,3) ij by (simp add: i_def)
  have "quantum_p flw < qset_len dev" using ij by (simp add: j_def word_less_nat_alt)
  note eq = read_locked_follow [OF f' lt(1) w ij(1) this, of count]
  show ?thesis
  proof (cases "quantum_at dev (i, j)")
    case None
    then show ?thesis
      using dev_byte_backed [OF g w, of ?p] pl by (simp add: eq j_def)
  next
    case (Some a)
    obtain b where b: "slab h a = Some b" "length b = objsz"
      using store_wf_obj [OF w Some] by blast
    define n where "n = clip_quantum dev flw (clip_len dev f_pos count)"
    have qpos: "0 < ?q" and qo: "?q \<le> objsz"
      using g by (auto simp: geom_ok_def unat_gt_0 word_neq_0_conv)
    then have offq: "offset_p flw \<le> quantum_len dev"
      using off by (simp add: word_le_nat_alt less_imp_le)
    have n: "unat n = min (min (unat count) (unat (dev_len dev) - ?p)) (?q - ?p mod ?q)"
      unfolding n_def unat_clip_quantum [OF offq] unat_clip_len [OF args lt(1)] off ..
    then have fits: "?p mod ?q + unat n \<le> ?q" using mod_add_min_le [OF qpos, of ?p] by presburger
    have bk: "dev_byte dev (slab h) ?p \<noteq> None"
      using dev_byte_backed [OF g w, of ?p] pl Some by simp
    have "map Some (sub_block (?p mod ?q) (unat n) b) = map (dev_byte dev (slab h)) [?p ..< ?p + unat n]"
      using dev_byte_run [OF g w _ b(1) fits] pl Some by simp
    then have "map the (map Some (sub_block (?p mod ?q) (unat n) b))
        = map the (map (dev_byte dev (slab h)) [?p ..< ?p + unat n])" by simp
    then have out: "sub_block (?p mod ?q) (unat n) b = out"
      using bk False by (auto simp: out_def spec_read_def n comp_def)
    have "length (sub_block (?p mod ?q) (unat n) b) = unat n" using fits qo b(2) by simp
    then have "length out = unat n" by (simp only: out)
    moreover have "unat n < 2 ^ 63" using n args by (simp add: rw_args_ok_def min_less_iff_disj)
    ultimately have sn: "sint n = int (length out)" "n = of_nat (length out)"
      by (simp_all add: sint_small)
    have "slab_load (slab h) a (offset_p flw) n = Inr out"
      using b fits qo by (simp add: slab_load_def off out)
    then have "read_locked k dev h count f_pos =
       (let (o', left) = k_copy_to_user k out in
        if left \<noteq> 0 then Inr (- EFAULT, o', f_pos, dev, h)
        else Inr (sint n, o', f_pos + n, dev, h))"
      using Some unfolding eq by (simp add: Let_def flip: j_def n_def)
    then show ?thesis
      using False bk c sn by (auto simp: copy_to_user_ok_def case_prod_unfold Let_def)
  qed
qed

lemma scull_read_spec:
  assumes wf: "dev_wf objsz dev (slab h)" and args: "rw_args_ok count f_pos"
    and c: "copy_to_user_ok k"
  defines "out \<equiv> spec_read (dev_byte dev (slab h)) (unat (dev_len dev)) (unat (quantum_len dev))
                  (unat count) (unat f_pos)"
  shows "scull_read k dev h count f_pos =
     (if k_mutex_lock_interruptible k \<noteq> 0 then Inr (- ERESTARTSYS, [], f_pos, dev, h)
      else if unat (dev_len dev) \<le> unat f_pos \<or> dev_byte dev (slab h) (unat f_pos) = None
      then Inr (0, [], f_pos, dev, h)
      else if snd (k_copy_to_user k out) \<noteq> 0
      then Inr (- EFAULT, fst (k_copy_to_user k out), f_pos, dev, h)
      else Inr (int (length out), out, f_pos + of_nat (length out), dev, h))"
proof (cases "k_mutex_lock_interruptible k = 0")
  case False
  then show ?thesis by (simp add: scull_read_def mutex_lock_interruptible_sparse_def)
next
  case True
  define m where "m = acquire_ctx (mutex_init\<lparr>held := True\<rparr>)"
  let ?dev = "dev\<lparr>dev_lock := m\<rparr>"
  have g: "geom_ok objsz ?dev" and w: "store_wf objsz ?dev (slab h)" and free: "dev_lock dev = mutex_init"
    using wf by (simp_all add: dev_wf_def)
  have lk: "mutex_lock_interruptible_sparse (k_mutex_lock_interruptible k) (dev_lock dev) = Inr (0, m)"
    using True free by (simp add: m_def mutex_defs)
  have h: "held (dev_lock ?dev)" by (simp add: m_def mutex_defs)
  have out: "scull_out ?dev = Inr dev"
    using scull_out_ok [OF w] free by (simp add: m_def)
  show ?thesis
    using True out unfolding scull_read_def lk
    by (simp add: read_locked_spec [OF g w h args c] out_def)
qed

section \<open>Writing\<close>

lemma dev_ext_refl [simp]: "dev_ext dev s dev s"
  by (simp add: dev_ext_def)

lemma dev_ext_slab: "dev_ext dev s dev' s' \<Longrightarrow> s a = Some b \<Longrightarrow> s' a = Some b"
  unfolding dev_ext_def by (metis domI)

lemma dev_ext_old: "dev_ext dev s dev' s' \<Longrightarrow> quantum_at dev ij = Some a \<Longrightarrow> quantum_at dev' ij = Some a"
  unfolding dev_ext_def by blast

lemma dev_ext_new:
  "dev_ext dev s dev' s' \<Longrightarrow> quantum_at dev' ij = Some a \<Longrightarrow> quantum_at dev ij = Some a \<or> a \<notin> dom s"
  unfolding dev_ext_def by blast

lemma dev_ext_trans:
  assumes "dev_ext dev s dev' s'" and "dev_ext dev' s' dev'' s''"
  shows "dev_ext dev s dev'' s''"
proof -
  have "\<forall>ij a. quantum_at dev ij = Some a \<longrightarrow> quantum_at dev'' ij = Some a"
    using assms by (simp add: dev_ext_old)
  moreover have "\<forall>ij a. quantum_at dev'' ij = Some a \<longrightarrow> quantum_at dev ij = Some a \<or> a \<notin> dom s"
    using dev_ext_new [OF assms(2)] dev_ext_new [OF assms(1)] dev_ext_slab [OF assms(1)]
    by (metis domD domI)
  moreover have "\<forall>a \<in> dom s. s'' a = s a"
    using assms by (auto dest: dev_ext_slab)
  ultimately show ?thesis
    using assms unfolding dev_ext_def by (simp del: split_paired_All)
qed

lemma dev_ext_geom: "dev_ext dev s dev' s' \<Longrightarrow> geom dev' = geom dev \<and> geom_ok objsz dev' = geom_ok objsz dev"
  by (simp add: dev_ext_def geom_def geom_ok_def)

lemma dev_byte_Some:
  "dev_byte dev s p = Some v \<longleftrightarrow>
     (\<exists>a b. quantum_at dev (fst (scull_place (geom dev) p)) = Some a \<and> s a = Some b \<and>
        snd (scull_place (geom dev) p) < length b \<and> v = b ! snd (scull_place (geom dev) p))"
  by (auto simp: dev_byte_def case_prod_unfold Let_def split: option.splits if_splits)

lemma dev_ext_byte:
  assumes "dev_ext dev s dev' s'" and "dev_byte dev s p = Some v"
  shows "dev_byte dev' s' p = Some v"
proof -
  have "geom dev' = geom dev" using assms(1) by (simp add: dev_ext_def geom_def)
  with assms show ?thesis
    unfolding dev_byte_Some by (metis dev_ext_old dev_ext_slab)
qed

lemma dev_ext_append:
  "dev_ext dev s (dev\<lparr>qset := qset dev @ replicate m empty_qset\<rparr>) s"
  by (simp add: dev_ext_def)

lemma quantum_at_set_data:
  assumes "i < length (qset dev)"
  shows "quantum_at (set_data dev i d) ij =
    (if fst ij = i then (if snd ij < length d then d ! snd ij else None) else quantum_at dev ij)"
  using assms by (auto simp: quantum_at_def set_data_def nth_list_update)

lemma set_data_simps [simp]:
  "quantum_len (set_data dev i d) = quantum_len dev" "qset_len (set_data dev i d) = qset_len dev"
  "dev_len (set_data dev i d) = dev_len dev" "access_key (set_data dev i d) = access_key dev"
  "dev_lock (set_data dev i d) = dev_lock dev" "length (qset (set_data dev i d)) = length (qset dev)"
  by (simp_all add: set_data_def)

lemma set_data_arrays:
  assumes "store_wf objsz dev s" and "length d = unat (qset_len dev)"
  shows "\<forall>q \<in> set (qset (set_data dev i d)). \<forall>e. q_data q = Some e \<longrightarrow> length e = unat (qset_len dev)"
proof -
  have "\<forall>q \<in> set (qset dev). \<forall>e. q_data q = Some e \<longrightarrow> length e = unat (qset_len dev)"
    using assms(1) by (simp add: store_wf_def)
  then show ?thesis
    using assms(2) set_update_subset_insert [of "qset dev" i] by (fastforce simp: set_data_def)
qed

text \<open>Filling a slot of node \<open>i\<close> with an array that agrees with the old slots.\<close>

lemma store_wf_set_data:
  assumes w: "store_wf objsz dev s" and i: "i < length (qset dev)"
    and d: "length d = unat (qset_len dev)"
    and same: "\<And>ij. quantum_at (set_data dev i d) ij = quantum_at dev ij"
  shows "store_wf objsz (set_data dev i d) s"
  using w set_data_arrays [OF w d, of i] same
  by (simp add: store_wf_def)

lemma ensure_data_spec:
  assumes w: "store_wf objsz dev (slab h)" and i: "i < length (qset dev)"
  obtains d dev' h' where "ensure_data k dev h i = (d, dev', h')"
    "slab h' = slab h" "store_wf objsz dev' (slab h)" "dev_ext dev (slab h) dev' (slab h)"
    "\<And>e. d = Some e \<Longrightarrow> length e = unat (qset_len dev) \<and> q_data (qset dev' ! i) = Some e"
    "k_kcalloc_data k \<Longrightarrow> d \<noteq> None"
proof (cases "q_data (qset dev ! i)")
  case (Some d)
  then have "length d = unat (qset_len dev)"
    using w nth_mem [OF i] unfolding store_wf_def by blast
  with Some w show thesis by (intro that [of "Some d" dev h]) (simp_all add: ensure_data_def)
next
  case None
  let ?d = "replicate (unat (qset_len dev)) None"
  have same: "quantum_at (set_data dev i ?d) ij = quantum_at dev ij" for ij
    using None i by (cases ij) (simp add: quantum_at_set_data, simp add: quantum_at_def)
  show thesis
  proof (cases "k_kcalloc_data k")
    case True
    with None have eq: "ensure_data k dev h i =
        (Some ?d, set_data dev i ?d, h\<lparr>kmallocs := kmallocs h + 1\<rparr>)"
      by (simp add: ensure_data_def Let_def)
    have "q_data (qset (set_data dev i ?d) ! i) = Some ?d"
      using i by (simp add: set_data_def)
    with same store_wf_set_data [OF w i _ same] show thesis
      by (intro that [OF eq]) (auto simp: dev_ext_def)
  next
    case False
    with None w show thesis
      by (intro that [of None dev h]) (simp_all add: ensure_data_def)
  qed
qed

text \<open>Putting a fresh object into an empty slot.\<close>

lemma fresh_quantum:
  assumes w: "store_wf objsz dev s" and i: "i < length (qset dev)"
    and d: "q_data (qset dev ! i) = Some d" "length d = unat (qset_len dev)" "j < length d" "d ! j = None"
    and fresh: "a \<notin> dom s" "length b = objsz"
  defines "dev' \<equiv> set_data dev i (d[j := Some a])"
  shows "quantum_at dev' = (quantum_at dev)((i, j) \<mapsto> a)"
    and "store_wf objsz dev' (s(a \<mapsto> b))" and "dev_ext dev s dev' (s(a \<mapsto> b))"
proof -
  show q: "quantum_at dev' = (quantum_at dev)((i, j) \<mapsto> a)"
    using i d by (auto simp: fun_eq_iff dev'_def quantum_at_set_data nth_list_update,
        auto simp: quantum_at_def)
  have none: "quantum_at dev (i, j) = None" using i d by (simp add: quantum_at_def)
  have live: "c \<noteq> a" if "quantum_at dev ij = Some c" for ij c
    using store_wf_obj [OF w that] fresh(1) by auto
  show "dev_ext dev s dev' (s(a \<mapsto> b))"
    unfolding dev_ext_def using none fresh(1) by (auto simp: q, simp_all add: dev'_def)
  have "\<forall>ij c. quantum_at dev' ij = Some c \<longrightarrow> (\<exists>b'. (s(a \<mapsto> b)) c = Some b' \<and> length b' = objsz)"
    using store_wf_obj [OF w] fresh(2) by (auto simp: q)
  moreover have "\<forall>ij ij' c. quantum_at dev' ij = Some c \<longrightarrow> quantum_at dev' ij' = Some c \<longrightarrow> ij = ij'"
    unfolding q using store_wf_inj [OF w] live by (metis fun_upd_apply option.inject)
  moreover have "\<forall>q \<in> set (qset dev'). \<forall>e. q_data q = Some e \<longrightarrow> length e = unat (qset_len dev)"
    unfolding dev'_def using d(2) by (intro set_data_arrays [OF w]) simp
  ultimately show "store_wf objsz dev' (s(a \<mapsto> b))"
    using w unfolding store_wf_def by (simp add: dev'_def del: split_paired_All)
qed

lemma ensure_quantum_spec:
  assumes w: "store_wf objsz dev (slab h)" and i: "i < length (qset dev)"
    and d: "q_data (qset dev ! i) = Some d" "length d = unat (qset_len dev)" "j < length d"
    and al: "slab_alloc_ok objsz k"
  obtains qa dev' h' where "ensure_quantum k dev h i d j = Inr (qa, dev', h')"
    "store_wf objsz dev' (slab h')" "dev_ext dev (slab h) dev' (slab h')"
    "\<And>a. qa = Some a \<Longrightarrow> quantum_at dev' (i, j) = Some a"
    "k_kmem_cache_alloc k (slab h) \<noteq> None \<Longrightarrow> qa \<noteq> None"
proof (cases "d ! j")
  case (Some a)
  with i d have "quantum_at dev (i, j) = Some a" by (simp add: quantum_at_def)
  with Some d w show thesis by (intro that [of "Some a" dev h]) (simp_all add: ensure_quantum_def)
next
  case None
  show thesis
  proof (cases "k_kmem_cache_alloc k (slab h)")
    case None
    with \<open>d ! j = None\<close> d w show thesis
      by (intro that [of None dev h]) (auto simp: ensure_quantum_def)
  next
    case (Some ab)
    then obtain a b where ab: "k_kmem_cache_alloc k (slab h) = Some (a, b)" by (cases ab) simp
    with al have "a \<notin> dom (slab h)" "length b = objsz" by (simp_all add: slab_alloc_ok_def)
    note fq = fresh_quantum [OF w i d None this]
    have "ensure_quantum k dev h i d j =
        Inr (Some a, set_data dev i (d[j := Some a]), h\<lparr>slab := (slab h)(a \<mapsto> b)\<rparr>)"
      using ab None d(3) by (simp add: ensure_quantum_def)
    with fq show thesis by (intro that) auto
  qed
qed

text \<open>
  The allocation phase of a write. Whatever fails, storage was only added and the invariant
  holds; when a quantum is returned it is the one that backs the position.
\<close>

lemma write_quantum_spec:
  assumes g: "geom_ok objsz dev" and w: "store_wf objsz dev (slab h)"
    and l: "held (dev_lock dev)" and al: "slab_alloc_ok objsz k"
  obtains flw qa dev' h' where "write_quantum k dev h f_pos = Inr (flw, qa, dev', h')"
    "store_wf objsz dev' (slab h')" "dev_ext dev (slab h) dev' (slab h')"
    "unat (offset_p flw) = unat f_pos mod unat (quantum_len dev)"
    "\<And>a. qa = Some a \<Longrightarrow> quantum_at dev' (fst (scull_place (geom dev) (unat f_pos))) = Some a"
    "(\<forall>x. k_kcalloc_qset k x) \<and> k_kcalloc_data k \<and> k_kmem_cache_alloc k (slab h) \<noteq> None \<Longrightarrow> qa \<noteq> None"
proof -
  let ?p = "unat f_pos"
  obtain flw r m where f:
    "scull_follow k dev h f_pos = Inr (flw, r, dev\<lparr>qset := qset dev @ replicate m empty_qset\<rparr>,
            h\<lparr>kmallocs := kmallocs h + int m\<rparr>)" (is "_ = Inr (_, _, ?dev1, ?h1)")
    and pl: "((unat (qset_p flw), unat (quantum_p flw)), unat (offset_p flw)) = scull_place (geom dev) ?p"
    and r: "\<And>i. r = Some i \<Longrightarrow> i = unat (qset_p flw) \<and> i < length (qset dev) + m"
    and rn: "(\<forall>x. k_kcalloc_qset k x) \<Longrightarrow> r \<noteq> None"
    by (rule scull_follow_spec [OF g l, of k h f_pos]) blast
  have off: "unat (offset_p flw) = ?p mod unat (quantum_len dev)"
    using place_slot(2) [OF g, of ?p] by (simp flip: pl)
  have w1: "store_wf objsz ?dev1 (slab ?h1)" using store_wf_append [OF w] by simp
  have e1: "dev_ext dev (slab h) ?dev1 (slab ?h1)" using dev_ext_append by simp
  show thesis
  proof (cases r)
    case None
    with f w1 e1 off rn show thesis
      by (intro that [of flw None ?dev1 ?h1]) (simp_all add: write_quantum_def)
  next
    case (Some i)
    with r have i: "i < length (qset ?dev1)" "i = unat (qset_p flw)" by simp_all
    obtain d dev2 h2 where ed: "ensure_data k ?dev1 ?h1 i = (d, dev2, h2)"
      and h2: "slab h2 = slab ?h1" and w2: "store_wf objsz dev2 (slab ?h1)"
      and e2: "dev_ext ?dev1 (slab ?h1) dev2 (slab ?h1)"
      and d: "\<And>e. d = Some e \<Longrightarrow> length e = unat (qset_len ?dev1) \<and> q_data (qset dev2 ! i) = Some e"
      and dn: "k_kcalloc_data k \<Longrightarrow> d \<noteq> None"
      by (rule ensure_data_spec [OF w1 i(1), of k]) blast
    show thesis
    proof (cases d)
      case None
      with f Some ed w2 h2 off dn dev_ext_trans [OF e1 e2] show thesis
        by (intro that [of flw None dev2 h2]) (simp_all add: write_quantum_def)
    next
      case (Some e)
      let ?j = "unat (quantum_p flw)"
      have len: "qset_len dev2 = qset_len dev" "length (qset ?dev1) \<le> length (qset dev2)"
        using e2 by (simp_all add: dev_ext_def)
      have j: "?j < length e" "length e = unat (qset_len dev2)" "q_data (qset dev2 ! i) = Some e"
        using d [OF Some] place_slot(1) [OF g, of ?p] len by (simp_all flip: pl)
      have w2': "store_wf objsz dev2 (slab h2)" and i2: "i < length (qset dev2)"
        using w2 h2 i len by simp_all
      obtain qa dev3 h3 where eq: "ensure_quantum k dev2 h2 i e ?j = Inr (qa, dev3, h3)"
        and w3: "store_wf objsz dev3 (slab h3)" and e3: "dev_ext dev2 (slab h2) dev3 (slab h3)"
        and qa: "\<And>a. qa = Some a \<Longrightarrow> quantum_at dev3 (i, ?j) = Some a"
        and qn: "k_kmem_cache_alloc k (slab h2) \<noteq> None \<Longrightarrow> qa \<noteq> None"
        by (rule ensure_quantum_spec [OF w2' i2 j(3,2,1) al]) blast
      have "write_quantum k dev h f_pos = Inr (flw, qa, dev3, h3)"
        using f \<open>r = Some i\<close> ed Some eq by (simp add: write_quantum_def)
      moreover have "dev_ext dev (slab h) dev3 (slab h3)"
        using dev_ext_trans [OF dev_ext_trans [OF e1 e2]] e3 h2 by simp
      moreover have "(i, ?j) = fst (scull_place (geom dev) ?p)" using i by (simp flip: pl)
      ultimately show thesis
        using w3 off qa qn h2 by (intro that [of flw qa dev3 h3]) auto
    qed
  qed
qed

lemma dev_byte_store:
  assumes g: "geom_ok objsz dev" and w: "store_wf objsz dev s"
    and a: "quantum_at dev (fst (scull_place (geom dev) p)) = Some a" and b: "s a = Some b"
    and fits: "p mod unat (quantum_len dev) + length bs \<le> unat (quantum_len dev)"
  shows "dev_byte dev (s(a \<mapsto> blit b (p mod unat (quantum_len dev)) bs)) x =
    (if p \<le> x \<and> x < p + length bs then Some (bs ! (x - p)) else dev_byte dev s x)"
proof -
  let ?q = "unat (quantum_len dev)" and ?pl = "scull_place (geom dev)"
  have off: "snd (?pl p) = p mod ?q" by (rule place_slot(2) [OF g])
  have lb: "?q \<le> length b" using store_wf_obj [OF w a] b g by (auto simp: geom_ok_def)
  have ox: "snd (?pl x) < ?q"
    using sa.offset_bound [OF geom_place_ok [OF g], of x] by (simp add: geom_def)
  have run: "fst (?pl x) = fst (?pl p) \<and> p mod ?q \<le> snd (?pl x) \<and> snd (?pl x) < p mod ?q + length bs
         \<longleftrightarrow> p \<le> x \<and> x < p + length bs"
    using sa.run_iff [OF geom_place_ok [OF g], of p "length bs" x] fits off by (simp add: geom_def)
  show ?thesis
  proof (cases "fst (?pl x) = fst (?pl p)")
    case True
    have eq: "dev_byte dev (s(a \<mapsto> c)) x = Some (c ! snd (?pl x))" if "length c = length b" for c
      using that True a ox lb by (simp add: dev_byte_def case_prod_unfold Let_def)
    have idx: "snd (?pl x) - p mod ?q = x - p" if "p \<le> x \<and> x < p + length bs"
    proof -
      define m where "m = x - p"
      with that have m: "x = p + m" "m < length bs" by auto
      have "?pl (p + m) = (fst (?pl p), snd (?pl p) + m)"
        using m fits off by (intro sa.place_run [OF geom_place_ok [OF g]]) (simp add: geom_def)
      with m off show ?thesis by simp
    qed
    have new: "dev_byte dev (s(a \<mapsto> blit b (p mod ?q) bs)) x = Some (blit b (p mod ?q) bs ! snd (?pl x))"
      using fits lb by (intro eq) simp
    have "s(a \<mapsto> b) = s" using b by (rule fun_upd_idem)
    then have old: "dev_byte dev s x = Some (b ! snd (?pl x))" using eq [of b] by simp
    have "blit b (p mod ?q) bs ! snd (?pl x) =
        (if p \<le> x \<and> x < p + length bs then bs ! (snd (?pl x) - p mod ?q) else b ! snd (?pl x))"
      using nth_blit [of "p mod ?q" bs b "snd (?pl x)"] fits lb ox True run by simp
    then show ?thesis using idx unfolding new old by simp
  next
    case False
    then have "quantum_at dev (fst (?pl x)) \<noteq> Some a" using store_wf_inj [OF w a] by metis
    moreover from False run have "\<not> (p \<le> x \<and> x < p + length bs)" by blast
    moreover from calculation(1)
    have "dev_byte dev (s(a \<mapsto> blit b (p mod ?q) bs)) x = dev_byte dev s x"
      by (simp add: dev_byte_def case_prod_unfold Let_def split: option.split)
    ultimately show ?thesis by auto
  qed
qed

lemma store_wf_store:
  assumes "store_wf objsz dev s" and "s a = Some b" and "length c = length b"
  shows "store_wf objsz dev (s(a \<mapsto> c))"
proof -
  have "\<forall>ij e. quantum_at dev ij = Some e \<longrightarrow> (\<exists>b'. (s(a \<mapsto> c)) e = Some b' \<and> length b' = objsz)"
    using store_wf_obj [OF assms(1)] assms(2,3) by fastforce
  then show ?thesis
    using assms(1) unfolding store_wf_def by (simp del: split_paired_All)
qed

lemma place_end:
  assumes "geom_ok objsz dev" and "quantum_at dev (fst (scull_place (geom dev) p)) = Some a"
    and "p mod unat (quantum_len dev) + n \<le> unat (quantum_len dev)"
  shows "p + n \<le> length (qset dev) * (unat (quantum_len dev) * unat (qset_len dev))"
proof -
  let ?t = "unat (quantum_len dev) * unat (qset_len dev)" and ?x = "p + (n - 1)"
  have "0 < ?t" using assms(1) by (auto simp: geom_ok_def unat_gt_0 word_neq_0_conv)
  have lt: "p div ?t < length (qset dev)"
    using assms(2) by (auto simp: quantum_at_def scull_place_def geom_def Let_def split: if_splits)
  have "0 < unat (quantum_len dev)" using \<open>0 < ?t\<close> by simp
  then have "p mod unat (quantum_len dev) + (n - 1) < unat (quantum_len dev)"
    using assms(3) mod_less_divisor [of "unat (quantum_len dev)" p] by linarith
  then have "fst (scull_place (geom dev) ?x) = fst (scull_place (geom dev) p)"
    using sa.place_run [OF geom_place_ok [OF assms(1)], of p "n - 1"] place_slot(2) [OF assms(1), of p]
    by (simp add: geom_def)
  then have "?x div ?t = p div ?t" by (simp add: scull_place_def geom_def Let_def)
  with lt have "?x div ?t < length (qset dev)" by simp
  then have "?x < length (qset dev) * ?t"
    by (simp only: div_less_iff_less_mult [OF \<open>0 < ?t\<close>])
  then show ?thesis by linarith
qed

text \<open>
  The copy into the quantum, after the allocation phase. \<open>bs\<close> is what the user copy put there.
\<close>

lemma spec_write_store:
  assumes g: "geom_ok objsz dev" and w: "store_wf objsz dev' s'" and e: "dev_ext dev s dev' s'"
    and a: "quantum_at dev' (fst (scull_place (geom dev) p)) = Some a" and b: "s' a = Some b"
    and fits: "p mod unat (quantum_len dev) + length bs \<le> unat (quantum_len dev)"
  shows "spec_write (dev_byte dev s) p bs
           (dev_byte dev' (s'(a \<mapsto> blit b (p mod unat (quantum_len dev)) bs)))"
proof -
  have q: "quantum_len dev' = quantum_len dev" and gm: "geom dev' = geom dev" "geom_ok objsz dev'"
    using e g dev_ext_geom [OF e, of objsz] by (simp_all add: dev_ext_def)
  note st = dev_byte_store [OF gm(2) w a [folded gm(1)] b fits [folded q], unfolded q]
  show ?thesis
    using dev_ext_byte [OF e] by (auto simp: spec_write_def st)
qed

lemma write_locked_spec:
  assumes g: "geom_ok objsz dev" and w: "store_wf objsz dev (slab h)"
    and l: "held (dev_lock dev)" and al: "slab_alloc_ok objsz k" and c: "copy_from_user_ok k"
    and args: "rw_args_ok count f_pos" and buf: "unat count \<le> length buf"
  obtains ret f_pos' dev' h' where "write_locked k dev h buf count f_pos = Inr (ret, f_pos', dev', h')"
    "store_wf objsz dev' (slab h')" "geom_ok objsz dev'" "dev_lock dev' = dev_lock dev"
    "\<forall>a \<in> dom (slab h) - owned dev. slab h' a = slab h a"
    "owned dev' \<subseteq> owned dev \<union> - dom (slab h)"
    "write_outcome dev (slab h) buf count f_pos ret f_pos' dev' (slab h')"
    "(\<forall>x. k_kcalloc_qset k x) \<and> k_kcalloc_data k \<and> k_kmem_cache_alloc k (slab h) \<noteq> None \<and>
       (\<forall>src n. snd (k_copy_from_user k src n) = 0) \<Longrightarrow> 0 \<le> ret"
proof -
  let ?p = "unat f_pos" and ?q = "unat (quantum_len dev)" and ?n = "write_len dev count f_pos"
  obtain flw qa dev1 h1 where wq: "write_quantum k dev h f_pos = Inr (flw, qa, dev1, h1)"
    and w1: "store_wf objsz dev1 (slab h1)" and e1: "dev_ext dev (slab h) dev1 (slab h1)"
    and off: "unat (offset_p flw) = ?p mod ?q"
    and qa: "\<And>a. qa = Some a \<Longrightarrow> quantum_at dev1 (fst (scull_place (geom dev) ?p)) = Some a"
    and qn: "(\<forall>x. k_kcalloc_qset k x) \<and> k_kcalloc_data k \<and> k_kmem_cache_alloc k (slab h) \<noteq> None \<Longrightarrow> qa \<noteq> None"
    by (rule write_quantum_spec [OF g w l al, of f_pos]) blast
  have g1: "geom_ok objsz dev1" and lk: "dev_lock dev1 = dev_lock dev"
    and len1: "dev_len dev1 = dev_len dev" and q1: "quantum_len dev1 = quantum_len dev"
    using e1 g dev_ext_geom [OF e1, of objsz] by (simp_all add: dev_ext_def)
  have own: "owned dev1 \<subseteq> owned dev \<union> - dom (slab h)"
    unfolding owned_def using dev_ext_new [OF e1] by blast
  show thesis
  proof (cases qa)
    case None
    with wq have "write_locked k dev h buf count f_pos = Inr (- ENOMEM, f_pos, dev1, h1)"
      by (simp add: write_locked_def)
    then show thesis
      by (rule that [OF _ w1 g1 lk _ own])
        (use e1 qn None in \<open>auto simp: write_outcome_def Let_def dest: dev_ext_slab\<close>)
  next
    case (Some a)
    define n where "n = clip_quantum dev1 flw count"
    obtain bs left where cp: "k_copy_from_user k buf n = (bs, left)" by (cases "k_copy_from_user k buf n")
    have qpos: "0 < ?q" and qo: "?q \<le> objsz"
      using g by (auto simp: geom_ok_def unat_gt_0 word_neq_0_conv)
    then have "offset_p flw \<le> quantum_len dev1"
      using off q1 by (simp add: word_le_nat_alt less_imp_le)
    then have n: "unat n = ?n"
      unfolding n_def write_len_def by (simp add: unat_clip_quantum off q1)
    then have nb: "unat n \<le> length buf" and n63: "unat n < 2 ^ 63" and npos: "?p + unat n < 2 ^ 64"
      using buf args by (auto simp: write_len_def rw_args_ok_def)
    then have bs: "length bs = ?n" "left = 0 \<Longrightarrow> bs = take ?n buf"
      using c [unfolded copy_from_user_ok_def, THEN spec [of _ buf], THEN spec [of _ n]] cp n
      by simp_all
    have fits: "?p mod ?q + length bs \<le> ?q"
      using mod_add_min_le [OF qpos, of ?p "unat count"] by (simp add: bs write_len_def)
    obtain b where b: "slab h1 a = Some b" "length b = objsz"
      using store_wf_obj [OF w1 qa [OF Some]] by blast
    define h2 where "h2 = h1\<lparr>slab := (slab h1)(a \<mapsto> blit b (?p mod ?q) bs)\<rparr>"
    have st: "slab_store (slab h1) a (offset_p flw) bs = Inr (slab h2)"
      using b fits qo off by (simp add: slab_store_def h2_def)
    have w2: "store_wf objsz dev1 (slab h2)"
      using store_wf_store [OF w1 b(1)] fits qo b(2) by (simp add: h2_def)
    have sw: "spec_write (dev_byte dev (slab h)) ?p bs (dev_byte dev1 (slab h2))"
      using spec_write_store [OF g w1 e1 qa [OF Some] b(1) fits] by (simp add: h2_def)
    have "a \<in> owned dev1" unfolding owned_def using qa [OF Some] by blast
    with own have fr: "\<forall>x \<in> dom (slab h) - owned dev. slab h2 x = slab h x"
      using dev_ext_slab [OF e1] by (auto simp: h2_def)
    let ?f = "f_pos + n" and ?d = "if dev_len dev1 < f_pos + n then dev1\<lparr>dev_len := f_pos + n\<rparr> else dev1"
    have eq: "write_locked k dev h buf count f_pos =
        (if left \<noteq> 0 then Inr (- EFAULT, f_pos, dev1, h2) else Inr (sint n, ?f, ?d, h2))"
      using wq Some cp st by (simp add: write_locked_def h2_def Let_def flip: n_def)
    show thesis
    proof (cases "left = 0")
      case False
      with eq have "write_locked k dev h buf count f_pos = Inr (- EFAULT, f_pos, dev1, h2)" by simp
      then show thesis
        by (rule that [OF _ w2 g1 lk fr own]) (use False cp sw bs(1) len1 dev_ext_geom [OF e1] in
            \<open>auto simp: write_outcome_def Let_def, metis snd_conv\<close>)
    next
      case True
      have uf: "unat ?f = ?p + unat n" using npos by (simp add: unat_word_ariths)
      have "?p + unat n \<le> length (qset dev1) * (unat (quantum_len dev1) * unat (qset_len dev1))"
        using place_end [OF g1, of ?p a "unat n"] qa [OF Some] fits dev_ext_geom [OF e1] bs(1) n q1 by simp
      then have w3: "store_wf objsz ?d (slab h2)" using w2 uf by (simp add: store_wf_def)
      from True eq have "write_locked k dev h buf count f_pos = Inr (int ?n, ?f, ?d, h2)"
        using sint_small [OF n63] n by simp
      then show thesis
      proof (rule that [OF _ w3])
        show "geom_ok objsz ?d" "dev_lock ?d = dev_lock dev" using g1 lk by simp_all
        show "owned ?d \<subseteq> owned dev \<union> - dom (slab h)" using own by (simp add: owned_def)
        have "of_nat ?n = n" by (simp flip: n)
        moreover have "dev_len ?d = max (dev_len dev) ?f" using len1 by (auto simp: max_def)
        ultimately show "write_outcome dev (slab h) buf count f_pos (int ?n) ?f ?d (slab h2)"
          using sw bs(2) [OF True] dev_ext_geom [OF e1] by (simp add: write_outcome_def Let_def)
      qed (use fr in simp_all)
    qed
  qed
qed

lemma scull_write_spec:
  assumes wf: "dev_wf objsz dev (slab h)" and al: "slab_alloc_ok objsz k"
    and c: "copy_from_user_ok k" and args: "rw_args_ok count f_pos" and buf: "unat count \<le> length buf"
    and lk: "k_mutex_lock_interruptible k = 0"
  obtains ret f_pos' dev' h' where "scull_write k dev h buf count f_pos = Inr (ret, f_pos', dev', h')"
    "dev_wf objsz dev' (slab h')"
    "\<forall>a \<in> dom (slab h) - owned dev. slab h' a = slab h a"
    "owned dev' \<subseteq> owned dev \<union> - dom (slab h)"
    "write_outcome dev (slab h) buf count f_pos ret f_pos' dev' (slab h')"
    "(\<forall>x. k_kcalloc_qset k x) \<and> k_kcalloc_data k \<and> k_kmem_cache_alloc k (slab h) \<noteq> None \<and>
       (\<forall>src n. snd (k_copy_from_user k src n) = 0) \<Longrightarrow> 0 \<le> ret"
proof -
  define m where "m = acquire_ctx (mutex_init\<lparr>held := True\<rparr>)"
  let ?dev = "dev\<lparr>dev_lock := m\<rparr>"
  have g: "geom_ok objsz ?dev" and w: "store_wf objsz ?dev (slab h)" and free: "dev_lock dev = mutex_init"
    using wf by (simp_all add: dev_wf_def)
  have ml: "mutex_lock_interruptible_sparse (k_mutex_lock_interruptible k) (dev_lock dev) = Inr (0, m)"
    using lk free by (simp add: m_def mutex_defs)
  have hl: "held (dev_lock ?dev)" by (simp add: m_def mutex_defs)
  obtain ret f_pos' dev' h' where wl: "write_locked k ?dev h buf count f_pos = Inr (ret, f_pos', dev', h')"
    and w': "store_wf objsz dev' (slab h')" "geom_ok objsz dev'" "dev_lock dev' = m"
    and fr: "\<forall>a \<in> dom (slab h) - owned ?dev. slab h' a = slab h a"
    and own: "owned dev' \<subseteq> owned ?dev \<union> - dom (slab h)"
    and oc: "write_outcome ?dev (slab h) buf count f_pos ret f_pos' dev' (slab h')"
    and pos: "(\<forall>x. k_kcalloc_qset k x) \<and> k_kcalloc_data k \<and> k_kmem_cache_alloc k (slab h) \<noteq> None \<and>
       (\<forall>src n. snd (k_copy_from_user k src n) = 0) \<Longrightarrow> 0 \<le> ret"
    by (rule write_locked_spec [OF g w hl al c args buf]) simp
  have "scull_out dev' = Inr (dev'\<lparr>dev_lock := mutex_init\<rparr>)"
    using scull_out_ok [OF w'(1)] w'(3) by (simp add: m_def)
  with wl have eq: "scull_write k dev h buf count f_pos =
      Inr (ret, f_pos', dev'\<lparr>dev_lock := mutex_init\<rparr>, h')"
    unfolding scull_write_def ml by simp
  show thesis
  proof (rule that [OF eq])
    show "dev_wf objsz (dev'\<lparr>dev_lock := mutex_init\<rparr>) (slab h')" using w' by (simp add: dev_wf_def)
    show "write_outcome dev (slab h) buf count f_pos ret f_pos' (dev'\<lparr>dev_lock := mutex_init\<rparr>) (slab h')"
      using oc free by (auto simp: write_outcome_def Let_def write_len_def dev_ext_def)
  qed (use fr own pos in \<open>simp_all add: owned_def\<close>)
qed

section \<open>Trimming and opening\<close>

text \<open>Slots that a trim does not hand to the slab cache: the last one of every array.\<close>

definition last_slots :: "scull_dev \<Rightarrow> ptr set" where
  "last_slots dev = {a. \<exists>i. quantum_at dev (i, unat (qset_len dev) - 1) = Some a}"

lemma trim_qsets_slab:
  assumes "free_bulk_ok k" and "0 < n"
    and "\<forall>q \<in> set qs. \<forall>d. q_data q = Some d \<longrightarrow> length d = unat n"
  shows "slab (trim_qsets k n qs h) = slab h |`
    (- {a. \<exists>q \<in> set qs. \<exists>d. q_data q = Some d \<and> Some a \<in> set (take (unat n - 1) d)})"
  using assms(3)
proof (induction qs arbitrary: h)
  case Nil
  then show ?case by simp
next
  case (Cons q qs)
  have n: "unat (n - 1) = unat n - 1"
    using assms(2) by (simp add: unat_minus_one word_neq_0_conv)
  show ?case
  proof (cases "q_data q")
    case None
    with Cons show ?thesis by simp
  next
    case (Some d)
    with Cons.prems n have "k_kmem_cache_free_bulk k (n - 1) d (slab h) =
        slab h |` (- {a. Some a \<in> set (take (unat n - 1) d)})"
      using assms(1) by (simp add: free_bulk_ok_def)
    with Some Cons show ?thesis
      by (simp add: Int_commute) (rule arg_cong [where f = "\<lambda>X. slab h |` X"], blast)
  qed
qed

lemma trim_qsets_kmallocs:
  "kmallocs (trim_qsets k n qs h) = kmallocs h -
     (\<Sum>q \<leftarrow> qs. if q_data q = None then 1 else 2)"
  by (induction k n qs h rule: trim_qsets.induct) (auto split: option.splits)

lemma quantum_at_SomeD:
  assumes "store_wf objsz dev s" and "quantum_at dev (i, j) = Some a"
  obtains d where "i < length (qset dev)" "q_data (qset dev ! i) = Some d" "d ! j = Some a"
    "length d = unat (qset_len dev)" "j < unat (qset_len dev)"
proof -
  from assms(2) obtain d where d: "i < length (qset dev)" "q_data (qset dev ! i) = Some d"
    "d ! j = Some a" "j < length d"
    by (auto simp: quantum_at_def split: if_splits option.splits)
  moreover from d have "length d = unat (qset_len dev)"
    using assms(1) nth_mem unfolding store_wf_def by blast
  ultimately show thesis using that by simp
qed

lemma trimmed_slots:
  assumes w: "store_wf objsz dev s"
  shows "{a. \<exists>q \<in> set (qset dev). \<exists>d. q_data q = Some d \<and> Some a \<in> set (take (unat (qset_len dev) - 1) d)}
    = owned dev - last_slots dev" (is "?L = _")
proof (intro set_eqI iffI)
  let ?n = "unat (qset_len dev)"
  fix a
  assume "a \<in> ?L"
  then obtain q d where q: "q \<in> set (qset dev)" "q_data q = Some d" "Some a \<in> set (take (?n - 1) d)"
    by blast
  then obtain i where i: "i < length (qset dev)" "q_data (qset dev ! i) = Some d"
    by (metis in_set_conv_nth)
  have "length d = ?n" using w q unfolding store_wf_def by blast
  with q(3) obtain j where j: "j < ?n - 1" "d ! j = Some a" by (auto simp: in_set_conv_nth)
  with i \<open>length d = ?n\<close> have qa: "quantum_at dev (i, j) = Some a" by (simp add: quantum_at_def)
  then have "(i, j) \<noteq> (i', ?n - 1)" for i' using j by simp
  with qa have "a \<notin> last_slots dev"
    unfolding last_slots_def using store_wf_inj [OF w qa] by blast
  with qa show "a \<in> owned dev - last_slots dev" unfolding owned_def by blast
next
  let ?n = "unat (qset_len dev)"
  fix a
  assume a: "a \<in> owned dev - last_slots dev"
  then obtain i j where qa: "quantum_at dev (i, j) = Some a" by (auto simp: owned_def)
  then obtain d where d: "i < length (qset dev)" "q_data (qset dev ! i) = Some d" "d ! j = Some a"
    "length d = ?n" "j < ?n"
    by (rule quantum_at_SomeD [OF w])
  have "j \<noteq> ?n - 1" using a qa by (auto simp: last_slots_def)
  with d have "Some a \<in> set (take (?n - 1) d)"
    using nth_mem [of j "take (?n - 1) d"] by simp
  with d nth_mem [OF d(1)] show "a \<in> ?L" by blast
qed

text \<open>
  What a trim leaves: an empty device with the current module parameters as its geometry. Every
  object of the device is freed except the one in the last slot of each array.
\<close>

lemma scull_trim_spec:
  assumes w: "store_wf objsz dev (slab h)" and n: "0 < qset_len dev" and l: "held (dev_lock dev)"
    and f: "free_bulk_ok k"
  obtains h' where "scull_trim k g dev h =
      Inr (dev\<lparr>dev_len := 0, quantum_len := scull_quantum g, qset_len := scull_qset g, qset := []\<rparr>, h')"
    "slab h' = slab h |` (- (owned dev - last_slots dev))"
    "kmallocs h' = kmallocs h - (\<Sum>q \<leftarrow> qset dev. if q_data q = None then 1 else 2)"
proof -
  let ?h = "trim_qsets k (qset_len dev) (qset dev) h"
  have "\<forall>q \<in> set (qset dev). \<forall>d. q_data q = Some d \<longrightarrow> length d = unat (qset_len dev)"
    using w by (simp add: store_wf_def)
  from trim_qsets_slab [OF f n this] have "slab ?h = slab h |` (- (owned dev - last_slots dev))"
    by (simp only: trimmed_slots [OF w])
  then show thesis
    using l by (intro that [of ?h]) (simp_all add: scull_trim_def lockdep_assert_held_def trim_qsets_kmallocs)
qed

lemma owned_empty [simp]: "qset dev = [] \<Longrightarrow> owned dev = {}"
  by (simp add: owned_def quantum_at_def)

lemma store_wf_empty [simp]: "qset dev = [] \<Longrightarrow> store_wf objsz dev s \<longleftrightarrow> dev_len dev = 0"
  by (simp add: store_wf_def quantum_at_def word_eq_0_unat)

end
