(* ===== verification/Kernel_Format.thy ===== *)
theory Kernel_Format
  imports Kernel_Prelude
begin

text \<open>
  The text that \<^verbatim>\<open>scnprintf\<close> and \<^verbatim>\<open>seq_printf\<close> produce for the conversions the
  drivers use, and the names below \<^verbatim>\<open>/proc\<close> with what creating and removing them does.
\<close>

section \<open>Numbers as text\<close>

definition digit_char :: "nat \<Rightarrow> char" where
  "digit_char d = char_of (if d < 10 then 48 + d else 87 + d)"

function print_base :: "nat \<Rightarrow> nat \<Rightarrow> string" where
  "print_base b n = (if b < 2 \<or> n < b then [digit_char n] else print_base b (n div b) @ [digit_char (n mod b)])"
  by auto
termination
  by (relation "measure snd") auto

declare print_base.simps [simp del]

text \<open>A minimal field width pads on the left, with blanks or with zeros.\<close>

definition pad :: "char \<Rightarrow> nat \<Rightarrow> string \<Rightarrow> string" where
  "pad c w s = replicate (w - length s) c @ s"

definition fmt_u :: "nat \<Rightarrow> nat \<Rightarrow> string" where
  "fmt_u w n = pad (CHR '' '') w (print_base 10 n)"

definition fmt_x0 :: "nat \<Rightarrow> nat \<Rightarrow> string" where
  "fmt_x0 w n = pad (CHR ''0'') w (print_base 16 n)"

definition fmt_u0 :: "nat \<Rightarrow> nat \<Rightarrow> string" where
  "fmt_u0 w n = pad (CHR ''0'') w (print_base 10 n)"

definition fmt_i :: "nat \<Rightarrow> int \<Rightarrow> string" where
  "fmt_i w i = pad (CHR '' '') w (if i < 0 then CHR ''-'' # print_base 10 (nat (- i)) else print_base 10 (nat i))"

abbreviation newline :: char where "newline \<equiv> CHR 0x0A"

lemma length_pad_ge: "w \<le> length (pad c w s)"
  by (simp add: pad_def)

lemma length_fmt_i_ge: "w \<le> length (fmt_i w i)"
  by (simp add: fmt_i_def length_pad_ge)

lemma length_print_base_le:
  assumes "n < b ^ k" and "2 \<le> b" and "0 < k"
  shows "length (print_base b n) \<le> k"
  using assms
proof (induction k arbitrary: n)
  case (Suc k)
  show ?case
  proof (cases "n < b")
    case True
    then show ?thesis by (subst print_base.simps) simp
  next
    case False
    have "n div b < b ^ k" using Suc.prems(1) by (simp add: less_mult_imp_div_less mult.commute)
    moreover have "0 < k" using False Suc.prems(1) by (cases k) auto
    ultimately have "length (print_base b (n div b)) \<le> k" using Suc.IH Suc.prems(2) by blast
    then show ?thesis using False by (subst print_base.simps) simp
  qed
qed simp

lemma length_fmt_i_le:
  assumes "\<bar>i\<bar> < 10 ^ k" and "0 < k" and "w \<le> Suc k"
  shows "length (fmt_i w i) \<le> Suc k"
proof -
  have "nat \<bar>i\<bar> < 10 ^ k" using assms(1) by (simp add: nat_less_iff)
  then have "length (print_base 10 (nat \<bar>i\<bar>)) \<le> k" using assms(2) by (intro length_print_base_le) simp_all
  then show ?thesis using assms(3) by (cases "i < 0") (simp_all add: fmt_i_def pad_def)
qed

section \<open>Files below /proc\<close>

text \<open>
  The functions that print a file of one of the modules, and what the open function of a file sets
  up: an iterator (\<^verbatim>\<open>seq_open\<close>) or a single call (\<^verbatim>\<open>single_open\<close>) with private data.
  Pointers that are used as plain numbers are numbers here.
\<close>

datatype seq_show =
    Show_scull_seq
  | Show_jit_fn | Show_jit_currenttime | Show_jit_timer | Show_jit_tasklet
  | Show_jiq_wq | Show_jiq_wq_delayed | Show_jiq_tasklet | Show_jiq_run_timer

datatype seq_opened = Seq_open seq_show | Single_open seq_show ulong

datatype seq_fn = Fn_seq_read | Fn_seq_lseek | Fn_seq_release | Fn_single_release

record proc_ops =
  proc_open :: "ulong \<Rightarrow> seq_opened"
  proc_read :: seq_fn
  proc_lseek :: seq_fn
  proc_release :: seq_fn

text \<open>
  A directory entry, with the module that created it. The open function gets the data of the entry.
  A name that is taken is refused, and removing a name removes whatever entry has it: the kernel does
  not know who asks.
\<close>

datatype proc_owner = Proc_scull | Proc_jit | Proc_jiq

record proc_entry =
  pe_owner :: proc_owner
  pe_ops :: proc_ops
  pe_data :: ulong

type_synonym proc_dir = "(string \<times> proc_entry) list"

definition proc_create :: "string \<times> proc_entry \<Rightarrow> proc_dir \<Rightarrow> proc_dir" where
  "proc_create ne d = (if fst ne \<in> fst ` set d then d else ne # d)"

definition remove_proc_entry :: "string \<Rightarrow> proc_dir \<Rightarrow> proc_dir" where
  "remove_proc_entry name d = filter (\<lambda>e. fst e \<noteq> name) d"

text \<open>Opening a file by its name.\<close>

definition proc_file :: "proc_dir \<Rightarrow> string \<Rightarrow> (proc_owner \<times> seq_opened) option" where
  "proc_file d name = map_option (\<lambda>e. (pe_owner e, proc_open (pe_ops e) (pe_data e))) (map_of d name)"

text \<open>The release function gives back what the open function set up.\<close>

definition proc_ops_ok :: "proc_ops \<Rightarrow> bool" where
  "proc_ops_ok ops \<longleftrightarrow> proc_read ops = Fn_seq_read \<and> proc_lseek ops = Fn_seq_lseek \<and>
     (\<forall>x. proc_release ops = (case proc_open ops x of Seq_open _ \<Rightarrow> Fn_seq_release | Single_open _ _ \<Rightarrow> Fn_single_release))"

lemma proc_create_names [simp]: "fst ` set (proc_create ne d) = insert (fst ne) (fst ` set d)"
  by (auto simp: proc_create_def)

lemma fold_remove_proc_entry: "fold remove_proc_entry names d = filter (\<lambda>e. fst e \<notin> set names) d"
  by (induction names arbitrary: d) (simp_all add: remove_proc_entry_def conj_commute)

lemma fold_proc_create:
  "distinct (map fst es) \<Longrightarrow> set (map fst es) \<inter> fst ` set d = {} \<Longrightarrow> fold proc_create es d = rev es @ d"
proof (induction es arbitrary: d)
  case (Cons e es)
  then have "proc_create e d = e # d" by (simp add: proc_create_def)
  then show ?case using Cons by simp
qed simp

text \<open>Created entries are found, and removing what was created restores the directory, if the names were free.\<close>

lemma proc_create_find:
  assumes "distinct (map fst es)" and "set (map fst es) \<inter> fst ` set d = {}" and "(n, e) \<in> set es"
  shows "map_of (fold proc_create es d) n = Some e"
proof -
  have "map_of (rev es) n = Some e" using assms(1,3) by (intro map_of_is_SomeI) (simp_all add: rev_map [symmetric])
  then show ?thesis by (simp add: fold_proc_create [OF assms(1,2)] map_add_find_right)
qed

lemma proc_create_remove:
  assumes "distinct (map fst es)" and "set (map fst es) \<inter> fst ` set d = {}"
  shows "fold remove_proc_entry (map fst es) (fold proc_create es d) = d"
proof -
  have "filter (\<lambda>e. fst e \<notin> set (map fst es)) d = d" using assms(2) by (intro filter_True) force
  moreover have "filter (\<lambda>e. fst e \<notin> set (map fst es)) (rev es) = []"
    by (auto simp: filter_empty_conv)
  ultimately show ?thesis unfolding fold_remove_proc_entry fold_proc_create [OF assms] by simp
qed

end
