(* ===== verification/Scull_Proc.thy ===== *)
theory Scull_Proc
  imports Scull_Dev_Correct Kernel_Format
begin

text \<open>
  The file \<^verbatim>\<open>/proc/scullmem\<close> (\<^verbatim>\<open>src/scull/proc.c\<close>): the iterator over the devices
  and the dump of a device. The text of the addresses (the kernel hashes them) is a parameter. The
  dump is shown to be the listing of a reference definition, and to run past a quantum exactly when
  the quanta are shorter than the bytes it prints.
\<close>

section \<open>The iterator\<close>

text \<open>A position is compared with the number of devices as unsigned numbers.\<close>

definition scull_seq_start :: "scull_globals \<Rightarrow> loff_t \<Rightarrow> size_t option" where
  "scull_seq_start g pos = (if pos \<ge> scull_nr_devs g then None else Some pos)"

definition scull_seq_next :: "scull_globals \<Rightarrow> loff_t \<Rightarrow> size_t option \<times> loff_t" where
  "scull_seq_next g pos =
     (let pos = pos + 1 in (if pos \<ge> scull_nr_devs g then None else Some pos, pos))"

definition scull_seq_stop :: "size_t option \<Rightarrow> unit" where
  "scull_seq_stop v = ()"

text \<open>The devices a reader gets to see after the one at \<open>pos\<close>, and from the start.\<close>

lemma seq_next_Some:
  assumes "scull_seq_next g pos = (Some v, pos')"
  shows "pos' = pos + 1 \<and> v = pos + 1 \<and> unat (pos + 1) < unat (scull_nr_devs g) \<and> (pos = - 1 \<or> unat (pos + 1) = Suc (unat pos)) \<and> pos + 1 \<noteq> - 1"
proof -
  have "pos' = pos + 1" "v = pos + 1" "\<not> pos + 1 \<ge> scull_nr_devs g"
    using assms by (auto simp: scull_seq_next_def Let_def split: if_splits)
  moreover have "pos = - 1 \<or> unat (pos + 1) = Suc (unat pos)"
    using unatSuc [of pos] by (metis add.commute add_eq_0_iff2)
  moreover have "pos + 1 \<noteq> - 1" using calculation(3) by (metis word_n1_ge)
  ultimately show ?thesis by (simp add: word_le_nat_alt not_le)
qed

function seq_rest :: "scull_globals \<Rightarrow> loff_t \<Rightarrow> size_t list" where
  "seq_rest g pos =
     (case scull_seq_next g pos of (None, _) \<Rightarrow> [] | (Some v, pos') \<Rightarrow> v # seq_rest g pos')"
  by auto
termination
  by (relation "measure (\<lambda>(g, pos). if pos = - 1 then Suc (unat (scull_nr_devs g)) else unat (scull_nr_devs g) - unat pos)")
    (auto dest!: seq_next_Some [OF sym])

definition seq_devices :: "scull_globals \<Rightarrow> size_t list" where
  "seq_devices g = (case scull_seq_start g 0 of None \<Rightarrow> [] | Some v \<Rightarrow> v # seq_rest g 0)"

section \<open>The dump of a device\<close>

definition iscntrl :: "byte \<Rightarrow> bool" where
  "iscntrl c \<longleftrightarrow> c < 32 \<or> c = 127"

definition ascii_char :: "byte \<Rightarrow> char" where
  "ascii_char c = (if iscntrl c then CHR ''.'' else char_of (unat c))"

text \<open>The loop of \<^verbatim>\<open>__scull_print_ascii\<close>; the read past the object is a fault.\<close>

function ascii_loop :: "byte list \<Rightarrow> nat \<Rightarrow> nat \<Rightarrow> string list \<Rightarrow> fault + string list" where
  "ascii_loop b i max_loop out =
     (if max_loop \<le> i then Inr out
      else if length b \<le> i then Inl OutOfBounds
      else ascii_loop b (Suc i) max_loop
             (out @ [[ascii_char (b ! i)]] @ (if (i + 1) mod 64 = 0 then [[newline]] else [])))"
  by auto
termination by (relation "measure (\<lambda>(b, i, max_loop, out). max_loop - i)") auto

definition scull_print_ascii :: "slab_map \<Rightarrow> ptr \<Rightarrow> size_t \<Rightarrow> fault + string list" where
  "scull_print_ascii s data data_len =
     (case s data of
        None \<Rightarrow> Inl NullDeref
      | Some b \<Rightarrow> bindS (ascii_loop b 0 (unat (min data_len 500)) []) (\<lambda>out. Inr (out @ [[newline]])))"

text \<open>
  The texts that the kernel prints for addresses: for the list node at an index, for its pointer
  array, for a quantum, and for the null pointer.
\<close>

record proc_addr =
  addr_item :: "nat \<Rightarrow> string"
  addr_data :: "nat \<Rightarrow> string"
  addr_quantum :: "ptr \<Rightarrow> string"
  addr_null :: string

text \<open>The inner loop, over the slots of a pointer array.\<close>

function show_slots :: "proc_addr \<Rightarrow> slab_map \<Rightarrow> scull_dev \<Rightarrow> ptr option list \<Rightarrow> nat \<Rightarrow> fault + string list" where
  "show_slots p s dev d i =
     (if unat (qset_len dev) \<le> i then Inr []
      else if length d \<le> i then Inl OutOfBounds
      else bindS (case d ! i of
                    None \<Rightarrow> Inr []
                  | Some a \<Rightarrow>
                      bindS (scull_print_ascii s a (dev_len dev)) (\<lambda>out.
                        Inr ((''    '' @ fmt_i 4 (int i) @ '': '' @ addr_quantum p a @ [newline]) # out))) (\<lambda>out.
           bindS (show_slots p s dev d (Suc i)) (\<lambda>rest. Inr (out @ rest))))"
  by auto
termination by (relation "measure (\<lambda>(p, s, dev, d, i). unat (qset_len dev) - i)") auto

text \<open>The outer loop; \<open>i\<close> is the index of the first node of the list.\<close>

fun show_qsets :: "proc_addr \<Rightarrow> slab_map \<Rightarrow> scull_dev \<Rightarrow> nat \<Rightarrow> scull_qset_t list \<Rightarrow> fault + string list" where
  "show_qsets p s dev i [] = Inr []"
| "show_qsets p s dev i (q # qs) =
     bindS (case q_data q of
              None \<Rightarrow> Inr []
            | Some d \<Rightarrow> if qs = [] then show_slots p s dev d 0 else Inr []) (\<lambda>out.
     bindS (show_qsets p s dev (Suc i) qs) (\<lambda>rest.
       Inr ((''  item at '' @ addr_item p i @ '', qset at '' @
             (if q_data q = None then addr_null p else addr_data p i) @ [newline]) # out @ rest)))"

definition show_head :: "size_t \<Rightarrow> scull_dev \<Rightarrow> string" where
  "show_head n dev = [newline] @ ''device '' @ fmt_u 0 (unat n) @ '': qset '' @ fmt_u 0 (unat (qset_len dev)) @
     '', q '' @ fmt_u 0 (unat (quantum_len dev)) @ '', sz '' @ fmt_u 0 (unat (dev_len dev)) @ [newline]"

definition scull_seq_show ::
    "proc_addr \<Rightarrow> int \<Rightarrow> size_t \<Rightarrow> scull_dev \<Rightarrow> slab_map \<Rightarrow> fault + (int \<times> string list \<times> scull_dev)" where
  "scull_seq_show p r n dev s =
     bindS (mutex_lock_interruptible_sparse r (dev_lock dev)) (\<lambda>(r, m).
       if r \<noteq> 0 then Inr (- ERESTARTSYS, [], dev)
       else let dev = dev\<lparr>dev_lock := m\<rparr> in
         bindS (show_qsets p s dev 0 (qset dev)) (\<lambda>out.
         bindS (mutex_unlock_sparse (dev_lock dev)) (\<lambda>m.
           Inr (0, show_head n dev # out, dev\<lparr>dev_lock := m\<rparr>))))"

text \<open>
  The table of the iterator has the four functions above; its printing function stands for it in the
  opened file.
\<close>

definition scullseq_proc_open :: "ulong \<Rightarrow> seq_opened" where
  "scullseq_proc_open _ = Seq_open Show_scull_seq"

definition scullseq_proc_ops :: proc_ops where
  "scullseq_proc_ops = \<lparr>proc_open = scullseq_proc_open, proc_read = Fn_seq_read, proc_lseek = Fn_seq_lseek,
     proc_release = Fn_seq_release\<rparr>"

definition scull_create_proc :: "proc_dir \<Rightarrow> proc_dir" where
  "scull_create_proc d = proc_create (''scullmem'', \<lparr>pe_owner = Proc_scull, pe_ops = scullseq_proc_ops, pe_data = 0\<rparr>) d"

definition scull_remove_proc :: "proc_dir \<Rightarrow> proc_dir" where
  "scull_remove_proc d = remove_proc_entry ''scullmem'' d"

declare seq_rest.simps [simp del]
declare ascii_loop.simps [simp del]
declare show_slots.simps [simp del]

section \<open>Reference listing\<close>

text \<open>The text of one byte, with a line break after every 64 bytes, and of a quantum.\<close>

definition byte_text :: "byte list \<Rightarrow> nat \<Rightarrow> string list" where
  "byte_text b i = [ascii_char (b ! i)] # (if (i + 1) mod 64 = 0 then [[newline]] else [])"

definition quantum_text :: "byte list \<Rightarrow> nat \<Rightarrow> string list" where
  "quantum_text b n = concat (map (byte_text b) [0..<n]) @ [[newline]]"

definition slot_text :: "proc_addr \<Rightarrow> slab_map \<Rightarrow> nat \<Rightarrow> ptr option list \<Rightarrow> nat \<Rightarrow> string list" where
  "slot_text p s n d i =
     (case d ! i of
        None \<Rightarrow> []
      | Some a \<Rightarrow> (''    '' @ fmt_i 4 (int i) @ '': '' @ addr_quantum p a @ [newline]) #
                  (case s a of None \<Rightarrow> [] | Some b \<Rightarrow> quantum_text b n))"

text \<open>A node of the list; only the quanta of the last node are listed.\<close>

definition node_text :: "proc_addr \<Rightarrow> slab_map \<Rightarrow> nat \<Rightarrow> nat \<Rightarrow> scull_qset_t \<Rightarrow> bool \<Rightarrow> string list" where
  "node_text p s n i q is_last =
     (''  item at '' @ addr_item p i @ '', qset at '' @
        (if q_data q = None then addr_null p else addr_data p i) @ [newline]) #
     (case q_data q of
        None \<Rightarrow> []
      | Some d \<Rightarrow> if is_last then concat (map (slot_text p s n d) [0..<length d]) else [])"

definition scull_dump :: "proc_addr \<Rightarrow> slab_map \<Rightarrow> nat \<Rightarrow> nat \<Rightarrow> scull_qset_t list \<Rightarrow> string list" where
  "scull_dump p s n i qs = concat (map (\<lambda>j. node_text p s n (i + j) (qs ! j) (Suc j = length qs)) [0..<length qs])"

text \<open>The quanta of the last node.\<close>

definition last_quanta :: "scull_qset_t list \<Rightarrow> ptr set" where
  "last_quanta qs = (if qs = [] then {} else case q_data (last qs) of None \<Rightarrow> {} | Some d \<Rightarrow> {a. Some a \<in> set d})"

section \<open>Lemmas\<close>

lemma ascii_loop_eq:
  "ascii_loop b i n out =
     (if n \<le> i \<or> n \<le> length b then Inr (out @ concat (map (byte_text b) [i..<n])) else Inl OutOfBounds)"
proof (induction "n - i" arbitrary: i out)
  case 0
  then show ?case by (subst ascii_loop.simps) simp
next
  case (Suc k)
  then have i: "i < n" "k = n - Suc i" by simp_all
  show ?case
  proof (cases "length b \<le> i")
    case True
    then show ?thesis using i(1) by (subst ascii_loop.simps) simp
  next
    case False
    have "ascii_loop b i n out = ascii_loop b (Suc i) n (out @ byte_text b i)"
      by (subst ascii_loop.simps) (use i(1) False in \<open>simp add: byte_text_def\<close>)
    then show ?thesis using Suc.hyps(1) [OF i(2)] i(1) False by (simp add: upt_conv_Cons)
  qed
qed

lemma scull_print_ascii_eq:
  assumes "s a = Some b"
  shows "scull_print_ascii s a len =
    (if unat (min len 500) \<le> length b then Inr (quantum_text b (unat (min len 500))) else Inl OutOfBounds)"
  using assms by (simp add: scull_print_ascii_def ascii_loop_eq quantum_text_def)

lemma show_slots_eq:
  assumes len: "length d = unat (qset_len dev)" and live: "\<And>a. Some a \<in> set d \<Longrightarrow> \<exists>b. s a = Some b \<and> length b = objsz"
    and n: "n = unat (min (dev_len dev) 500)"
  shows "show_slots p s dev d i =
    (if objsz < n \<and> (\<exists>a. Some a \<in> set (drop i d)) then Inl OutOfBounds
     else Inr (concat (map (slot_text p s n d) [i..<length d])))"
proof (induction "unat (qset_len dev) - i" arbitrary: i)
  case 0
  then show ?case using len by (subst show_slots.simps) simp
next
  case (Suc k)
  then have i: "i < length d" "k = unat (qset_len dev) - Suc i" using len by simp_all
  have d: "drop i d = d ! i # drop (Suc i) d" using i(1) by (rule Cons_nth_drop_Suc [symmetric])
  have step: "show_slots p s dev d i = bindS (if objsz < n \<and> d ! i \<noteq> None then Inl OutOfBounds else Inr (slot_text p s n d i)) (\<lambda>out.
      bindS (show_slots p s dev d (Suc i)) (\<lambda>rest. Inr (out @ rest)))"
  proof (cases "d ! i")
    case None
    then show ?thesis by (subst show_slots.simps) (use i(1) len in \<open>simp add: slot_text_def\<close>)
  next
    case (Some a)
    then obtain b where "s a = Some b" "length b = objsz" using live [of a] i(1) by (metis nth_mem)
    then show ?thesis
      by (subst show_slots.simps) (use i(1) len Some in \<open>simp add: slot_text_def scull_print_ascii_eq n\<close>)
  qed
  show ?case
    unfolding step Suc.hyps(1) [OF i(2)] d using i(1) by (auto simp: upt_conv_Cons)
qed

lemma scull_dump_Cons:
  "scull_dump p s n i (q # qs) = node_text p s n i q (qs = []) @ scull_dump p s n (Suc i) qs"
proof -
  have "[0..<length (q # qs)] = 0 # map Suc [0..<length qs]" 
    by (simp only: length_Cons map_Suc_upt upt_conv_Cons [OF zero_less_Suc])
  then show ?thesis by (auto simp: scull_dump_def comp_def)
qed

lemma show_qsets_eq:
  assumes "\<And>q d. q \<in> set qs \<Longrightarrow> q_data q = Some d \<Longrightarrow> length d = unat (qset_len dev)"
    and "\<And>a. a \<in> last_quanta qs \<Longrightarrow> \<exists>b. s a = Some b \<and> length b = objsz"
    and n: "n = unat (min (dev_len dev) 500)"
  shows "show_qsets p s dev i qs =
    (if objsz < n \<and> last_quanta qs \<noteq> {} then Inl OutOfBounds else Inr (scull_dump p s n i qs))"
  using assms(1,2)
proof (induction qs arbitrary: i)
  case Nil
  then show ?case by (simp add: scull_dump_def last_quanta_def)
next
  case (Cons q qs)
  show ?case
  proof (cases "qs = []")
    case False
    then have l: "last_quanta (q # qs) = last_quanta qs" by (simp add: last_quanta_def)
    have "show_qsets p s dev (Suc i) qs =
        (if objsz < n \<and> last_quanta qs \<noteq> {} then Inl OutOfBounds else Inr (scull_dump p s n (Suc i) qs))"
      using Cons.prems l by (intro Cons.IH) auto
    then show ?thesis
      using False by (auto simp: l scull_dump_Cons node_text_def split: option.split)
  next
    case True
    show ?thesis
    proof (cases "q_data q")
      case None
      then show ?thesis using True by (simp add: scull_dump_Cons scull_dump_def node_text_def last_quanta_def)
    next
      case (Some d)
      have l: "last_quanta (q # qs) = {a. Some a \<in> set d}" using Some True by (simp add: last_quanta_def)
      have "show_slots p s dev d 0 = (if objsz < n \<and> (\<exists>a. Some a \<in> set (drop 0 d)) then Inl OutOfBounds
          else Inr (concat (map (slot_text p s n d) [0..<length d])))"
        using Cons.prems Some l n by (intro show_slots_eq) auto
      then show ?thesis using Some True l by (auto simp: scull_dump_Cons scull_dump_def node_text_def)
    qed
  qed
qed

text \<open>In a well-formed device the quanta of the last node are live objects.\<close>

lemma last_quanta_live:
  assumes "store_wf objsz dev s" and "a \<in> last_quanta (qset dev)"
  shows "\<exists>b. s a = Some b \<and> length b = objsz"
proof -
  from assms(2) obtain d where ne: "qset dev \<noteq> []" and d: "q_data (last (qset dev)) = Some d" "Some a \<in> set d"
    by (auto simp: last_quanta_def split: if_splits option.splits)
  then obtain j where "j < length d" "d ! j = Some a" by (auto simp: in_set_conv_nth)
  then have "quantum_at dev (length (qset dev) - 1, j) = Some a"
    using ne d by (simp add: quantum_at_def last_conv_nth)
  then show ?thesis using assms(1) unfolding store_wf_def by blast
qed

lemma scull_seq_show_eq:
  assumes "dev_wf objsz dev s"
  shows "scull_seq_show p r no dev s =
    (let n = min (unat (dev_len dev)) 500 in
     if r \<noteq> 0 then Inr (- ERESTARTSYS, [], dev)
     else if objsz < n \<and> last_quanta (qset dev) \<noteq> {} then Inl OutOfBounds
     else Inr (0, show_head no dev # scull_dump p s n 0 (qset dev), dev))"
proof -
  let ?dev = "dev\<lparr>dev_lock := \<lparr>held = True, ctx = 1\<rparr>\<rparr>"
  have wf: "store_wf objsz dev s" "dev_lock dev = mutex_init" using assms by (simp_all add: dev_wf_def)
  have n: "min (unat (dev_len dev)) 500 = unat (min (dev_len ?dev) 500)" by (simp add: unat_min)
  have "show_qsets p s ?dev 0 (qset dev) = (if objsz < min (unat (dev_len dev)) 500 \<and> last_quanta (qset dev) \<noteq> {}
      then Inl OutOfBounds else Inr (scull_dump p s (min (unat (dev_len dev)) 500) 0 (qset dev)))"
    by (rule show_qsets_eq [OF _ last_quanta_live [OF wf(1)] n]) (use wf(1) in \<open>auto simp: store_wf_def\<close>)
  moreover have "dev\<lparr>dev_lock := mutex_init\<rparr> = dev" using wf(2) by simp
  ultimately show ?thesis
    using wf(2) by (simp add: scull_seq_show_def mutex_defs show_head_def Let_def)
qed

text \<open>
  C14: Reading a device's entry of the proc file. A signal while waiting for the lock gives
  -ERESTARTSYS; otherwise the entry is the reference listing and the device is left as it was with
  its lock free, except when the last node has a quantum and the slab objects are shorter than the
  number of bytes printed of each (the device length, 500 at most): then the dump reads past the
  end of the object.
\<close>

theorem scull_seq_show_exact:
  assumes "dev_wf objsz dev s"
  shows "scull_seq_show p r no dev s =
    (let n = min (unat (dev_len dev)) 500 in
     if r \<noteq> 0 then Inr (- ERESTARTSYS, [], dev)
     else if objsz < n \<and> last_quanta (qset dev) \<noteq> {} then Inl OutOfBounds
     else Inr (0, show_head no dev # scull_dump p s n 0 (qset dev), dev))"
  by (rule scull_seq_show_eq [OF assms])

definition demo_proc_dev :: scull_dev where
  "demo_proc_dev = \<lparr>qset = [\<lparr>q_data = Some [Some 1, None]\<rparr>], quantum_len = 4, qset_len = 2, dev_len = 5,
     access_key = 0, dev_lock = mutex_init\<rparr>"

theorem scull_seq_show_exact_witness:
  "dev_wf 4 demo_proc_dev [1 \<mapsto> [65, 66, 67, 68]] \<and>
   scull_seq_show \<lparr>addr_item = (\<lambda>_. []), addr_data = (\<lambda>_. []), addr_quantum = (\<lambda>_. []), addr_null = []\<rparr> 0 0 demo_proc_dev
     [1 \<mapsto> [65, 66, 67, 68]] = Inl OutOfBounds"
proof -
  have q: "quantum_at demo_proc_dev ij = (if ij = (0, 0) then Some 1 else None)" for ij
    by (cases ij) (auto simp: quantum_at_def demo_proc_dev_def nth_Cons split: nat.splits)
  have wf: "dev_wf 4 demo_proc_dev [1 \<mapsto> [65, 66, 67, 68]]"
    by (auto simp: dev_wf_def geom_ok_def store_wf_def q) (auto simp: demo_proc_dev_def)
  show ?thesis
    using wf scull_seq_show_exact [OF wf, where r = 0] by (simp add: demo_proc_dev_def last_quanta_def)
qed

text \<open>A read of the whole file visits every device once, in order.\<close>

lemma seq_rest_eq:
  assumes "unat pos < unat (scull_nr_devs g)"
  shows "seq_rest g pos = map of_nat [Suc (unat pos)..<unat (scull_nr_devs g)]"
  using assms
proof (induction "unat (scull_nr_devs g) - unat pos" arbitrary: pos rule: less_induct)
  case less
  have "pos < scull_nr_devs g" using less.prems by (simp add: word_less_nat_alt)
  then have "1 + pos \<noteq> 0" by (metis add_eq_0_iff not_less word_n1_ge)
  then have s: "unat (pos + 1) = Suc (unat pos)" using unatSuc [of pos] by (simp add: add.commute)
  show ?case
  proof (cases "Suc (unat pos) < unat (scull_nr_devs g)")
    case True
    then have n: "scull_seq_next g pos = (Some (pos + 1), pos + 1)"
      using s by (simp add: scull_seq_next_def word_le_nat_alt Let_def)
    have r: "seq_rest g (pos + 1) = map of_nat [Suc (unat (pos + 1))..<unat (scull_nr_devs g)]"
      using True s less.prems by (intro less.hyps) simp_all
    have "of_nat (Suc (unat pos)) = pos + 1" by (simp flip: s)
    then show ?thesis
      using True by (subst seq_rest.simps) (simp only: n r s upt_conv_Cons prod.case option.case list.map)
  next
    case False
    then have "scull_seq_next g pos = (None, pos + 1)" using s by (simp add: scull_seq_next_def word_le_nat_alt Let_def)
    then show ?thesis using False by (subst seq_rest.simps) simp
  qed
qed

lemma seq_devices_all: "seq_devices g = map of_nat [0..<unat (scull_nr_devs g)]"
proof (cases "scull_nr_devs g = 0")
  case True
  then show ?thesis by (simp add: seq_devices_def scull_seq_start_def)
next
  case False
  then have "0 < unat (scull_nr_devs g)" by (simp add: unat_gt_0)
  then show ?thesis using False seq_rest_eq [of 0 g] by (simp add: seq_devices_def scull_seq_start_def upt_conv_Cons)
qed

end
