(* ===== verification/Scull_Pipe.thy ===== *)
theory Scull_Pipe
  imports Scull_Dev
begin

text \<open>
  The scull pipe (\<^verbatim>\<open>src/scull/pipe.h\<close>, \<^verbatim>\<open>src/scull/pipe.c\<close>): a circular buffer
  between readers and writers that may sleep. A system call that sleeps is cut at the points
  where it gives up the lock: the entry part runs up to the first sleep or to the return, the
  resume part from a wake-up to the next sleep or to the return. Every part runs under the lock
  of the device and is one step of the model. The parts report the wake-ups they issue.
\<close>

section \<open>Data\<close>

abbreviation (input) FMODE_READ :: u32 where "FMODE_READ \<equiv> 1"
abbreviation (input) FMODE_WRITE :: u32 where "FMODE_WRITE \<equiv> 2"

definition PROPER_FIFO_BEH_IDX :: size_t where "PROPER_FIFO_BEH_IDX = 3"

text \<open>
  The pointers are addresses; \<^verbatim>\<open>NULL\<close> is 0. Of the asynchronous notification list only
  whether it is empty is kept. The sleepers of the three wait queues are the threads of
  \<^verbatim>\<open>Scull_Pipe_Threads\<close>.
\<close>

record scull_pipe =
  idx :: size_t
  p_buf :: ptr
  p_end :: ptr
  buf_len :: size_t
  rp :: ptr
  wp :: ptr
  readers :: size_t
  writers :: size_t
  async_q :: bool
  p_lock :: mutex

datatype p_queue = Inq | Outq | Openq

text \<open>What a part of a call does to the outside: wake-ups, a signal to the asynchronous
  listeners, or a complaint of the lock checker.\<close>

datatype p_event = Wake p_queue | SigIO | LockdepWarn

datatype p_result = Returned int | Sleeping p_queue

text \<open>
  The kernel functions the pipe calls. \<^verbatim>\<open>kmalloc\<close> gets the live blocks and a size, the
  asynchronous helper gets the descriptor, the mode and whether the list has entries.
\<close>

record pipe_kernel =
  k_kmalloc :: "slab_map \<Rightarrow> size_t \<Rightarrow> (ptr \<times> byte list) option"
  kp_copy_to_user :: "byte list \<Rightarrow> byte list \<times> size_t"
  kp_copy_from_user :: "byte list \<Rightarrow> size_t \<Rightarrow> byte list \<times> size_t"
  k_nonseekable_open :: int
  k_fasync_helper :: "int \<Rightarrow> int \<Rightarrow> bool \<Rightarrow> int \<times> bool"

text \<open>The pipe of an index as module start leaves it: zeroed, with its lock initialised.\<close>

definition pipe_zero :: "size_t \<Rightarrow> scull_pipe" where
  "pipe_zero i = \<lparr>idx = i, p_buf = 0, p_end = 0, buf_len = 0, rp = 0, wp = 0, readers = 0, writers = 0,
     async_q = False, p_lock = mutex_init\<rparr>"

definition p_unlock :: "scull_pipe \<Rightarrow> fault + scull_pipe" where
  "p_unlock dev = bindS (mutex_unlock_sparse (p_lock dev)) (\<lambda>m. Inr (dev\<lparr>p_lock := m\<rparr>))"

text \<open>Freeing \<^verbatim>\<open>NULL\<close> does nothing, freeing a block that is not live is a fault.\<close>

definition p_kfree :: "slab_map \<Rightarrow> ptr \<Rightarrow> fault + slab_map" where
  "p_kfree h a = (if a = 0 then Inr h else if h a = None then Inl NullDeref else Inr (h(a := None)))"

section \<open>Open and release\<close>

definition p_alloc_buf ::
    "pipe_kernel \<Rightarrow> scull_globals \<Rightarrow> scull_pipe \<Rightarrow> slab_map \<Rightarrow> (scull_pipe \<times> slab_map) option" where
  "p_alloc_buf k g dev h =
     (if p_buf dev = 0
      then (case k_kmalloc k h (scull_p_len g) of
              None \<Rightarrow> None
            | Some (a, b) \<Rightarrow> Some (dev\<lparr>p_buf := a\<rparr>, h(a \<mapsto> b)))
      else Some (dev, h))"

definition p_reset_buf :: "scull_globals \<Rightarrow> scull_pipe \<Rightarrow> scull_pipe" where
  "p_reset_buf g dev =
     dev\<lparr>buf_len := scull_p_len g, p_end := p_buf dev + scull_p_len g,
         rp := p_buf dev, wp := p_buf dev\<rparr>"

text \<open>The loop of \<^verbatim>\<open>scull_p_proper_open\<close> that waits for a writer, entered with the lock.\<close>

definition proper_open_wait :: "pipe_kernel \<Rightarrow> scull_pipe \<Rightarrow> fault + (p_result \<times> scull_pipe)" where
  "proper_open_wait k dev =
     bindS (p_unlock dev) (\<lambda>dev'.
       Inr (if writers dev = 0 then Sleeping Openq else Returned (k_nonseekable_open k), dev'))"

definition scull_p_proper_open ::
    "pipe_kernel \<Rightarrow> scull_globals \<Rightarrow> int \<Rightarrow> u32 \<Rightarrow> u32 \<Rightarrow> scull_pipe \<Rightarrow> slab_map
       \<Rightarrow> fault + (p_result \<times> p_event list \<times> scull_pipe \<times> slab_map)" where
  "scull_p_proper_open k g lk f_mode f_flags dev h =
     bindS (mutex_lock_interruptible_sparse lk (p_lock dev)) (\<lambda>(r, m).
       if r \<noteq> 0 then Inr (Returned (- ERESTARTSYS), [], dev, h)
       else let dev = dev\<lparr>p_lock := m\<rparr> in
       if f_mode AND FMODE_READ \<noteq> 0 then
         if f_flags AND O_NONBLOCK \<noteq> 0 \<and> writers dev = 0
         then bindS (p_unlock dev) (\<lambda>dev. Inr (Returned (- EAGAIN), [], dev, h))
         else bindS (proper_open_wait k (dev\<lparr>readers := readers dev + 1\<rparr>))
                (\<lambda>(res, dev). Inr (res, [], dev, h))
       else let dev = dev\<lparr>writers := writers dev + 1\<rparr> in
         (case p_alloc_buf k g dev h of
            None \<Rightarrow> bindS (p_unlock dev) (\<lambda>dev. Inr (Returned (- ENOMEM), [], dev, h))
          | Some (dev, h) \<Rightarrow>
              let dev = p_reset_buf g dev;
                  evs = (if readers dev \<noteq> 0 then [Wake Openq] else [])
              in bindS (p_unlock dev) (\<lambda>dev. Inr (Returned (k_nonseekable_open k), evs, dev, h))))"

text \<open>
  From the wake-up on: \<open>w\<close> is the result of \<^verbatim>\<open>wait_event_interruptible\<close>, \<open>lk\<close> that of
  taking the lock again.
\<close>

definition proper_open_resume ::
    "pipe_kernel \<Rightarrow> int \<Rightarrow> int \<Rightarrow> scull_pipe \<Rightarrow> fault + (p_result \<times> scull_pipe)" where
  "proper_open_resume k w lk dev =
     (if w \<noteq> 0 then Inr (Returned (- ERESTARTSYS), dev)
      else bindS (mutex_lock_interruptible_sparse lk (p_lock dev)) (\<lambda>(r, m).
        if r \<noteq> 0 then Inr (Returned (- ERESTARTSYS), dev)
        else proper_open_wait k (dev\<lparr>p_lock := m\<rparr>)))"

definition scull_p_open ::
    "pipe_kernel \<Rightarrow> scull_globals \<Rightarrow> int \<Rightarrow> u32 \<Rightarrow> u32 \<Rightarrow> scull_pipe \<Rightarrow> slab_map
       \<Rightarrow> fault + (p_result \<times> p_event list \<times> scull_pipe \<times> slab_map)" where
  "scull_p_open k g lk f_mode f_flags dev h =
     (if idx dev = PROPER_FIFO_BEH_IDX then scull_p_proper_open k g lk f_mode f_flags dev h
      else bindS (mutex_lock_interruptible_sparse lk (p_lock dev)) (\<lambda>(r, m).
        if r \<noteq> 0 then Inr (Returned (- ERESTARTSYS), [], dev, h)
        else let dev = dev\<lparr>p_lock := m\<rparr> in
        (case p_alloc_buf k g dev h of
           None \<Rightarrow> bindS (p_unlock dev) (\<lambda>dev. Inr (Returned (- ENOMEM), [], dev, h))
         | Some (dev, h) \<Rightarrow>
             let dev = p_reset_buf g dev;
                 dev = (if f_mode AND FMODE_READ \<noteq> 0 then dev\<lparr>readers := readers dev + 1\<rparr> else dev);
                 dev = (if f_mode AND FMODE_WRITE \<noteq> 0 then dev\<lparr>writers := writers dev + 1\<rparr> else dev)
             in bindS (p_unlock dev) (\<lambda>dev. Inr (Returned (k_nonseekable_open k), [], dev, h)))))"

definition scull_p_fasync :: "pipe_kernel \<Rightarrow> int \<Rightarrow> int \<Rightarrow> scull_pipe \<Rightarrow> int \<times> scull_pipe" where
  "scull_p_fasync k fd mode dev =
     (let (ret, q) = k_fasync_helper k fd mode (async_q dev) in (ret, dev\<lparr>async_q := q\<rparr>))"

definition scull_p_release ::
    "pipe_kernel \<Rightarrow> int \<Rightarrow> u32 \<Rightarrow> scull_pipe \<Rightarrow> slab_map \<Rightarrow> fault + (int \<times> scull_pipe \<times> slab_map)" where
  "scull_p_release k lk f_mode dev h =
     (let (_, dev) = scull_p_fasync k (-1) 0 dev in
      bindS (mutex_lock_interruptible_sparse lk (p_lock dev)) (\<lambda>(r, m).
        if r \<noteq> 0 then Inr (- ERESTARTSYS, dev, h)
        else let dev = dev\<lparr>p_lock := m\<rparr>;
                 dev = (if f_mode AND FMODE_READ \<noteq> 0 then dev\<lparr>readers := readers dev - 1\<rparr> else dev);
                 dev = (if f_mode AND FMODE_WRITE \<noteq> 0 then dev\<lparr>writers := writers dev - 1\<rparr> else dev)
             in if readers dev + writers dev = 0
                then bindS (p_kfree h (p_buf dev)) (\<lambda>h.
                     bindS (p_unlock (dev\<lparr>p_buf := 0\<rparr>)) (\<lambda>dev. Inr (0, dev, h)))
                else bindS (p_unlock dev) (\<lambda>dev. Inr (0, dev, h))))"

section \<open>Reading\<close>

text \<open>
  \<^verbatim>\<open>spacefree\<close>; its assertion about the lock only warns. The remainder is taken in
  \<open>size_t\<close>, because the pointer difference is converted to the type of the divisor.
\<close>

definition spacefree :: "scull_pipe \<Rightarrow> fault + (p_event list \<times> size_t)" where
  "spacefree dev =
     (let evs = (if held (p_lock dev) then [] else [LockdepWarn]) in
      if rp dev = wp dev then Inr (evs, buf_len dev - 1)
      else if buf_len dev = 0 then Inl DivideByZero
      else Inr (evs, (rp dev + buf_len dev - wp dev) mod buf_len dev - 1))"

text \<open>The body of \<^verbatim>\<open>scull_p_read\<close> from the test of its loop on, entered with the lock.\<close>

definition p_read_section ::
    "pipe_kernel \<Rightarrow> u32 \<Rightarrow> size_t \<Rightarrow> scull_pipe \<Rightarrow> slab_map
       \<Rightarrow> fault + (p_result \<times> byte list \<times> p_event list \<times> scull_pipe)" where
  "p_read_section k f_flags count dev h =
     (if rp dev = wp dev
      then bindS (p_unlock dev) (\<lambda>dev.
             Inr (if f_flags AND O_NONBLOCK \<noteq> 0 then Returned (- EAGAIN) else Sleeping Inq, [], [], dev))
      else let count = (if wp dev > rp dev then min count (wp dev - rp dev)
                        else min count (p_end dev - rp dev)) in
        bindS (slab_load h (p_buf dev) (rp dev - p_buf dev) count) (\<lambda>bs.
          let (out, left) = kp_copy_to_user k bs in
          if left \<noteq> 0
          then bindS (p_unlock dev) (\<lambda>dev. Inr (Returned (- EFAULT), out, [], dev))
          else let dev = dev\<lparr>rp := rp dev + count\<rparr>;
                   dev = (if rp dev = p_end dev then dev\<lparr>rp := p_buf dev\<rparr> else dev)
               in bindS (p_unlock dev) (\<lambda>dev.
                    Inr (Returned (sint count), out, [Wake Outq], dev))))"

definition scull_p_read ::
    "pipe_kernel \<Rightarrow> int \<Rightarrow> u32 \<Rightarrow> size_t \<Rightarrow> scull_pipe \<Rightarrow> slab_map
       \<Rightarrow> fault + (p_result \<times> byte list \<times> p_event list \<times> scull_pipe)" where
  "scull_p_read k lk f_flags count dev h =
     bindS (mutex_lock_interruptible_sparse lk (p_lock dev)) (\<lambda>(r, m).
       if r \<noteq> 0 then Inr (Returned (- ERESTARTSYS), [], [], dev)
       else let dev = dev\<lparr>p_lock := m\<rparr> in
       if idx dev = PROPER_FIFO_BEH_IDX \<and> rp dev = wp dev \<and> writers dev = 0
       then bindS (p_unlock dev) (\<lambda>dev. Inr (Returned 0, [], [], dev))
       else p_read_section k f_flags count dev h)"

definition scull_p_read_resume ::
    "pipe_kernel \<Rightarrow> int \<Rightarrow> int \<Rightarrow> u32 \<Rightarrow> size_t \<Rightarrow> scull_pipe \<Rightarrow> slab_map
       \<Rightarrow> fault + (p_result \<times> byte list \<times> p_event list \<times> scull_pipe)" where
  "scull_p_read_resume k w lk f_flags count dev h =
     (if w \<noteq> 0 then Inr (Returned (- ERESTARTSYS), [], [], dev)
      else bindS (mutex_lock_interruptible_sparse lk (p_lock dev)) (\<lambda>(r, m).
        if r \<noteq> 0 then Inr (Returned (- ERESTARTSYS), [], [], dev)
        else p_read_section k f_flags count (dev\<lparr>p_lock := m\<rparr>) h))"

section \<open>Writing\<close>

text \<open>
  The loop of \<^verbatim>\<open>scull_getwritespace\<close>, entered with the lock and its own
  \<^verbatim>\<open>__acquire\<close> done: \<open>Inl\<close> is the return value or the sleep, with the lock given up,
  \<open>Inr\<close> the way out of the loop, with the lock and after the \<^verbatim>\<open>__release\<close>.
\<close>

definition getwritespace_loop ::
    "u32 \<Rightarrow> scull_pipe \<Rightarrow> fault + ((p_result \<times> scull_pipe) + scull_pipe)" where
  "getwritespace_loop f_flags dev =
     bindS (spacefree dev) (\<lambda>(_, n).
       if n = 0
       then bindS (p_unlock dev) (\<lambda>dev.
              Inr (Inl (if f_flags AND O_NONBLOCK \<noteq> 0 then Returned (- EAGAIN) else Sleeping Outq, dev)))
       else Inr (Inr (dev\<lparr>p_lock := release_ctx (p_lock dev)\<rparr>)))"

text \<open>
  The second test of \<^verbatim>\<open>scull_getwritespace\<close>, after \<^verbatim>\<open>prepare_to_wait\<close>: whether the
  caller goes to sleep. The lock is not held here.
\<close>

definition getwritespace_check :: "scull_pipe \<Rightarrow> fault + (p_event list \<times> bool)" where
  "getwritespace_check dev = bindS (spacefree dev) (\<lambda>(evs, n). Inr (evs, n = 0))"

text \<open>The body of \<^verbatim>\<open>scull_p_write\<close> once there is space, entered with the lock.\<close>

definition p_write_section ::
    "pipe_kernel \<Rightarrow> byte list \<Rightarrow> size_t \<Rightarrow> scull_pipe \<Rightarrow> slab_map
       \<Rightarrow> fault + (p_result \<times> p_event list \<times> scull_pipe \<times> slab_map)" where
  "p_write_section k buf count dev h =
     bindS (spacefree dev) (\<lambda>(evs, n).
       let count = min count n;
           count = (if wp dev \<ge> rp dev then min count (p_end dev - wp dev)
                    else min count (rp dev - wp dev - 1));
           (bs, left) = kp_copy_from_user k buf count in
       bindS (slab_store h (p_buf dev) (wp dev - p_buf dev) bs) (\<lambda>h.
         if left \<noteq> 0
         then bindS (p_unlock dev) (\<lambda>dev. Inr (Returned (- EFAULT), evs, dev, h))
         else let dev = dev\<lparr>wp := wp dev + count\<rparr>;
                  dev = (if wp dev = p_end dev then dev\<lparr>wp := p_buf dev\<rparr> else dev)
              in bindS (p_unlock dev) (\<lambda>dev.
                   Inr (Returned (sint count),
                        evs @ [Wake Inq] @ (if async_q dev then [SigIO] else []), dev, h))))"

text \<open>
  What \<^verbatim>\<open>scull_p_write\<close> does after \<^verbatim>\<open>scull_getwritespace\<close>: on an error it drops
  the caller's context for the static checker, otherwise it copies.
\<close>

definition p_write_loop ::
    "pipe_kernel \<Rightarrow> u32 \<Rightarrow> byte list \<Rightarrow> size_t \<Rightarrow> scull_pipe \<Rightarrow> slab_map
       \<Rightarrow> fault + (p_result \<times> p_event list \<times> scull_pipe \<times> slab_map)" where
  "p_write_loop k f_flags buf count dev h =
     bindS (getwritespace_loop f_flags dev) (\<lambda>x.
       case x of
         Inl (Returned ret, dev) \<Rightarrow>
           Inr (Returned ret, [], dev\<lparr>p_lock := release_ctx (p_lock dev)\<rparr>, h)
       | Inl (Sleeping q, dev) \<Rightarrow> Inr (Sleeping q, [], dev, h)
       | Inr dev \<Rightarrow> p_write_section k buf count dev h)"

definition scull_p_write ::
    "pipe_kernel \<Rightarrow> int \<Rightarrow> u32 \<Rightarrow> byte list \<Rightarrow> size_t \<Rightarrow> scull_pipe \<Rightarrow> slab_map
       \<Rightarrow> fault + (p_result \<times> p_event list \<times> scull_pipe \<times> slab_map)" where
  "scull_p_write k lk f_flags buf count dev h =
     bindS (mutex_lock_interruptible_sparse lk (p_lock dev)) (\<lambda>(r, m).
       if r \<noteq> 0 then Inr (Returned (- ERESTARTSYS), [], dev, h)
       else bindS (lockdep_assert_held m) (\<lambda>_.
              p_write_loop k f_flags buf count (dev\<lparr>p_lock := acquire_ctx m\<rparr>) h))"

text \<open>After the sleep: \<open>sig\<close> is \<^verbatim>\<open>signal_pending\<close>.\<close>

definition scull_p_write_resume ::
    "pipe_kernel \<Rightarrow> bool \<Rightarrow> int \<Rightarrow> u32 \<Rightarrow> byte list \<Rightarrow> size_t \<Rightarrow> scull_pipe \<Rightarrow> slab_map
       \<Rightarrow> fault + (p_result \<times> p_event list \<times> scull_pipe \<times> slab_map)" where
  "scull_p_write_resume k sig lk f_flags buf count dev h =
     (let dropped = dev\<lparr>p_lock := release_ctx (p_lock dev)\<rparr> in
      if sig then Inr (Returned (- ERESTARTSYS), [], dropped, h)
      else bindS (mutex_lock_interruptible_sparse lk (p_lock dev)) (\<lambda>(r, m).
        if r \<noteq> 0 then Inr (Returned (- ERESTARTSYS), [], dropped, h)
        else p_write_loop k f_flags buf count (dev\<lparr>p_lock := m\<rparr>) h))"

section \<open>Poll\<close>

abbreviation (input) POLLIN :: u32 where "POLLIN \<equiv> 0x1"
abbreviation (input) POLLOUT :: u32 where "POLLOUT \<equiv> 0x4"
abbreviation (input) POLLERR :: u32 where "POLLERR \<equiv> 0x8"
abbreviation (input) POLLHUP :: u32 where "POLLHUP \<equiv> 0x10"
abbreviation (input) POLLRDNORM :: u32 where "POLLRDNORM \<equiv> 0x40"
abbreviation (input) POLLWRNORM :: u32 where "POLLWRNORM \<equiv> 0x100"

definition scull_p_poll :: "scull_pipe \<Rightarrow> fault + (u32 \<times> scull_pipe)" where
  "scull_p_poll dev =
     bindS (mutex_lock_sparse (p_lock dev)) (\<lambda>m.
       let dev = dev\<lparr>p_lock := m\<rparr> in
       if idx dev = PROPER_FIFO_BEH_IDX \<and> writers dev = 0
       then bindS (p_unlock dev) (\<lambda>dev. Inr (POLLERR OR POLLHUP, dev))
       else let mask = (if rp dev \<noteq> wp dev then POLLIN OR POLLRDNORM else 0) in
         bindS (spacefree dev) (\<lambda>(_, n).
           let mask = (if n \<noteq> 0 then mask OR (POLLOUT OR POLLWRNORM) else mask)
           in bindS (p_unlock dev) (\<lambda>dev. Inr (mask, dev))))"

end
