(* ===== verification/Scull_Module.thy ===== *)
theory Scull_Module
  imports Scull_Proc Scull_Pipe
begin

text \<open>
  Start and end of the scull module (\<^verbatim>\<open>src/scull/main.c\<close>, \<^verbatim>\<open>src/scull/pipe.c\<close>):
  device numbers, the arrays of devices, the slab cache, the character devices and the proc file,
  as acquisition and release of resources. The results of the kernel calls are parameters. Misuse
  that the kernel only complains about is collected as warnings.
\<close>

unbundle bit_operations_syntax

section \<open>Device numbers\<close>

definition MKDEV :: "int \<Rightarrow> int \<Rightarrow> u32" where
  "MKDEV ma mi = push_bit 20 (word_of_int ma) OR word_of_int mi"

definition MAJOR :: "u32 \<Rightarrow> int" where
  "MAJOR dev = uint (drop_bit 20 dev)"

section \<open>Tables of operations\<close>

text \<open>The functions a table can name; a missing entry is \<^verbatim>\<open>NULL\<close>.\<close>

datatype scull_fn =
    Fn_scull_read | Fn_scull_write | Fn_scull_ioctl | Fn_scull_open
  | Fn_scull_p_read | Fn_scull_p_write | Fn_scull_p_poll | Fn_scull_p_open | Fn_scull_p_release | Fn_scull_p_fasync
  | Fn_no_llseek

record file_operations =
  fop_llseek :: "scull_fn option"
  fop_read :: "scull_fn option"
  fop_write :: "scull_fn option"
  fop_poll :: "scull_fn option"
  fop_unlocked_ioctl :: "scull_fn option"
  fop_open :: "scull_fn option"
  fop_release :: "scull_fn option"
  fop_fasync :: "scull_fn option"

definition scull_fops :: file_operations where
  "scull_fops = \<lparr>fop_llseek = None, fop_read = Some Fn_scull_read, fop_write = Some Fn_scull_write, fop_poll = None,
     fop_unlocked_ioctl = Some Fn_scull_ioctl, fop_open = Some Fn_scull_open, fop_release = None, fop_fasync = None\<rparr>"

definition scull_pipe_fops :: file_operations where
  "scull_pipe_fops = \<lparr>fop_llseek = Some Fn_no_llseek, fop_read = Some Fn_scull_p_read, fop_write = Some Fn_scull_p_write,
     fop_poll = Some Fn_scull_p_poll, fop_unlocked_ioctl = Some Fn_scull_ioctl, fop_open = Some Fn_scull_p_open,
     fop_release = Some Fn_scull_p_release, fop_fasync = Some Fn_scull_p_fasync\<rparr>"

section \<open>State\<close>

text \<open>
  A character device in zeroed memory, initialised with its table of operations, or added with its
  number.
\<close>

datatype cdev = Cdev_zero | Cdev_init file_operations | Cdev_added file_operations u32

record mod_dev =
  d_dev :: scull_dev
  d_cdev :: cdev

record mod_pipe =
  d_pipe :: scull_pipe
  d_pcdev :: cdev

datatype mod_warn =
    Cdev_del_zero       \<comment> \<open>\<^verbatim>\<open>cdev_del\<close> of a device that was never initialised\<close>
  | Proc_absent         \<comment> \<open>removal of a proc entry that does not exist\<close>
  | Cache_busy          \<comment> \<open>a cache that could not be destroyed\<close>

text \<open>
  \<open>m_devices\<close> is \<^verbatim>\<open>scull_devices\<close>, null or an array, and \<open>m_freed\<close> tells that
  the array has been freed. \<open>m_kmc\<close> is \<^verbatim>\<open>kmc\<close>, \<open>m_cache\<close> tells that the cache
  exists. \<open>m_regions\<close> and \<open>m_cdevs\<close> are the device numbers the kernel has for the module.
\<close>

record scull_mod =
  m_g :: scull_globals
  m_devices :: "mod_dev list option"
  m_freed :: bool
  m_kmc :: bool
  m_cache :: bool
  m_heap :: scull_heap
  m_p_dev :: u32
  m_p_devices :: "mod_pipe list option"
  m_p_heap :: slab_map
  m_regions :: "(u32 \<times> ulong) list"
  m_cdevs :: "u32 list"
  m_proc :: proc_dir
  m_warns :: "mod_warn list"

text \<open>
  The answers of the kernel: \<open>k_kmem_cache_destroy\<close> tells whether the cache is gone after its
  destruction was asked for, given the objects that are still in use.
\<close>

record mod_kernel =
  k_scull :: scull_kernel
  k_register_chrdev_region :: "u32 \<Rightarrow> ulong \<Rightarrow> int"
  k_alloc_chrdev_region :: "int \<Rightarrow> ulong \<Rightarrow> int \<times> u32"
  k_kcalloc_devices :: bool
  k_kmem_cache_create :: "ulong \<Rightarrow> bool"
  k_kmem_cache_destroy :: "slab_map \<Rightarrow> bool"
  k_cdev_add :: "u32 \<Rightarrow> int"
  k_kmalloc_pipes :: bool

section \<open>Kernel calls\<close>

definition register_region :: "mod_kernel \<Rightarrow> u32 \<Rightarrow> ulong \<Rightarrow> scull_mod \<Rightarrow> int \<times> scull_mod" where
  "register_region k dev n m =
     (let ret = k_register_chrdev_region k dev n
      in (ret, if ret < 0 then m else m\<lparr>m_regions := (dev, n) # m_regions m\<rparr>))"

definition alloc_region :: "mod_kernel \<Rightarrow> int \<Rightarrow> ulong \<Rightarrow> scull_mod \<Rightarrow> int \<times> u32 \<times> scull_mod" where
  "alloc_region k minor n m =
     (let (ret, dev) = k_alloc_chrdev_region k minor n
      in (ret, dev, if ret < 0 then m else m\<lparr>m_regions := (dev, n) # m_regions m\<rparr>))"

definition unregister_region :: "u32 \<Rightarrow> ulong \<Rightarrow> scull_mod \<Rightarrow> scull_mod" where
  "unregister_region dev n m = m\<lparr>m_regions := removeAll (dev, n) (m_regions m)\<rparr>"

text \<open>Deleting a device that was not added only drops the reference.\<close>

definition cdev_del :: "cdev \<Rightarrow> scull_mod \<Rightarrow> scull_mod" where
  "cdev_del c m =
     (case c of
        Cdev_zero \<Rightarrow> m\<lparr>m_warns := m_warns m @ [Cdev_del_zero]\<rparr>
      | Cdev_init _ \<Rightarrow> m
      | Cdev_added _ dev \<Rightarrow> m\<lparr>m_cdevs := removeAll dev (m_cdevs m)\<rparr>)"

text \<open>
  \<^verbatim>\<open>cdev_init\<close> records the table, the field \<^verbatim>\<open>ops\<close> can be set afterwards, and
  \<^verbatim>\<open>cdev_add\<close> makes the device reachable by its number unless it fails.
\<close>

definition cdev_init :: "file_operations \<Rightarrow> cdev" where
  "cdev_init ops = Cdev_init ops"

definition set_cdev_ops :: "file_operations \<Rightarrow> cdev \<Rightarrow> cdev" where
  "set_cdev_ops ops c =
     (case c of Cdev_zero \<Rightarrow> Cdev_zero | Cdev_init _ \<Rightarrow> Cdev_init ops | Cdev_added _ dev \<Rightarrow> Cdev_added ops dev)"

definition cdev_add :: "mod_kernel \<Rightarrow> u32 \<Rightarrow> cdev \<Rightarrow> scull_mod \<Rightarrow> int \<times> cdev \<times> scull_mod" where
  "cdev_add k devno c m =
     (let err = k_cdev_add k devno in
      if err \<noteq> 0 then (err, c, m)
      else (0, case c of Cdev_init ops \<Rightarrow> Cdev_added ops devno | _ \<Rightarrow> c, m\<lparr>m_cdevs := devno # m_cdevs m\<rparr>))"

definition kmem_cache_destroy :: "mod_kernel \<Rightarrow> scull_mod \<Rightarrow> scull_mod" where
  "kmem_cache_destroy k m =
     (if k_kmem_cache_destroy k (slab (m_heap m)) then m\<lparr>m_cache := False\<rparr>
      else m\<lparr>m_warns := m_warns m @ [Cache_busy]\<rparr>)"

definition mod_remove_proc :: "scull_mod \<Rightarrow> scull_mod" where
  "mod_remove_proc m =
     m\<lparr>m_proc := scull_remove_proc (m_proc m),
       m_warns := (if ''scullmem'' \<in> fst ` set (m_proc m) then m_warns m else m_warns m @ [Proc_absent])\<rparr>"

section \<open>Pipes\<close>

definition scull_p_setup_cdev :: "mod_kernel \<Rightarrow> nat \<Rightarrow> scull_mod \<Rightarrow> cdev \<times> scull_mod" where
  "scull_p_setup_cdev k i m =
     (let devno = m_p_dev m + of_nat i;
          c = cdev_init scull_pipe_fops;
          (err, c, m) = cdev_add k devno c m
      in (c, m))"

text \<open>The loop over the pipes, from index \<open>i\<close> on.\<close>

function init_pipes :: "mod_kernel \<Rightarrow> nat \<Rightarrow> nat \<Rightarrow> scull_mod \<Rightarrow> mod_pipe list \<times> scull_mod" where
  "init_pipes k n i m =
     (if n \<le> i then ([], m)
      else let (c, m) = scull_p_setup_cdev k i m;
               (ps, m) = init_pipes k n (Suc i) m
           in (\<lparr>d_pipe = pipe_zero (of_nat i), d_pcdev = c\<rparr> # ps, m))"
  by auto
termination by (relation "measure (\<lambda>(k, n, i, m). n - i)") auto

definition scull_p_init :: "mod_kernel \<Rightarrow> u32 \<Rightarrow> scull_mod \<Rightarrow> ulong \<times> scull_mod" where
  "scull_p_init k firstdev m =
     (let n = scull_p_nr_devs (m_g m); (ret, m) = register_region k firstdev n m in
      if ret < 0 then (0, m)
      else let m = m\<lparr>m_p_dev := firstdev\<rparr> in
      if \<not> k_kmalloc_pipes k then (0, unregister_region firstdev n (m\<lparr>m_p_devices := None\<rparr>))
      else let (ps, m) = init_pipes k (unat n) 0 m
           in (n, m\<lparr>m_p_devices := Some ps\<rparr>))"

fun cleanup_pipes :: "mod_pipe list \<Rightarrow> scull_mod \<Rightarrow> fault + scull_mod" where
  "cleanup_pipes [] m = Inr m"
| "cleanup_pipes (p # ps) m =
     (let m = cdev_del (d_pcdev p) m in
      bindS (p_kfree (m_p_heap m) (p_buf (d_pipe p))) (\<lambda>h. cleanup_pipes ps (m\<lparr>m_p_heap := h\<rparr>)))"

definition scull_p_cleanup :: "scull_mod \<Rightarrow> fault + scull_mod" where
  "scull_p_cleanup m =
     (case m_p_devices m of
        None \<Rightarrow> Inr m
      | Some ps \<Rightarrow>
          bindS (cleanup_pipes ps m) (\<lambda>m.
            Inr ((unregister_region (m_p_dev m) (scull_p_nr_devs (m_g m)) m)\<lparr>m_p_devices := None\<rparr>)))"

section \<open>Bare devices\<close>

fun cleanup_devices :: "scull_kernel \<Rightarrow> mod_dev list \<Rightarrow> scull_mod \<Rightarrow> fault + scull_mod" where
  "cleanup_devices k [] m = Inr m"
| "cleanup_devices k (d # ds) m =
     bindS (mutex_lock_sparse (dev_lock (d_dev d))) (\<lambda>l.
     bindS (scull_trim k (m_g m) ((d_dev d)\<lparr>dev_lock := l\<rparr>) (m_heap m)) (\<lambda>(dev, h).
     bindS (mutex_unlock_sparse (dev_lock dev)) (\<lambda>l.
       cleanup_devices k ds (cdev_del (d_cdev d) (m\<lparr>m_heap := h\<rparr>)))))"

text \<open>The last part of the clean-up, after the label \<^verbatim>\<open>final\<close>.\<close>

definition cleanup_final :: "scull_mod \<Rightarrow> fault + scull_mod" where
  "cleanup_final m =
     (let devno = MKDEV (scull_major (m_g m)) (scull_minor (m_g m))
      in scull_p_cleanup (unregister_region devno (scull_nr_devs (m_g m)) (mod_remove_proc m)))"

definition scull_cleanup_module :: "mod_kernel \<Rightarrow> scull_mod \<Rightarrow> fault + scull_mod" where
  "scull_cleanup_module k m =
     (case m_devices m of
        None \<Rightarrow> cleanup_final m
      | Some ds \<Rightarrow>
          if m_freed m then Inl NullDeref
          else bindS (cleanup_devices (k_scull k) ds m) (\<lambda>m.
            let m = m\<lparr>m_freed := True\<rparr>;
                m = (if m_kmc m then kmem_cache_destroy k m else m)
            in cleanup_final m))"

definition scull_setup_cdev :: "mod_kernel \<Rightarrow> nat \<Rightarrow> scull_mod \<Rightarrow> cdev \<times> scull_mod" where
  "scull_setup_cdev k i m =
     (let devno = MKDEV (scull_major (m_g m)) (scull_minor (m_g m) + int i);
          c = cdev_init scull_fops;
          c = set_cdev_ops scull_fops c;
          (err, c, m) = cdev_add k devno c m
      in (c, m))"

text \<open>A zeroed device, as \<^verbatim>\<open>kcalloc\<close> returns it; an all-zero mutex is not held.\<close>

definition dev_zero :: scull_dev where
  "dev_zero = \<lparr>qset = [], quantum_len = 0, qset_len = 0, dev_len = 0, access_key = 0, dev_lock = mutex_init\<rparr>"

function init_devices :: "mod_kernel \<Rightarrow> nat \<Rightarrow> nat \<Rightarrow> scull_mod \<Rightarrow> mod_dev list \<times> scull_mod" where
  "init_devices k n i m =
     (if n \<le> i then ([], m)
      else let (c, m) = scull_setup_cdev k i m;
               (ds, m) = init_devices k n (Suc i) m
           in (\<lparr>d_dev = dev_zero\<lparr>quantum_len := scull_quantum (m_g m), qset_len := scull_qset (m_g m)\<rparr>, d_cdev = c\<rparr> # ds, m))"
  by auto
termination by (relation "measure (\<lambda>(k, n, i, m). n - i)") auto

text \<open>
  \<^verbatim>\<open>scull_init_module\<close> after the registration. Both failures go through
  \<^verbatim>\<open>scull_cleanup_module\<close>, the second one with the array of zeroed devices.
\<close>

definition scull_init_rest :: "mod_kernel \<Rightarrow> scull_mod \<Rightarrow> fault + (int \<times> scull_mod)" where
  "scull_init_rest k m =
     (let n = scull_nr_devs (m_g m) in
      if \<not> k_kcalloc_devices k
      then bindS (scull_cleanup_module k (m\<lparr>m_devices := None\<rparr>)) (\<lambda>m. Inr (- ENOMEM, m))
      else
        let m = m\<lparr>m_devices := Some (replicate (unat n) \<lparr>d_dev = dev_zero, d_cdev = Cdev_zero\<rparr>), m_freed := False\<rparr> in
      if \<not> k_kmem_cache_create k (scull_quantum (m_g m))
      then bindS (scull_cleanup_module k (m\<lparr>m_kmc := False\<rparr>)) (\<lambda>m. Inr (- ENOMEM, m))
      else
        let m = m\<lparr>m_kmc := True, m_cache := True\<rparr>;
            (ds, m) = init_devices k (unat n) 0 m;
            m = m\<lparr>m_devices := Some ds\<rparr>;
            (_, m) = scull_p_init k (MKDEV (scull_major (m_g m)) (scull_minor (m_g m) + int (unat n))) m
        in Inr (0, m\<lparr>m_proc := scull_create_proc (m_proc m)\<rparr>))"

definition scull_init_module :: "mod_kernel \<Rightarrow> scull_mod \<Rightarrow> fault + (int \<times> scull_mod)" where
  "scull_init_module k m =
     (let g = m_g m; n = scull_nr_devs g;
          (ret, m) = (if scull_major g \<noteq> 0
                      then register_region k (MKDEV (scull_major g) (scull_minor g)) n m
                      else let (ret, dev, m) = alloc_region k (scull_minor g) n m
                           in (ret, m\<lparr>m_g := g\<lparr>scull_major := MAJOR dev\<rparr>\<rparr>))
      in if ret < 0 then Inr (ret, m) else scull_init_rest k m)"

declare init_pipes.simps [simp del]
declare init_devices.simps [simp del]

end
