(* ===== verification/Scull_Module_Props.thy ===== *)
theory Scull_Module_Props
  imports Scull_Module
begin

text \<open>
  Correctness of module start and end: whatever the kernel refuses, the start either leaves nothing
  behind or a running module whose devices satisfy their invariants, and the end of a running module
  releases everything but a cache whose objects are still in use.
\<close>

section \<open>Releasing\<close>

lemmas cdev_defs = cdev_init_def cdev_add_def

definition added :: "cdev \<Rightarrow> u32 set" where
  "added c = (case c of Cdev_added _ dev \<Rightarrow> {dev} | _ \<Rightarrow> {})"

definition dev_numbers :: "mod_dev list \<Rightarrow> u32 set" where
  "dev_numbers ds = (\<Union>d \<in> set ds. added (d_cdev d))"

definition pipe_numbers :: "mod_pipe list \<Rightarrow> u32 set" where
  "pipe_numbers ps = (\<Union>p \<in> set ps. added (d_pcdev p))"

lemma cdev_del_eq:
  "\<exists>ws. cdev_del c m = m\<lparr>m_cdevs := filter (\<lambda>d. d \<notin> added c) (m_cdevs m), m_warns := ws\<rparr>"
proof (cases c)
  case Cdev_zero
  then show ?thesis by (auto simp: cdev_del_def added_def)
next
  case (Cdev_init ops)
  then have "cdev_del c m = m\<lparr>m_cdevs := filter (\<lambda>d. d \<notin> added c) (m_cdevs m), m_warns := m_warns m\<rparr>"
    by (simp add: cdev_del_def added_def)
  then show ?thesis ..
next
  case (Cdev_added ops dev)
  then have "cdev_del c m = m\<lparr>m_cdevs := filter (\<lambda>d. d \<notin> added c) (m_cdevs m), m_warns := m_warns m\<rparr>"
    by (simp add: cdev_del_def added_def removeAll_filter_not_eq eq_commute)
  then show ?thesis ..
qed

text \<open>The memory after every device of a list was trimmed.\<close>

definition trim_all :: "scull_kernel \<Rightarrow> mod_dev list \<Rightarrow> scull_heap \<Rightarrow> scull_heap" where
  "trim_all k ds = fold (\<lambda>d. trim_qsets k (qset_len (d_dev d)) (qset (d_dev d))) ds"

lemma cleanup_devices_eq:
  assumes "\<forall>d \<in> set ds. dev_lock (d_dev d) = mutex_init"
  shows "\<exists>ws. cleanup_devices k ds m =
    Inr (m\<lparr>m_heap := trim_all k ds (m_heap m), m_cdevs := filter (\<lambda>d. d \<notin> dev_numbers ds) (m_cdevs m), m_warns := ws\<rparr>)"
  using assms
proof (induction ds arbitrary: m)
  case Nil
  have "cleanup_devices k [] m = Inr (m\<lparr>m_heap := trim_all k [] (m_heap m), m_cdevs := filter (\<lambda>d. d \<notin> dev_numbers []) (m_cdevs m), m_warns := m_warns m\<rparr>)"
    by (simp add: dev_numbers_def trim_all_def)
  then show ?case by blast
next
  case (Cons d ds)
  let ?dev = "(d_dev d)\<lparr>dev_lock := \<lparr>held = True, ctx = 1\<rparr>\<rparr>"
  let ?h = "trim_qsets k (qset_len (d_dev d)) (qset (d_dev d)) (m_heap m)"
  obtain ws where c: "cdev_del (d_cdev d) (m\<lparr>m_heap := ?h\<rparr>) =
      m\<lparr>m_heap := ?h, m_cdevs := filter (\<lambda>n. n \<notin> added (d_cdev d)) (m_cdevs m), m_warns := ws\<rparr>"
    using cdev_del_eq [of "d_cdev d" "m\<lparr>m_heap := ?h\<rparr>"] by auto
  have "cleanup_devices k (d # ds) m = cleanup_devices k ds (cdev_del (d_cdev d) (m\<lparr>m_heap := ?h\<rparr>))"
    using Cons.prems by (simp add: mutex_defs scull_trim_def)
  moreover obtain ws' where "cleanup_devices k ds (cdev_del (d_cdev d) (m\<lparr>m_heap := ?h\<rparr>)) =
      Inr (m\<lparr>m_heap := trim_all k (d # ds) (m_heap m), m_cdevs := filter (\<lambda>n. n \<notin> dev_numbers ds) (filter (\<lambda>n. n \<notin> added (d_cdev d)) (m_cdevs m)), m_warns := ws'\<rparr>)"
    using Cons.IH [of "cdev_del (d_cdev d) (m\<lparr>m_heap := ?h\<rparr>)"] Cons.prems unfolding c by (auto simp: trim_all_def)
  moreover have "filter (\<lambda>n. n \<notin> dev_numbers ds) (filter (\<lambda>n. n \<notin> added (d_cdev d)) (m_cdevs m)) =
      filter (\<lambda>n. n \<notin> dev_numbers (d # ds)) (m_cdevs m)"
    by (simp add: dev_numbers_def conj_commute)
  ultimately show ?case by metis
qed

text \<open>The buffers of the pipes are null or live, and no two pipes share one.\<close>

fun pipe_bufs_ok :: "slab_map \<Rightarrow> mod_pipe list \<Rightarrow> bool" where
  "pipe_bufs_ok h [] \<longleftrightarrow> True"
| "pipe_bufs_ok h (p # ps) \<longleftrightarrow>
     (p_buf (d_pipe p) = 0 \<or> h (p_buf (d_pipe p)) \<noteq> None \<and> (\<forall>q \<in> set ps. p_buf (d_pipe q) \<noteq> p_buf (d_pipe p))) \<and>
     pipe_bufs_ok h ps"

lemma pipe_bufs_ok_free:
  "pipe_bufs_ok h ps \<Longrightarrow> \<forall>q \<in> set ps. p_buf (d_pipe q) \<noteq> a \<Longrightarrow> pipe_bufs_ok (h(a := None)) ps"
  by (induction ps) auto

lemma cleanup_pipes_eq:
  assumes "pipe_bufs_ok (m_p_heap m) ps"
  shows "\<exists>h ws. cleanup_pipes ps m =
    Inr (m\<lparr>m_p_heap := h, m_cdevs := filter (\<lambda>d. d \<notin> pipe_numbers ps) (m_cdevs m), m_warns := ws\<rparr>)"
  using assms
proof (induction ps arbitrary: m)
  case Nil
  have "cleanup_pipes [] m = Inr (m\<lparr>m_p_heap := m_p_heap m, m_cdevs := filter (\<lambda>d. d \<notin> pipe_numbers []) (m_cdevs m), m_warns := m_warns m\<rparr>)"
    by (simp add: pipe_numbers_def)
  then show ?case by blast
next
  case (Cons p ps)
  obtain ws where c: "cdev_del (d_pcdev p) m = m\<lparr>m_cdevs := filter (\<lambda>n. n \<notin> added (d_pcdev p)) (m_cdevs m), m_warns := ws\<rparr>"
    using cdev_del_eq by blast
  obtain h where h: "p_kfree (m_p_heap m) (p_buf (d_pipe p)) = Inr h" "pipe_bufs_ok h ps"
  proof (cases "p_buf (d_pipe p) = 0")
    case True
    then show ?thesis using Cons.prems by (intro that [of "m_p_heap m"]) (simp_all add: p_kfree_def)
  next
    case False
    then show ?thesis using Cons.prems
      by (intro that [of "(m_p_heap m)(p_buf (d_pipe p) := None)"]) (auto simp: p_kfree_def intro: pipe_bufs_ok_free)
  qed
  let ?m = "m\<lparr>m_cdevs := filter (\<lambda>n. n \<notin> added (d_pcdev p)) (m_cdevs m), m_warns := ws, m_p_heap := h\<rparr>"
  have "cleanup_pipes (p # ps) m = cleanup_pipes ps ?m" using h(1) by (simp add: c Let_def)
  moreover obtain h' ws' where "cleanup_pipes ps ?m =
      Inr (m\<lparr>m_p_heap := h', m_cdevs := filter (\<lambda>n. n \<notin> pipe_numbers ps) (filter (\<lambda>n. n \<notin> added (d_pcdev p)) (m_cdevs m)), m_warns := ws'\<rparr>)"
    using Cons.IH [of ?m] h(2) by auto
  moreover have "filter (\<lambda>n. n \<notin> pipe_numbers ps) (filter (\<lambda>n. n \<notin> added (d_pcdev p)) (m_cdevs m)) =
      filter (\<lambda>n. n \<notin> pipe_numbers (p # ps)) (m_cdevs m)"
    by (simp add: pipe_numbers_def conj_commute)
  ultimately show ?case by metis
qed

section \<open>The life of the module\<close>

text \<open>
  Everything is released, apart from the cache: no array of devices or pipes, no device number, no
  character device, no proc file.
\<close>

definition mod_released :: "scull_mod \<Rightarrow> bool" where
  "mod_released m \<longleftrightarrow> (m_devices m = None \<or> m_freed m) \<and> m_p_devices m = None \<and> m_regions m = [] \<and>
     m_cdevs m = [] \<and> ''scullmem'' \<notin> fst ` set (m_proc m)"

text \<open>
  Nothing of the module is there, not even the cache: before the start, after a failed start, and
  after an end that found no object of the cache in use. Before the start there are no objects.
\<close>

definition mod_gone :: "scull_mod \<Rightarrow> bool" where
  "mod_gone m \<longleftrightarrow> mod_released m \<and> \<not> m_cache m"

definition mod_idle :: "scull_mod \<Rightarrow> bool" where
  "mod_idle m \<longleftrightarrow> mod_gone m \<and> m_devices m = None \<and> slab (m_heap m) = Map.empty \<and>
     0 \<le> scull_minor (m_g m) \<and> scull_minor (m_g m) < 2 ^ 20"

text \<open>
  A running module: its devices exist with free locks, the buffers of its pipes can be freed, and
  the device numbers the kernel has are those of its devices and of its two regions. What the files
  contain and which pipes are open does not matter.
\<close>

definition mod_running :: "scull_mod \<Rightarrow> bool" where
  "mod_running m \<longleftrightarrow>
     (\<exists>ds. m_devices m = Some ds \<and> \<not> m_freed m \<and> (\<forall>d \<in> set ds. dev_lock (d_dev d) = mutex_init) \<and>
       (m_cache m \<longrightarrow> m_kmc m) \<and>
       (case m_p_devices m of
          None \<Rightarrow> set (m_cdevs m) \<subseteq> dev_numbers ds \<and>
            set (m_regions m) \<subseteq> {(MKDEV (scull_major (m_g m)) (scull_minor (m_g m)), scull_nr_devs (m_g m))}
        | Some ps \<Rightarrow> set (m_cdevs m) \<subseteq> dev_numbers ds \<union> pipe_numbers ps \<and> pipe_bufs_ok (m_p_heap m) ps \<and>
            set (m_regions m) \<subseteq> {(MKDEV (scull_major (m_g m)) (scull_minor (m_g m)), scull_nr_devs (m_g m)),
              (m_p_dev m, scull_p_nr_devs (m_g m))}))"

lemmas mod_gone_defs = mod_gone_def mod_released_def

text \<open>
  The documented results of two kernel calls. \<^verbatim>\<open>alloc_chrdev_region\<close> gives numbers from the
  given minor on. \<^verbatim>\<open>kmem_cache_destroy\<close> removes a cache exactly when none of its objects is
  in use.
\<close>

definition alloc_region_ok :: "mod_kernel \<Rightarrow> bool" where
  "alloc_region_ok k \<longleftrightarrow>
     (\<forall>minor n ret dev. k_alloc_chrdev_region k minor n = (ret, dev) \<longrightarrow> 0 \<le> ret \<longrightarrow> 0 \<le> minor \<longrightarrow> minor < 2 ^ 20 \<longrightarrow>
        MKDEV (MAJOR dev) minor = dev)"

definition mod_kernel_ok :: "mod_kernel \<Rightarrow> bool" where
  "mod_kernel_ok k \<longleftrightarrow> alloc_region_ok k \<and> (\<forall>s. k_kmem_cache_destroy k s \<longleftrightarrow> s = Map.empty)"

lemma cleanup_final_None:
  assumes "m_p_devices m = None" and "m_devices m = None \<or> m_freed m" and "m_cdevs m = []"
    and "set (m_regions m) \<subseteq> {(MKDEV (scull_major (m_g m)) (scull_minor (m_g m)), scull_nr_devs (m_g m))}"
  shows "\<exists>m'. cleanup_final m = Inr m' \<and> mod_released m' \<and> m_cache m' = m_cache m \<and> m_heap m' = m_heap m"
  using assms
  by (auto simp: cleanup_final_def scull_p_cleanup_def unregister_region_def mod_remove_proc_def mod_released_def
      scull_remove_proc_def remove_proc_entry_def filter_empty_conv removeAll_filter_not_eq)

lemma cleanup_final_Some:
  assumes "m_p_devices m = Some ps" and "m_freed m" and "set (m_cdevs m) \<subseteq> pipe_numbers ps"
    and "pipe_bufs_ok (m_p_heap m) ps"
    and "set (m_regions m) \<subseteq> {(MKDEV (scull_major (m_g m)) (scull_minor (m_g m)), scull_nr_devs (m_g m)),
              (m_p_dev m, scull_p_nr_devs (m_g m))}"
  shows "\<exists>m'. cleanup_final m = Inr m' \<and> mod_released m' \<and> m_cache m' = m_cache m \<and> m_heap m' = m_heap m"
proof -
  let ?m = "unregister_region (MKDEV (scull_major (m_g m)) (scull_minor (m_g m))) (scull_nr_devs (m_g m)) (mod_remove_proc m)"
  have "pipe_bufs_ok (m_p_heap ?m) ps" using assms(4) by (simp add: unregister_region_def mod_remove_proc_def)
  from cleanup_pipes_eq [OF this] obtain h ws where
    c: "cleanup_pipes ps ?m = Inr (?m\<lparr>m_p_heap := h, m_cdevs := filter (\<lambda>d. d \<notin> pipe_numbers ps) (m_cdevs ?m), m_warns := ws\<rparr>)" by blast
  have "m_p_devices ?m = Some ps" using assms(1) by (simp add: unregister_region_def mod_remove_proc_def)
  then show ?thesis
    using c assms(2,3,5)
    by (auto simp: cleanup_final_def scull_p_cleanup_def unregister_region_def mod_remove_proc_def mod_released_def Let_def
      scull_remove_proc_def remove_proc_entry_def filter_empty_conv removeAll_filter_not_eq)
qed

text \<open>The end of a running module releases everything but a cache whose objects are in use.\<close>

lemma scull_cleanup_running:
  assumes "mod_running m" and "m_devices m = Some ds"
  shows "\<exists>m'. scull_cleanup_module k m = Inr m' \<and> mod_released m' \<and> m_heap m' = trim_all (k_scull k) ds (m_heap m) \<and>
    (m_cache m' \<longleftrightarrow> m_cache m \<and> \<not> k_kmem_cache_destroy k (slab (m_heap m')))"
proof -
  have ds: "m_devices m = Some ds" "\<not> m_freed m" "\<forall>d \<in> set ds. dev_lock (d_dev d) = mutex_init"
      "m_cache m \<longrightarrow> m_kmc m" using assms by (auto simp: mod_running_def)
  let ?h = "trim_all (k_scull k) ds (m_heap m)"
  obtain ws where c: "cleanup_devices (k_scull k) ds m =
      Inr (m\<lparr>m_heap := ?h, m_cdevs := filter (\<lambda>d. d \<notin> dev_numbers ds) (m_cdevs m), m_warns := ws\<rparr>)"
    using cleanup_devices_eq [OF ds(3)] by blast
  let ?m = "m\<lparr>m_heap := ?h, m_cdevs := filter (\<lambda>d. d \<notin> dev_numbers ds) (m_cdevs m), m_warns := ws, m_freed := True\<rparr>"
  let ?m' = "if m_kmc ?m then kmem_cache_destroy k ?m else ?m"
  have eq: "scull_cleanup_module k m = cleanup_final ?m'" using ds(1,2) c by (simp add: scull_cleanup_module_def Let_def)
  have fields: "m_p_devices ?m' = m_p_devices m" "m_heap ?m' = ?h"
    "m_cache ?m' \<longleftrightarrow> m_cache m \<and> \<not> k_kmem_cache_destroy k (slab ?h)" "m_freed ?m'" "m_g ?m' = m_g m" "m_p_dev ?m' = m_p_dev m"
    "m_cdevs ?m' = filter (\<lambda>d. d \<notin> dev_numbers ds) (m_cdevs m)" "m_regions ?m' = m_regions m" "m_p_heap ?m' = m_p_heap m"
    using ds(4) by (auto simp: kmem_cache_destroy_def)
  have "\<exists>m''. cleanup_final ?m' = Inr m'' \<and> mod_released m'' \<and> m_cache m'' = m_cache ?m' \<and> m_heap m'' = m_heap ?m'"
  proof (cases "m_p_devices m")
    case None
    then show ?thesis
      using assms ds(1) fields by (intro cleanup_final_None) (auto simp: mod_running_def filter_empty_conv)
  next
    case (Some ps)
    then show ?thesis
      using assms ds(1) fields by (intro cleanup_final_Some [where ps = ps]) (auto simp: mod_running_def)
  qed
  then show ?thesis unfolding eq using fields(2,3) by auto
qed

section \<open>Starting\<close>

text \<open>The device an index gets.\<close>

definition dev_fresh :: "scull_globals \<Rightarrow> scull_dev" where
  "dev_fresh g = dev_zero\<lparr>quantum_len := scull_quantum g, qset_len := scull_qset g\<rparr>"

lemma init_devices_eq:
  "\<exists>ds cd. init_devices k n i m = (ds, m\<lparr>m_cdevs := cd\<rparr>) \<and> set cd \<subseteq> set (m_cdevs m) \<union> dev_numbers ds \<and>
     length ds = n - i \<and> (\<forall>d \<in> set ds. d_dev d = dev_fresh (m_g m))"
proof (induction "n - i" arbitrary: i m)
  case 0
  then have "init_devices k n i m = ([], m\<lparr>m_cdevs := m_cdevs m\<rparr>)" by (subst init_devices.simps) simp
  then show ?case using 0 by force
next
  case (Suc j)
  obtain c cd1 where c: "scull_setup_cdev k i m = (c, m\<lparr>m_cdevs := cd1\<rparr>)" "set cd1 \<subseteq> set (m_cdevs m) \<union> added c"
  proof (cases "k_cdev_add k (MKDEV (scull_major (m_g m)) (scull_minor (m_g m) + int i)) = 0")
    case True
    then show ?thesis by (intro that) (auto simp: scull_setup_cdev_def set_cdev_ops_def cdev_defs added_def Let_def)
  next
    case False
    then show ?thesis by (intro that [of "Cdev_init scull_fops" "m_cdevs m"]) (auto simp: scull_setup_cdev_def set_cdev_ops_def cdev_defs Let_def)
  qed
  have j: "j = n - Suc i" using Suc.hyps(2) by simp
  from Suc.hyps(1) [OF j, of "m\<lparr>m_cdevs := cd1\<rparr>"] obtain ds cd where
    ds: "init_devices k n (Suc i) (m\<lparr>m_cdevs := cd1\<rparr>) = (ds, m\<lparr>m_cdevs := cd\<rparr>)" "set cd \<subseteq> set cd1 \<union> dev_numbers ds"
      "length ds = n - Suc i" "\<forall>d \<in> set ds. d_dev d = dev_fresh (m_g m)" by auto
  have "init_devices k n i m = (\<lparr>d_dev = dev_fresh (m_g m), d_cdev = c\<rparr> # ds, m\<lparr>m_cdevs := cd\<rparr>)"
    by (subst init_devices.simps) (use Suc.hyps(2) c(1) ds(1) in \<open>simp add: dev_fresh_def\<close>)
  then show ?case using c(2) ds(2-4) Suc.hyps(2) by (force simp: dev_numbers_def)
qed

lemma init_pipes_eq:
  "\<exists>ps cd. init_pipes k n i m = (ps, m\<lparr>m_cdevs := cd\<rparr>) \<and> set cd \<subseteq> set (m_cdevs m) \<union> pipe_numbers ps \<and>
     map d_pipe ps = map (\<lambda>j. pipe_zero (of_nat j)) [i..<n]"
proof (induction "n - i" arbitrary: i m)
  case 0
  then have "init_pipes k n i m = ([], m\<lparr>m_cdevs := m_cdevs m\<rparr>)" by (subst init_pipes.simps) simp
  then show ?case using 0 by force
next
  case (Suc j)
  obtain c cd1 where c: "scull_p_setup_cdev k i m = (c, m\<lparr>m_cdevs := cd1\<rparr>)" "set cd1 \<subseteq> set (m_cdevs m) \<union> added c"
  proof (cases "k_cdev_add k (m_p_dev m + of_nat i) = 0")
    case True
    then show ?thesis by (intro that) (auto simp: scull_p_setup_cdev_def cdev_defs added_def Let_def)
  next
    case False
    then show ?thesis by (intro that [of "Cdev_init scull_pipe_fops" "m_cdevs m"]) (auto simp: scull_p_setup_cdev_def cdev_defs Let_def)
  qed
  have j: "j = n - Suc i" using Suc.hyps(2) by simp
  from Suc.hyps(1) [OF j, of "m\<lparr>m_cdevs := cd1\<rparr>"] obtain ps cd where
    ps: "init_pipes k n (Suc i) (m\<lparr>m_cdevs := cd1\<rparr>) = (ps, m\<lparr>m_cdevs := cd\<rparr>)" "set cd \<subseteq> set cd1 \<union> pipe_numbers ps"
      "map d_pipe ps = map (\<lambda>j. pipe_zero (of_nat j)) [Suc i..<n]" by auto
  have "init_pipes k n i m = (\<lparr>d_pipe = pipe_zero (of_nat i), d_pcdev = c\<rparr> # ps, m\<lparr>m_cdevs := cd\<rparr>)"
    by (subst init_pipes.simps) (use Suc.hyps(2) c(1) ps(1) in simp)
  then show ?case using c(2) ps(2-3) Suc.hyps(2) by (force simp: pipe_numbers_def upt_conv_Cons)
qed

lemma zero_bufs_ok: "\<forall>p \<in> set ps. p_buf (d_pipe p) = 0 \<Longrightarrow> pipe_bufs_ok h ps"
  by (induction ps) auto

lemma scull_p_init_eq:
  assumes "m_p_devices m = None"
  shows "(\<exists>d rs. scull_p_init k dev m = (0, m\<lparr>m_p_dev := d, m_regions := rs\<rparr>) \<and> set rs \<subseteq> set (m_regions m)) \<or>
    (\<exists>ps cd. scull_p_init k dev m = (scull_p_nr_devs (m_g m), m\<lparr>m_p_dev := dev, m_p_devices := Some ps, m_cdevs := cd,
         m_regions := (dev, scull_p_nr_devs (m_g m)) # m_regions m\<rparr>) \<and>
       set cd \<subseteq> set (m_cdevs m) \<union> pipe_numbers ps \<and>
       map d_pipe ps = map (\<lambda>j. pipe_zero (of_nat j)) [0..<unat (scull_p_nr_devs (m_g m))])"
proof -
  let ?n = "scull_p_nr_devs (m_g m)"
  consider (noreg) "k_register_chrdev_region k dev ?n < 0"
    | (nomem) "\<not> k_register_chrdev_region k dev ?n < 0" "\<not> k_kmalloc_pipes k"
    | (ok) "\<not> k_register_chrdev_region k dev ?n < 0" "k_kmalloc_pipes k" by blast
  then show ?thesis
  proof cases
    case noreg
    then have "scull_p_init k dev m = (0, m\<lparr>m_p_dev := m_p_dev m, m_regions := m_regions m\<rparr>)"
      by (simp add: scull_p_init_def register_region_def Let_def)
    then show ?thesis by blast
  next
    case nomem
    have "m\<lparr>m_p_dev := dev, m_p_devices := None\<rparr> = m\<lparr>m_p_dev := dev\<rparr>" using assms by (cases m) simp
    then have "scull_p_init k dev m = (0, m\<lparr>m_p_dev := dev, m_regions := removeAll (dev, ?n) (m_regions m)\<rparr>)"
      using nomem by (simp add: scull_p_init_def register_region_def unregister_region_def Let_def)
    moreover have "set (removeAll (dev, ?n) (m_regions m)) \<subseteq> set (m_regions m)" by auto
    ultimately show ?thesis by blast
  next
    case ok
    let ?m = "m\<lparr>m_regions := (dev, ?n) # m_regions m, m_p_dev := dev\<rparr>"
    obtain ps cd where ps: "init_pipes k (unat ?n) 0 ?m = (ps, ?m\<lparr>m_cdevs := cd\<rparr>)" "set cd \<subseteq> set (m_cdevs ?m) \<union> pipe_numbers ps"
       "map d_pipe ps = map (\<lambda>j. pipe_zero (of_nat j)) [0..<unat ?n]"
      using init_pipes_eq by blast
    have "scull_p_init k dev m = (?n, m\<lparr>m_p_dev := dev, m_p_devices := Some ps, m_cdevs := cd, m_regions := (dev, ?n) # m_regions m\<rparr>)"
      using ok ps(1) by (simp add: scull_p_init_def register_region_def Let_def)
    then show ?thesis using ps(2,3) by auto
  qed
qed

text \<open>The registration of the device numbers, static or dynamic.\<close>

lemma scull_region_eq:
  assumes "mod_idle m" and "alloc_region_ok k"
  shows "\<exists>ret major rs. (if scull_major (m_g m) \<noteq> 0
      then register_region k (MKDEV (scull_major (m_g m)) (scull_minor (m_g m))) (scull_nr_devs (m_g m)) m
      else let (ret, dev, m') = alloc_region k (scull_minor (m_g m)) (scull_nr_devs (m_g m)) m
           in (ret, m'\<lparr>m_g := (m_g m)\<lparr>scull_major := MAJOR dev\<rparr>\<rparr>)) =
      (ret, m\<lparr>m_g := (m_g m)\<lparr>scull_major := major\<rparr>, m_regions := rs\<rparr>) \<and>
    rs = (if ret < 0 then [] else [(MKDEV major (scull_minor (m_g m)), scull_nr_devs (m_g m))])"
proof (cases "scull_major (m_g m) = 0")
  case False
  have "(m_g m)\<lparr>scull_major := scull_major (m_g m)\<rparr> = m_g m" by simp
  then show ?thesis
    using False assms(1) by (intro exI [of _ "k_register_chrdev_region k (MKDEV (scull_major (m_g m)) (scull_minor (m_g m))) (scull_nr_devs (m_g m))"]
      exI [of _ "scull_major (m_g m)"]) (auto simp: register_region_def mod_idle_def mod_gone_defs)
next
  case True
  obtain ret dev where a: "k_alloc_chrdev_region k (scull_minor (m_g m)) (scull_nr_devs (m_g m)) = (ret, dev)" by force
  have "0 \<le> ret \<Longrightarrow> MKDEV (MAJOR dev) (scull_minor (m_g m)) = dev"
    using assms a unfolding alloc_region_ok_def mod_idle_def by blast
  then show ?thesis
    using True assms(1) a by (intro exI [of _ ret] exI [of _ "MAJOR dev"]) (auto simp: alloc_region_def mod_idle_def mod_gone_defs)
qed

definition pipes_fresh :: "scull_mod \<Rightarrow> bool" where
  "pipes_fresh m \<longleftrightarrow> (case m_p_devices m of None \<Rightarrow> True
     | Some ps \<Rightarrow> map d_pipe ps = map (\<lambda>j. pipe_zero (of_nat j)) [0..<unat (scull_p_nr_devs (m_g m))])"

definition devs_fresh :: "scull_mod \<Rightarrow> bool" where
  "devs_fresh m \<longleftrightarrow> (\<exists>ds. m_devices m = Some ds \<and> map d_dev ds = replicate (unat (scull_nr_devs (m_g m))) (dev_fresh (m_g m)))"

lemma scull_init_rest_eq:
  assumes "m_devices m = None" "\<not> m_cache m" "m_p_devices m = None" "m_cdevs m = []"
    "m_regions m = [(MKDEV (scull_major (m_g m)) (scull_minor (m_g m)), scull_nr_devs (m_g m))]"
  shows "\<exists>ret m1. scull_init_rest k m = Inr (ret, m1) \<and>
    (if ret = 0 then mod_running m1 \<and> devs_fresh m1 \<and> pipes_fresh m1 \<and> m_g m1 = m_g m \<and> m_heap m1 = m_heap m else mod_gone m1)"
proof -
  let ?n = "scull_nr_devs (m_g m)"
  let ?zero = "m\<lparr>m_devices := Some (replicate (unat ?n) \<lparr>d_dev = dev_zero, d_cdev = Cdev_zero\<rparr>), m_freed := False\<rparr>"
  consider (nodev) "\<not> k_kcalloc_devices k" | (nocache) "k_kcalloc_devices k" "\<not> k_kmem_cache_create k (scull_quantum (m_g m))"
    | (ok) "k_kcalloc_devices k" "k_kmem_cache_create k (scull_quantum (m_g m))" by blast
  then show ?thesis
  proof cases
    case nodev
    obtain m' where m': "cleanup_final (m\<lparr>m_devices := None\<rparr>) = Inr m'" "mod_gone m'"
      using cleanup_final_None [of "m\<lparr>m_devices := None\<rparr>"] assms by (auto simp: mod_gone_def)
    then have "scull_init_rest k m = Inr (- ENOMEM, m')"
      using nodev by (simp add: scull_init_rest_def scull_cleanup_module_def)
    then show ?thesis using m'(2) by (intro exI [of _ "- ENOMEM"] exI [of _ m']) simp
  next
    case nocache
    have "mod_running (?zero\<lparr>m_kmc := False\<rparr>)" using assms by (simp add: mod_running_def dev_zero_def)
    from scull_cleanup_running [OF this, of "replicate (unat ?n) \<lparr>d_dev = dev_zero, d_cdev = Cdev_zero\<rparr>" k] obtain m' where
      m': "scull_cleanup_module k (?zero\<lparr>m_kmc := False\<rparr>) = Inr m'" "mod_gone m'"
      using assms(2) by (auto simp: mod_gone_def)
    then have "scull_init_rest k m = Inr (- ENOMEM, m')" using nocache by (simp add: scull_init_rest_def Let_def)
    then show ?thesis using m'(2) by (intro exI [of _ "- ENOMEM"] exI [of _ m']) simp
  next
    case ok
    let ?m = "?zero\<lparr>m_kmc := True, m_cache := True\<rparr>"
    obtain ds cd where ds: "init_devices k (unat ?n) 0 ?m = (ds, ?m\<lparr>m_cdevs := cd\<rparr>)" "set cd \<subseteq> dev_numbers ds"
        "length ds = unat ?n" "\<forall>d \<in> set ds. d_dev d = dev_fresh (m_g m)"
      using init_devices_eq [of k "unat ?n" 0 ?m] assms(4) by auto
    have fresh: "map d_dev ds = replicate (unat ?n) (dev_fresh (m_g m))" 
      using ds(3,4) by (intro replicate_eqI) auto
    have lock: "\<forall>d \<in> set ds. dev_lock (d_dev d) = mutex_init" using ds(4) by (simp add: dev_fresh_def dev_zero_def)
    let ?m2 = "?m\<lparr>m_cdevs := cd, m_devices := Some ds\<rparr>"
    let ?dev = "MKDEV (scull_major (m_g m)) (scull_minor (m_g m) + int (unat ?n))"
    let ?fin = "(snd (scull_p_init k ?dev ?m2))\<lparr>m_proc := scull_create_proc (m_proc (snd (scull_p_init k ?dev ?m2)))\<rparr>"
    have eq: "scull_init_rest k m = Inr (0, ?fin)"
      using ok ds(1) by (simp add: scull_init_rest_def Let_def split_beta)
    have none: "m_p_devices ?m2 = None" using assms(3) by simp
    have "mod_running ?fin \<and> devs_fresh ?fin \<and> pipes_fresh ?fin \<and> m_g ?fin = m_g m \<and> m_heap ?fin = m_heap m"
      using scull_p_init_eq [OF none, of k ?dev]
    proof (elim disjE exE conjE)
      fix d rs
      assume "scull_p_init k ?dev ?m2 = (0, ?m2\<lparr>m_p_dev := d, m_regions := rs\<rparr>)" "set rs \<subseteq> set (m_regions ?m2)"
      then show ?thesis
        using assms(3,5) ds(2) lock fresh by (simp add: mod_running_def devs_fresh_def pipes_fresh_def)
    next
      fix ps cd'
      assume p: "scull_p_init k ?dev ?m2 = (scull_p_nr_devs (m_g ?m2), ?m2\<lparr>m_p_dev := ?dev, m_p_devices := Some ps, m_cdevs := cd',
          m_regions := (?dev, scull_p_nr_devs (m_g ?m2)) # m_regions ?m2\<rparr>)"
        "set cd' \<subseteq> set (m_cdevs ?m2) \<union> pipe_numbers ps"
        "map d_pipe ps = map (\<lambda>j. pipe_zero (of_nat j)) [0..<unat (scull_p_nr_devs (m_g ?m2))]"
      have "d_pipe p \<in> set (map d_pipe ps)" if "p \<in> set ps" for p using that by simp
      then have "p_buf (d_pipe p) = 0" if "p \<in> set ps" for p
        using that unfolding p(3) by (fastforce simp: pipe_zero_def)
      then have "pipe_bufs_ok (m_p_heap m) ps" by (intro zero_bufs_ok) blast
      then show ?thesis
        using p assms(5) ds(2) lock fresh by (auto simp: mod_running_def devs_fresh_def pipes_fresh_def)
    qed
    then show ?thesis using eq by (intro exI [of _ 0] exI [of _ ?fin]) simp
  qed
qed

text \<open>
  A fresh device satisfies the invariant of the bare device, for slab objects of the size the cache
  was created with.
\<close>

lemma dev_fresh_wf:
  assumes "0 < scull_quantum g" and "0 < scull_qset g" and "unat (scull_quantum g) * unat (scull_qset g) < 2 ^ 64"
  shows "dev_wf (unat (scull_quantum g)) (dev_fresh g) s"
  using assms by (simp add: dev_wf_def geom_ok_def store_wf_def dev_fresh_def dev_zero_def quantum_at_def)

lemma trim_all_fresh: "\<forall>d \<in> set ds. d_dev d = dev_fresh g \<Longrightarrow> trim_all k ds h = h"
proof (induction ds arbitrary: h)
  case (Cons d ds)
  have "qset (d_dev d) = []" using Cons.prems by (simp add: dev_fresh_def dev_zero_def)
  then have "trim_all k (d # ds) h = trim_all k ds h" by (simp add: trim_all_def)
  then show ?case using Cons.IH Cons.prems by (metis list.set_intros(2))
qed (simp add: trim_all_def)

text \<open>The outcome of the start.\<close>

lemma scull_init_outcome:
  assumes "mod_idle m" and "alloc_region_ok k"
  shows "\<exists>ret m1. scull_init_module k m = Inr (ret, m1) \<and>
    (if ret \<noteq> 0 then mod_gone m1
     else mod_running m1 \<and> devs_fresh m1 \<and> pipes_fresh m1 \<and> m_heap m1 = m_heap m \<and> (\<exists>major. m_g m1 = (m_g m)\<lparr>scull_major := major\<rparr>))"
proof -
  obtain ret major rs where reg: "(if scull_major (m_g m) \<noteq> 0
      then register_region k (MKDEV (scull_major (m_g m)) (scull_minor (m_g m))) (scull_nr_devs (m_g m)) m
      else let (ret, dev, m') = alloc_region k (scull_minor (m_g m)) (scull_nr_devs (m_g m)) m
           in (ret, m'\<lparr>m_g := (m_g m)\<lparr>scull_major := MAJOR dev\<rparr>\<rparr>)) =
      (ret, m\<lparr>m_g := (m_g m)\<lparr>scull_major := major\<rparr>, m_regions := rs\<rparr>)"
    and rs: "rs = (if ret < 0 then [] else [(MKDEV major (scull_minor (m_g m)), scull_nr_devs (m_g m))])"
    using scull_region_eq [OF assms] by blast
  let ?m = "m\<lparr>m_g := (m_g m)\<lparr>scull_major := major\<rparr>, m_regions := rs\<rparr>"
  have init: "scull_init_module k m = (if ret < 0 then Inr (ret, ?m) else scull_init_rest k ?m)"
    unfolding scull_init_module_def Let_def [of "m_g m"] Let_def [of "scull_nr_devs (m_g m)"] reg by simp
  show ?thesis
  proof (cases "ret < 0")
    case True
    then have "mod_gone ?m" using assms(1) rs by (simp add: mod_idle_def mod_gone_defs)
    then show ?thesis using True init by (intro exI [of _ ret] exI [of _ ?m]) simp
  next
    case False
    have "\<exists>ret m1. scull_init_rest k ?m = Inr (ret, m1) \<and>
      (if ret = 0 then mod_running m1 \<and> devs_fresh m1 \<and> pipes_fresh m1 \<and> m_g m1 = m_g ?m \<and> m_heap m1 = m_heap ?m else mod_gone m1)"
      using assms(1) rs False by (intro scull_init_rest_eq) (simp_all add: mod_idle_def mod_gone_defs)
    then show ?thesis unfolding init using False by (auto split: if_splits)
  qed
qed

text \<open>
  C12: The start of the module, whatever the kernel refuses: it ends without a fault; an error leaves
  no device number, no character device, no cache, no pipe and no proc file behind; success leaves a
  running module in which every device satisfies the invariant of the bare device (for parameters
  that are not zero and do not overflow), and the end of that module releases everything.
\<close>

theorem scull_module_lifecycle:
  assumes "mod_idle m" and "mod_kernel_ok k"
  shows "\<exists>ret m1. scull_init_module k m = Inr (ret, m1) \<and>
    (if ret \<noteq> 0 then mod_gone m1
     else mod_running m1 \<and> (\<exists>m2. scull_cleanup_module k m1 = Inr m2 \<and> mod_gone m2) \<and>
       (\<exists>ds. m_devices m1 = Some ds \<and> length ds = unat (scull_nr_devs (m_g m)) \<and>
         (0 < scull_quantum (m_g m) \<and> 0 < scull_qset (m_g m) \<and>
          unat (scull_quantum (m_g m)) * unat (scull_qset (m_g m)) < 2 ^ 64 \<longrightarrow>
          (\<forall>d \<in> set ds. dev_wf (unat (scull_quantum (m_g m))) (d_dev d) (slab (m_heap m1))))))"
proof -
  obtain ret m1 where r: "scull_init_module k m = Inr (ret, m1)"
    "if ret \<noteq> 0 then mod_gone m1
     else mod_running m1 \<and> devs_fresh m1 \<and> pipes_fresh m1 \<and> m_heap m1 = m_heap m \<and> (\<exists>major. m_g m1 = (m_g m)\<lparr>scull_major := major\<rparr>)"
    using scull_init_outcome [OF assms(1), of k] assms(2) by (auto simp: mod_kernel_ok_def)
  show ?thesis
  proof (cases "ret = 0")
    case True
    then obtain major where run: "mod_running m1" "devs_fresh m1" "m_g m1 = (m_g m)\<lparr>scull_major := major\<rparr>"
      and heap: "m_heap m1 = m_heap m" using r(2) by auto
    obtain ds where ds: "m_devices m1 = Some ds" "map d_dev ds = replicate (unat (scull_nr_devs (m_g m))) (dev_fresh (m_g m1))"
      using run(2,3) by (auto simp: devs_fresh_def)
    have len: "length ds = unat (scull_nr_devs (m_g m))" using arg_cong [OF ds(2), of length] by simp
    have "d_dev d = dev_fresh (m_g m1)" if "d \<in> set ds" for d
      using that ds(2) by (metis in_set_replicate list.set_map image_eqI)
    then have fresh: "\<forall>d \<in> set ds. d_dev d = dev_fresh (m_g m1)" by blast
    obtain m2 where "scull_cleanup_module k m1 = Inr m2" "mod_released m2" "m_heap m2 = trim_all (k_scull k) ds (m_heap m1)"
        "m_cache m2 \<longleftrightarrow> m_cache m1 \<and> \<not> k_kmem_cache_destroy k (slab (m_heap m2))"
      using scull_cleanup_running [OF run(1) ds(1), of k] by blast
    then have m2: "scull_cleanup_module k m1 = Inr m2" "mod_gone m2"
      using assms heap trim_all_fresh [OF fresh] by (auto simp: mod_gone_def mod_kernel_ok_def mod_idle_def)
    show ?thesis
      using fresh run m2 ds(1) len r(1) True dev_fresh_wf [of "m_g m1"] by (intro exI [of _ 0] exI [of _ m1]) auto
  next
    case False
    then show ?thesis using r by (intro exI [of _ ret] exI [of _ m1]) simp
  qed
qed

definition demo_slab_kernel :: scull_kernel where
  "demo_slab_kernel = \<lparr>k_mutex_lock_interruptible = 0, k_kcalloc_qset = (\<lambda>_. True), k_kcalloc_data = True,
     k_kmem_cache_alloc = (\<lambda>_. None), k_kmem_cache_free_bulk = (\<lambda>_ _ s. s),
     k_copy_to_user = (\<lambda>bs. (bs, 0)), k_copy_from_user = (\<lambda>src n. (take (unat n) src, 0))\<rparr>"

definition demo_mod_kernel :: mod_kernel where
  "demo_mod_kernel = \<lparr>k_scull = demo_slab_kernel, k_register_chrdev_region = (\<lambda>_ _. 0), k_alloc_chrdev_region = (\<lambda>_ _. (-16, 0)),
     k_kcalloc_devices = True, k_kmem_cache_create = (\<lambda>_. True),
     k_kmem_cache_destroy = (\<lambda>s. s = Map.empty), k_cdev_add = (\<lambda>_. 0), k_kmalloc_pipes = True\<rparr>"

definition demo_mod :: scull_mod where
  "demo_mod = \<lparr>m_g = scull_globals_init\<lparr>scull_major := 240, scull_nr_devs := 1, scull_p_nr_devs := 1\<rparr>, m_devices = None, m_freed = False,
     m_kmc = False, m_cache = False, m_heap = \<lparr>slab = Map.empty, kmallocs = 0\<rparr>, m_p_dev = 0, m_p_devices = None,
     m_p_heap = Map.empty, m_regions = [], m_cdevs = [], m_proc = [], m_warns = []\<rparr>"

lemma demo_mod_ok: "mod_idle demo_mod" "mod_kernel_ok demo_mod_kernel"
  by (simp_all add: mod_idle_def mod_gone_defs demo_mod_def scull_globals_init_def mod_kernel_ok_def alloc_region_ok_def demo_mod_kernel_def)

theorem scull_module_lifecycle_witness:
  "\<exists>m1 m2. scull_init_module demo_mod_kernel demo_mod = Inr (0, m1) \<and> m_regions m1 \<noteq> [] \<and>
     scull_cleanup_module demo_mod_kernel m1 = Inr m2 \<and> mod_gone m2"
proof -
  have "map_sum id (\<lambda>(r, m). (r, m_regions m \<noteq> [])) (scull_init_module demo_mod_kernel demo_mod) = Inr (0, True)"
    by (simp add: scull_init_module_def scull_init_rest_def register_region_def scull_p_init_def
      init_devices.simps init_pipes.simps scull_setup_cdev_def scull_p_setup_cdev_def cdev_defs set_cdev_ops_def
      demo_mod_kernel_def demo_mod_def scull_globals_init_def Let_def split_beta)
  then show ?thesis using scull_module_lifecycle [OF demo_mod_ok] by auto
qed

end
