(* ===== verification/Scull_Dev_Props.thy ===== *)
theory Scull_Dev_Props
  imports Scull_Dev_Correct
begin

text \<open>
  The properties of the scull bare device, each with a witness on a concrete kernel. The device
  refines a plain byte list (\<open>content\<close>) as long as nobody writes past the end, and a loop of
  reads delivers that list; \<open>demo_kernel\<close> is one kernel that behaves as documented.
\<close>

section \<open>A kernel for the witnesses\<close>

definition demo_kernel :: scull_kernel where
  "demo_kernel = \<lparr>k_mutex_lock_interruptible = 0,
     k_kcalloc_qset = (\<lambda>_. True), k_kcalloc_data = True,
     k_kmem_cache_alloc = (\<lambda>s. if s 4096 = None then Some (4096, [0, 0, 0, 0])
        else if s 8192 = None then Some (8192, [0, 0, 0, 0]) else None),
     k_kmem_cache_free_bulk = (\<lambda>n d s a. if Some a \<in> set (take (unat n) d) then None else s a),
     k_copy_to_user = (\<lambda>bs. (bs, 0)),
     k_copy_from_user = (\<lambda>src n. (take (unat n) src, 0))\<rparr>"

lemma demo_kernel_ok:
  "slab_alloc_ok 4 demo_kernel" "free_bulk_ok demo_kernel"
  "copy_to_user_ok demo_kernel" "copy_from_user_ok demo_kernel"
  by (auto simp: demo_kernel_def slab_alloc_ok_def free_bulk_ok_def copy_to_user_ok_def
      copy_from_user_ok_def restrict_map_def fun_eq_iff split: if_splits)

text \<open>An empty device with quanta of four bytes and two quanta to the set, and one that holds
  five bytes in its two quanta.\<close>

definition demo_dev :: scull_dev where
  "demo_dev = \<lparr>qset = [], quantum_len = 4, qset_len = 2, dev_len = 0, access_key = 0,
     dev_lock = mutex_init\<rparr>"

definition demo_full :: scull_dev where
  "demo_full = demo_dev\<lparr>qset := [\<lparr>q_data = Some [Some 4096, Some 8192]\<rparr>], dev_len := 5\<rparr>"

definition demo_slab :: slab_map where
  "demo_slab = [4096 \<mapsto> [104, 101, 108, 108], 8192 \<mapsto> [111, 0, 0, 0]]"

definition demo_heap :: scull_heap where
  "demo_heap = \<lparr>slab = Map.empty, kmallocs = 0\<rparr>"

lemma demo_dev_wf: "dev_wf 4 demo_dev (slab demo_heap)"
  by (simp add: dev_wf_def geom_ok_def demo_dev_def)

lemma quantum_at_demo_full:
  "quantum_at demo_full ij = (if ij = (0, 0) then Some 4096 else if ij = (0, 1) then Some 8192 else None)"
  by (cases ij) (auto simp: quantum_at_def demo_full_def demo_dev_def less_Suc_eq)

lemma demo_full_wf: "dev_wf 4 demo_full demo_slab"
proof -
  have "store_wf 4 demo_full demo_slab"
    unfolding store_wf_def quantum_at_demo_full
    by (auto simp: demo_full_def demo_dev_def demo_slab_def split: if_splits)
  then show ?thesis by (simp add: dev_wf_def geom_ok_def demo_full_def demo_dev_def)
qed

section \<open>The device as a byte list\<close>

definition dense :: "scull_dev \<Rightarrow> slab_map \<Rightarrow> bool" where
  "dense dev s \<longleftrightarrow> (\<forall>p < unat (dev_len dev). dev_byte dev s p \<noteq> None)"

definition content :: "scull_dev \<Rightarrow> slab_map \<Rightarrow> byte list" where
  "content dev s = map (\<lambda>p. the (dev_byte dev s p)) [0 ..< unat (dev_len dev)]"

text \<open>
  A reader of a positioned byte file: each call returns a prefix of what follows the position,
  and not the empty one before the end. The loop of a client that reads to the end is
  \<open>read_all\<close>; its fuel counts calls, and one call per byte is always enough.
\<close>

fun read_all :: "(nat \<Rightarrow> byte list) \<Rightarrow> nat \<Rightarrow> nat \<Rightarrow> byte list option" where
  "read_all rd 0 p = None"
| "read_all rd (Suc fuel) p =
     (let bs = rd p in
      if bs = [] then Some [] else map_option ((@) bs) (read_all rd fuel (p + length bs)))"

locale file_reader =
  fixes ok :: "'s \<Rightarrow> bool"
    and rd :: "'s \<Rightarrow> nat \<Rightarrow> byte list"
    and bytes :: "'s \<Rightarrow> byte list"
  assumes rd_prefix: "ok s \<Longrightarrow> p \<le> length (bytes s) \<Longrightarrow> rd s p = take (length (rd s p)) (drop p (bytes s))"
    and rd_progress: "ok s \<Longrightarrow> p < length (bytes s) \<Longrightarrow> rd s p \<noteq> []"
begin

lemma rd_end: "ok s \<Longrightarrow> rd s (length (bytes s)) = []"
  using rd_prefix [of s "length (bytes s)"] by simp

lemma rd_length: "ok s \<Longrightarrow> p \<le> length (bytes s) \<Longrightarrow> p + length (rd s p) \<le> length (bytes s)"
  using arg_cong [OF rd_prefix [of s p], of length] by simp

lemma read_all_file:
  "length (bytes s) - p < fuel \<Longrightarrow> ok s \<Longrightarrow> p \<le> length (bytes s) \<Longrightarrow>
     read_all (rd s) fuel p = Some (drop p (bytes s))"
proof (induction fuel arbitrary: p)
  case 0
  then show ?case by simp
next
  case (Suc fuel)
  show ?case
  proof (cases "p = length (bytes s)")
    case True
    then show ?thesis using Suc.prems by (simp add: rd_end)
  next
    case False
    with Suc.prems have ne: "rd s p \<noteq> []" using rd_progress [of s p] by simp
    then have "0 < length (rd s p)" by simp
    with Suc.prems False have "length (bytes s) - (p + length (rd s p)) < fuel" by linarith
    with Suc.prems have "read_all (rd s) fuel (p + length (rd s p)) = Some (drop (p + length (rd s p)) (bytes s))"
      by (intro Suc.IH rd_length)
    moreover have "rd s p @ drop (p + length (rd s p)) (bytes s) = drop p (bytes s)"
      using rd_prefix [OF Suc.prems(2,3)]
      by (metis append_take_drop_id drop_drop add.commute)
    ultimately show ?thesis using ne by simp
  qed
qed

end

text \<open>What one read call on the device delivers at a position, as the client sees it.\<close>

definition read_bytes :: "scull_kernel \<Rightarrow> scull_dev \<Rightarrow> scull_heap \<Rightarrow> size_t \<Rightarrow> nat \<Rightarrow> byte list" where
  "read_bytes k dev h count p =
     (case scull_read k dev h count (of_nat p) of
        Inr (ret, out, _) \<Rightarrow> if 0 < ret then out else []
      | Inl _ \<Rightarrow> [])"

lemma length_content [simp]: "length (content dev s) = unat (dev_len dev)"
  by (simp add: content_def)

lemma spec_read_content:
  assumes "dense dev s" and "p < unat (dev_len dev)" and "m \<le> unat (dev_len dev) - p"
  shows "map (\<lambda>x. the (dev_byte dev s x)) [p ..< p + m] = sub_block p m (content dev s)"
proof (rule nth_equalityI)
  fix i
  assume "i < length (map (\<lambda>x. the (dev_byte dev s x)) [p ..< p + m])"
  then have "i < m" and "p + i < unat (dev_len dev)" using assms by auto
  then show "map (\<lambda>x. the (dev_byte dev s x)) [p ..< p + m] ! i = sub_block p m (content dev s) ! i"
    by (simp add: nth_sub_block) (simp add: content_def)
qed (use assms in simp)

lemma read_bytes_content:
  assumes wf: "dev_wf objsz dev (slab h)" and d: "dense dev (slab h)"
    and args: "rw_args_ok count (of_nat p)" "p < 2 ^ 63" and c: "copy_to_user_ok k"
    and ok: "k_mutex_lock_interruptible k = 0" "\<forall>bs. snd (k_copy_to_user k bs) = 0"
    and q: "q = unat (quantum_len dev)"
  shows "read_bytes k dev h count p =
    sub_block p (min (unat count) (q - p mod q)) (content dev (slab h))"
proof (cases "unat (dev_len dev) \<le> p")
  case True
  then have "unat (dev_len dev) \<le> unat (of_nat p :: loff_t)"
    using args(2) by (simp add: unat_of_nat_small)
  with True ok show ?thesis
    by (simp add: read_bytes_def scull_read_spec [OF wf args(1) c] sub_block_def)
next
  case False
  let ?m = "min (min (unat count) (unat (dev_len dev) - p)) (q - p mod q)"
  have u: "unat (of_nat p :: loff_t) = p" using args(2) by (simp add: unat_of_nat_small)
  have b: "dev_byte dev (slab h) p \<noteq> None" using d False by (simp add: dense_def)
  have "map (\<lambda>x. the (dev_byte dev (slab h) x)) [p ..< p + ?m] = sub_block p ?m (content dev (slab h))"
    using d False by (intro spec_read_content) auto
  also have "\<dots> = sub_block p (min (unat count) (q - p mod q)) (content dev (slab h))"
    by (simp add: sub_block_def take_drop min.commute min.left_commute) (simp add: min_def)
  finally have out: "spec_read (dev_byte dev (slab h)) (unat (dev_len dev)) q (unat count) p =
      sub_block p (min (unat count) (q - p mod q)) (content dev (slab h))"
    using b False by (auto simp: spec_read_def)
  show ?thesis
    using ok b False
    by (auto simp: read_bytes_def scull_read_spec [OF wf args(1) c] u out [unfolded q] q sub_block_def)
qed

lemma write_outcome_ok:
  assumes "write_outcome dev s buf count f_pos ret f_pos' dev' s'" and "0 \<le> ret"
  shows "ret = int (write_len dev count f_pos)" "f_pos' = f_pos + of_nat (write_len dev count f_pos)"
    "dev_len dev' = max (dev_len dev) f_pos'"
    "spec_write (dev_byte dev s) (unat f_pos) (take (write_len dev count f_pos) buf) (dev_byte dev' s')"
    "geom dev' = geom dev"
  using assms by (auto simp: write_outcome_def Let_def)

lemma unat_write_end:
  "rw_args_ok count f_pos \<Longrightarrow>
     unat (f_pos + of_nat (write_len dev count f_pos)) = unat f_pos + write_len dev count f_pos"
proof -
  assume a: "rw_args_ok count f_pos"
  then have "write_len dev count f_pos < 2 ^ 63" by (auto simp: rw_args_ok_def write_len_def)
  moreover from this have "unat (of_nat (write_len dev count f_pos) :: loff_t) = write_len dev count f_pos"
    by (intro unat_of_nat_small) simp
  ultimately show ?thesis using a by (simp add: rw_args_ok_def unat_word_ariths)
qed

text \<open>A write inside or at the end of a dense device, seen on the byte list.\<close>

lemma spec_write_content:
  assumes d: "dense dev s" and p: "p \<le> unat (dev_len dev)"
    and l: "unat (dev_len dev') = max (unat (dev_len dev)) (p + length bs)"
    and w: "spec_write (dev_byte dev s) p bs (dev_byte dev' s')"
  shows "dense dev' s'" and "content dev' s' = blit (content dev s) p bs"
proof -
  have byte: "dev_byte dev' s' x = Some (if p \<le> x \<and> x < p + length bs then bs ! (x - p) else content dev s ! x)"
    if x: "x < unat (dev_len dev')" for x
  proof (cases "p \<le> x \<and> x < p + length bs")
    case True
    then obtain i where "x = p + i" "i < length bs" using nat_le_iff_add by auto
    with w show ?thesis by (simp add: spec_write_def)
  next
    case False
    with x l p have xl: "x < unat (dev_len dev)" by (auto simp: max_def split: if_splits)
    then obtain v where v: "dev_byte dev s x = Some v" using d by (auto simp: dense_def)
    moreover have "content dev s ! x = v" using xl v by (simp add: content_def)
    ultimately show ?thesis using False w by (auto simp: spec_write_def)
  qed
  then show "dense dev' s'" by (simp add: dense_def)
  show "content dev' s' = blit (content dev s) p bs"
  proof (rule nth_equalityI)
    show "length (content dev' s') = length (blit (content dev s) p bs)"
      using p l by (auto simp: blit_def max_def)
    fix x
    assume "x < length (content dev' s')"
    then have x: "x < unat (dev_len dev')" by simp
    have "content dev' s' ! x = the (dev_byte dev' s' x)" using x by (simp add: content_def)
    also have "\<dots> = (if p \<le> x \<and> x < p + length bs then bs ! (x - p) else content dev s ! x)"
      using byte [OF x] by simp
    also have "\<dots> = blit (content dev s) p bs ! x"
      using x l p by (auto simp: blit_def nth_append min_def max_def split: if_splits)
    finally show "content dev' s' ! x = blit (content dev s) p bs ! x" .
  qed
qed

text \<open>The state of a reading client: kernel, device, heap and the count it asks for.\<close>

type_synonym reader = "scull_kernel \<times> scull_dev \<times> scull_heap \<times> size_t"

definition reader_bytes :: "reader \<Rightarrow> nat \<Rightarrow> byte list" where
  "reader_bytes = (\<lambda>(k, dev, h, count). read_bytes k dev h count)"

definition reader_file :: "reader \<Rightarrow> byte list" where
  "reader_file = (\<lambda>(k, dev, h, count). content dev (slab h))"

definition reader_ok :: "reader \<Rightarrow> bool" where
  "reader_ok = (\<lambda>(k, dev, h, count).
     (\<exists>objsz. dev_wf objsz dev (slab h)) \<and> dense dev (slab h) \<and> unat (dev_len dev) < 2 ^ 63 \<and>
     0 < count \<and> unat count < 2 ^ 63 \<and> copy_to_user_ok k \<and> k_mutex_lock_interruptible k = 0 \<and>
     (\<forall>bs. snd (k_copy_to_user k bs) = 0))"

lemma reader_bytes_eq:
  assumes "reader_ok (k, dev, h, count)" and "p \<le> unat (dev_len dev)"
  shows "reader_bytes (k, dev, h, count) p =
    sub_block p (min (unat count) (unat (quantum_len dev) - p mod unat (quantum_len dev))) (content dev (slab h))"
proof -
  from assms obtain objsz where wf: "dev_wf objsz dev (slab h)" and p: "p < 2 ^ 63"
    by (auto simp: reader_ok_def)
  then have "unat (of_nat p :: loff_t) = p" by (intro unat_of_nat_small) simp
  with assms(1) p have "rw_args_ok count (of_nat p)" by (simp add: rw_args_ok_def reader_ok_def)
  then show ?thesis
    using read_bytes_content [OF wf _ _ p] assms(1) by (simp add: reader_ok_def reader_bytes_def)
qed

interpretation scull_reader: file_reader reader_ok reader_bytes reader_file
proof (unfold_locales, goal_cases)
  case (1 r p)
  then show ?case
    by (cases r) (auto simp: reader_file_def reader_bytes_eq sub_block_def min_def)
next
  case (2 r p)
  then show ?case
  proof (cases r)
    case (fields k dev h count)
    then have "0 < unat (quantum_len dev)" "0 < unat count"
      using 2(1) by (auto simp: reader_ok_def dev_wf_def geom_ok_def unat_gt_0 word_neq_0_conv)
    with 2 fields show ?thesis
      by (auto simp: reader_file_def reader_bytes_eq sub_block_def)
  qed
qed

section \<open>Properties\<close>

abbreviation write_can_succeed :: "scull_kernel \<Rightarrow> scull_heap \<Rightarrow> bool" where
  "write_can_succeed k h \<equiv> k_mutex_lock_interruptible k = 0 \<and> (\<forall>x. k_kcalloc_qset k x) \<and>
     k_kcalloc_data k \<and> k_kmem_cache_alloc k (slab h) \<noteq> None \<and>
     (\<forall>src n. snd (k_copy_from_user k src n) = 0)"

text \<open>
  C1: Writing refines writing to a byte list. On a well-formed device without holes, a write at
  a position not past the end, with memory available and a readable user buffer, returns the
  number of bytes up to the end of the quantum, advances the position by it, keeps the device
  well-formed and hole-free, and replaces exactly those bytes of the contents.
\<close>

theorem scull_write_refines_bytes:
  assumes "dev_wf objsz dev (slab h)" and "dense dev (slab h)" and "slab_alloc_ok objsz k"
    and "copy_from_user_ok k" and "write_can_succeed k h"
    and "rw_args_ok count f_pos" and "unat count \<le> length buf" and "f_pos \<le> dev_len dev"
  shows "\<exists>dev' h'. scull_write k dev h buf count f_pos =
      Inr (int (write_len dev count f_pos), f_pos + of_nat (write_len dev count f_pos), dev', h') \<and>
      dev_wf objsz dev' (slab h') \<and> dense dev' (slab h') \<and>
      content dev' (slab h') =
        blit (content dev (slab h)) (unat f_pos) (take (write_len dev count f_pos) buf)"
proof -
  have lk: "k_mutex_lock_interruptible k = 0" using assms(5) by simp
  obtain ret f_pos' dev' h' where eq: "scull_write k dev h buf count f_pos = Inr (ret, f_pos', dev', h')"
    and wf: "dev_wf objsz dev' (slab h')"
    and oc: "write_outcome dev (slab h) buf count f_pos ret f_pos' dev' (slab h')" and "0 \<le> ret"
    using scull_write_spec [OF assms(1,3,4,6,7) lk] assms(5) by metis
  note ok = write_outcome_ok [OF oc \<open>0 \<le> ret\<close>]
  let ?n = "write_len dev count f_pos"
  have len: "length (take ?n buf) = ?n" using assms(7) by (simp add: write_len_def)
  have "unat (dev_len dev') = max (unat (dev_len dev)) (unat f_pos + length (take ?n buf))"
    unfolding ok(2,3) len
    using unat_write_end [OF assms(6), of dev] by (auto simp: max_def word_le_nat_alt)
  from spec_write_content [OF assms(2) _ this ok(4)] assms(8)
  have "dense dev' (slab h')"
    "content dev' (slab h') = blit (content dev (slab h)) (unat f_pos) (take ?n buf)"
    by (simp_all add: word_le_nat_alt)
  with eq wf ok(1,2) show ?thesis by blast
qed

text \<open>
  C2: Reading is exact. On a well-formed device a read never faults and never changes the device
  or the heap; its result is given for every case: an interrupted lock, a position past the end
  or in a hole (nothing, which a reader takes for the end), a failing user copy, and otherwise
  the stored bytes up to the requested count, the end of the data or the end of the quantum.
\<close>

theorem scull_read_exact:
  assumes "dev_wf objsz dev (slab h)" and "rw_args_ok count f_pos" and "copy_to_user_ok k"
    and "out = spec_read (dev_byte dev (slab h)) (unat (dev_len dev)) (unat (quantum_len dev))
                  (unat count) (unat f_pos)"
  shows "scull_read k dev h count f_pos =
     (if k_mutex_lock_interruptible k \<noteq> 0 then Inr (- ERESTARTSYS, [], f_pos, dev, h)
      else if unat (dev_len dev) \<le> unat f_pos \<or> dev_byte dev (slab h) (unat f_pos) = None
      then Inr (0, [], f_pos, dev, h)
      else if snd (k_copy_to_user k out) \<noteq> 0
      then Inr (- EFAULT, fst (k_copy_to_user k out), f_pos, dev, h)
      else Inr (int (length out), out, f_pos + of_nat (length out), dev, h))"
  unfolding assms(4) by (rule scull_read_spec [OF assms(1-3)])

text \<open>
  C4: A client that reads to the end gets the whole file. On a well-formed device without holes
  that holds fewer than 2 to the 63 bytes, repeated reads of any positive count from any
  position up to the end return, after at most one call per byte and one more, everything from
  that position on, although each single read stops at a quantum boundary.
\<close>

theorem scull_read_to_end:
  assumes "reader_ok (k, dev, h, count)" and "p \<le> unat (dev_len dev)"
  shows "read_all (read_bytes k dev h count) (unat (dev_len dev) - p + 1) p =
    Some (drop p (content dev (slab h)))"
  using scull_reader.read_all_file [of "(k, dev, h, count)" p "unat (dev_len dev) - p + 1"] assms
  by (simp add: reader_file_def reader_bytes_def)

lemma scull_write_safe_total:
  assumes "dev_wf objsz dev (slab h)" and "slab_alloc_ok objsz k" and "copy_from_user_ok k"
    and "rw_args_ok count f_pos" and "unat count \<le> length buf"
  shows "\<exists>ret f_pos' dev' h'. scull_write k dev h buf count f_pos = Inr (ret, f_pos', dev', h')"
proof (cases "k_mutex_lock_interruptible k = 0")
  case True
  then show ?thesis using scull_write_spec [OF assms] by metis
qed (simp add: scull_write_def mutex_lock_interruptible_sparse_def)

text \<open>
  Whatever the kernel does to a write (no memory for a list node, an array or a quantum, a
  user copy that stops half way), the call does not fault and the device stays well-formed.
  Where it returns an error the position and the stored length are unchanged, and every byte
  outside the target range is still there.
\<close>

lemma scull_write_safe:
  assumes "dev_wf objsz dev (slab h)" and "slab_alloc_ok objsz k" and "copy_from_user_ok k"
    and "rw_args_ok count f_pos" and "unat count \<le> length buf"
  shows "\<exists>ret f_pos' dev' h'. scull_write k dev h buf count f_pos = Inr (ret, f_pos', dev', h') \<and>
      dev_wf objsz dev' (slab h') \<and>
      (ret < 0 \<longrightarrow> f_pos' = f_pos \<and> dev_len dev' = dev_len dev) \<and>
      (\<forall>x v. dev_byte dev (slab h) x = Some v \<longrightarrow>
         x < unat f_pos \<or> unat f_pos + write_len dev count f_pos \<le> x \<longrightarrow>
         dev_byte dev' (slab h') x = Some v)"
proof (cases "k_mutex_lock_interruptible k = 0")
  case False
  then have "scull_write k dev h buf count f_pos = Inr (- ERESTARTSYS, f_pos, dev, h)"
    by (simp add: scull_write_def mutex_lock_interruptible_sparse_def)
  with assms(1) show ?thesis by simp
next
  case True
  obtain ret f_pos' dev' h' where eq: "scull_write k dev h buf count f_pos = Inr (ret, f_pos', dev', h')"
    and wf: "dev_wf objsz dev' (slab h')"
    and oc: "write_outcome dev (slab h) buf count f_pos ret f_pos' dev' (slab h')"
    using scull_write_spec [OF assms True] by metis
  have "ret < 0 \<longrightarrow> f_pos' = f_pos \<and> dev_len dev' = dev_len dev"
    using oc by (auto simp: write_outcome_def Let_def dev_ext_def)
  moreover have "dev_byte dev' (slab h') x = Some v"
    if "dev_byte dev (slab h) x = Some v" "x < unat f_pos \<or> unat f_pos + write_len dev count f_pos \<le> x" for x v
  proof -
    have "length (take (write_len dev count f_pos) buf) = write_len dev count f_pos"
      using assms(5) by (simp add: write_len_def)
    with oc that show ?thesis
      by (auto simp: write_outcome_def Let_def spec_write_def dest: dev_ext_byte)
  qed
  ultimately show ?thesis using eq wf by blast
qed

text \<open>A device only depends on its own quanta.\<close>

lemma owned_live: "dev_wf objsz dev s \<Longrightarrow> owned dev \<subseteq> dom s"
  unfolding owned_def using store_wf_obj by (fastforce simp: dev_wf_def)

lemma dev_frame:
  assumes "dev_wf objsz dev s" and "\<And>a. a \<in> owned dev \<Longrightarrow> s' a = s a"
  shows "dev_wf objsz dev s'" "dev_byte dev s' = dev_byte dev s"
proof -
  have same: "s' a = s a" if "quantum_at dev ij = Some a" for ij a
    using assms(2) that unfolding owned_def by blast
  have "store_wf objsz dev s'" using assms(1) same unfolding dev_wf_def store_wf_def by metis
  then show "dev_wf objsz dev s'" using assms(1) by (simp add: dev_wf_def)
  show "dev_byte dev s' = dev_byte dev s"
    using same by (auto simp: fun_eq_iff dev_byte_def case_prod_unfold Let_def split: option.split)
qed

text \<open>
  Devices do not share storage. Two well-formed devices whose quanta are disjoint still are
  after a write to one of them, and the other one is well-formed with the same bytes.
\<close>

lemma scull_write_isolated:
  assumes "dev_wf objsz dev (slab h)" and "dev_wf objsz other (slab h)" and "owned dev \<inter> owned other = {}"
    and "slab_alloc_ok objsz k" and "copy_from_user_ok k"
    and "rw_args_ok count f_pos" and "unat count \<le> length buf"
    and "scull_write k dev h buf count f_pos = Inr (ret, f_pos', dev', h')"
  shows "dev_wf objsz other (slab h') \<and> owned dev' \<inter> owned other = {} \<and>
    dev_byte other (slab h') = dev_byte other (slab h)"
proof (cases "k_mutex_lock_interruptible k = 0")
  case False
  with assms show ?thesis by (auto simp: scull_write_def mutex_lock_interruptible_sparse_def)
next
  case True
  have fr: "\<forall>a \<in> dom (slab h) - owned dev. slab h' a = slab h a"
    and own: "owned dev' \<subseteq> owned dev \<union> - dom (slab h)"
    using scull_write_spec [OF assms(1,4,5,6,7) True] assms(8) by (metis Inr_inject prod.inject)+
  have live: "owned other \<subseteq> dom (slab h)" by (rule owned_live [OF assms(2)])
  have "slab h' a = slab h a" if "a \<in> owned other" for a using that fr live assms(3) by blast
  from dev_frame [OF assms(2) this] show ?thesis using own live assms(3) by auto
qed

text \<open>
  C3: What was written is read back: after a successful write, a read of the returned number of
  bytes at the same position delivers exactly the bytes of the user buffer and moves the
  position to where the write left it.
\<close>

theorem scull_write_read_roundtrip:
  assumes "dev_wf objsz dev (slab h)" and "slab_alloc_ok objsz k" and "copy_from_user_ok k"
    and "copy_to_user_ok k" and "\<forall>bs. snd (k_copy_to_user k bs) = 0"
    and "rw_args_ok count f_pos" and "unat count \<le> length buf"
    and "scull_write k dev h buf count f_pos = Inr (ret, f_pos', dev', h')" and "0 < ret"
  shows "scull_read k dev' h' (of_int ret) f_pos = Inr (ret, take (nat ret) buf, f_pos', dev', h')"
proof -
  have True: "k_mutex_lock_interruptible k = 0"
    using assms(8,9) by (auto simp: scull_write_def mutex_lock_interruptible_sparse_def split: if_splits)
  have wf': "dev_wf objsz dev' (slab h')"
    and oc: "write_outcome dev (slab h) buf count f_pos ret f_pos' dev' (slab h')"
    using scull_write_spec [OF assms(1,2,3,6,7) True] assms(8) by (metis Inr_inject prod.inject)+
  let ?n = "write_len dev count f_pos" and ?p = "unat f_pos"
  note ok = write_outcome_ok [OF oc less_imp_le [OF assms(9)]]
  have n63: "?n < 2 ^ 63" and nb: "?n \<le> length buf"
    using assms(6,7) by (auto simp: write_len_def rw_args_ok_def)
  have cnt: "(of_int ret :: size_t) = of_nat ?n" by (simp add: ok(1))
  have un: "unat (of_nat ?n :: size_t) = ?n" using n63 by (intro unat_of_nat_small) simp
  have args: "rw_args_ok (of_int ret) f_pos" using assms(6) n63 by (simp add: rw_args_ok_def cnt un)
  have q: "quantum_len dev' = quantum_len dev"
    using ok(5) by (simp add: geom_def word_unat_eq_iff)
  have len: "?p + ?n \<le> unat (dev_len dev')"
    using unat_write_end [OF assms(6), of dev] by (simp add: ok(2,3) max_def word_le_nat_alt)
  have npos: "0 < ?n" using ok(1) assms(9) by simp
  have bytes: "dev_byte dev' (slab h') (?p + i) = Some (buf ! i)" if "i < ?n" for i
    using ok(4) that nb by (simp add: spec_write_def)
  have "?n \<le> unat (quantum_len dev) - ?p mod unat (quantum_len dev)" by (simp add: write_len_def)
  with len have "min (min ?n (unat (dev_len dev') - ?p)) (unat (quantum_len dev) - ?p mod unat (quantum_len dev)) = ?n"
    by simp
  then have "spec_read (dev_byte dev' (slab h')) (unat (dev_len dev')) (unat (quantum_len dev')) ?n ?p = take ?n buf"
    using bytes [OF npos] bytes len npos nb
    by (auto simp: spec_read_def q intro!: nth_equalityI)
  then show ?thesis
    using scull_read_spec [OF wf' args assms(4)] True assms(5) bytes [OF npos] len npos nb
    by (simp add: cnt un ok(1,2))
qed

lemma scull_open_spec:
  assumes "dev_wf objsz dev (slab h)" and "free_bulk_ok k"
  shows "\<exists>h'. slab h' = slab h |` (- (owned dev - last_slots dev)) \<and>
    kmallocs h' = kmallocs h - (\<Sum>q \<leftarrow> qset dev. if q_data q = None then 1 else 2) \<and>
    scull_open k g f_flags dev h =
      (if f_flags AND O_ACCMODE \<noteq> O_WRONLY then Inr (0, dev, h)
       else if k_mutex_lock_interruptible k \<noteq> 0 then Inr (- ERESTARTSYS, dev, h)
       else Inr (0, dev\<lparr>dev_len := 0, quantum_len := scull_quantum g, qset_len := scull_qset g,
                        qset := []\<rparr>, h'))"
proof -
  let ?dev = "dev\<lparr>dev_lock := acquire_ctx (mutex_init\<lparr>held := True\<rparr>)\<rparr>"
  have "store_wf objsz ?dev (slab h)" "0 < qset_len ?dev" "held (dev_lock ?dev)"
    and free: "dev_lock dev = mutex_init"
    using assms(1) by (simp_all add: dev_wf_def geom_ok_def acquire_ctx_def)
  from scull_trim_spec [OF this(1-3) assms(2), of g] obtain h' where
    t: "scull_trim k g ?dev h =
      Inr (?dev\<lparr>dev_len := 0, quantum_len := scull_quantum g, qset_len := scull_qset g, qset := []\<rparr>, h')"
    and h': "slab h' = slab h |` (- (owned ?dev - last_slots ?dev))"
      "kmallocs h' = kmallocs h - (\<Sum>q \<leftarrow> qset ?dev. if q_data q = None then 1 else 2)"
    by blast
  have eq: "dev\<lparr>dev_lock := mutex_init\<rparr> = dev" using free by simp
  have "scull_open k g f_flags dev h =
      (if f_flags AND O_ACCMODE \<noteq> O_WRONLY then Inr (0, dev, h)
       else if k_mutex_lock_interruptible k \<noteq> 0 then Inr (- ERESTARTSYS, dev, h)
       else Inr (0, dev\<lparr>dev_len := 0, quantum_len := scull_quantum g, qset_len := scull_qset g,
                        qset := []\<rparr>, h'))"
    using t free by (simp add: scull_open_def mutex_defs)
  with h' show ?thesis by (simp add: owned_def last_slots_def) blast
qed

lemma scull_open_wronly:
  assumes "dev_wf objsz dev (slab h)" and "free_bulk_ok k" and "k_mutex_lock_interruptible k = 0"
  shows "\<exists>h'. slab h' = slab h |` (- (owned dev - last_slots dev)) \<and>
    scull_open k g O_WRONLY dev h =
      Inr (0, dev\<lparr>dev_len := 0, quantum_len := scull_quantum g, qset_len := scull_qset g,
                   qset := []\<rparr>, h')"
  using scull_open_spec [OF assms(1,2), of g "O_WRONLY"] assms(3) by auto

text \<open>
  Opening write-only empties the device, every other open leaves it alone. With the lock
  taken, the device comes out with no quantum sets, length zero, the module parameters of the
  moment as its geometry and its lock free, all of its list nodes and pointer arrays are freed,
  and of its quanta exactly those in the last slot of an array are left in the cache.
\<close>

lemma scull_open_trims:
  assumes "dev_wf objsz dev (slab h)" and "free_bulk_ok k"
  shows "\<exists>h'. slab h' = slab h |` (- (owned dev - last_slots dev)) \<and>
    kmallocs h' = kmallocs h - (\<Sum>q \<leftarrow> qset dev. if q_data q = None then 1 else 2) \<and>
    scull_open k g f_flags dev h =
      (if f_flags AND O_ACCMODE \<noteq> O_WRONLY then Inr (0, dev, h)
       else if k_mutex_lock_interruptible k \<noteq> 0 then Inr (- ERESTARTSYS, dev, h)
       else Inr (0, dev\<lparr>dev_len := 0, quantum_len := scull_quantum g, qset_len := scull_qset g,
                        qset := []\<rparr>, h'))"
  by (rule scull_open_spec [OF assms])

text \<open>
  C9: The trim loses memory. The quantum in the last slot of a pointer array is still a live
  object of the slab cache after a write-only open, with its old bytes, although the device no
  longer refers to it: the free call passes \<^verbatim>\<open>qset_len - 1\<close> as the number of entries.
\<close>

theorem scull_trim_leaks_last_slot:
  assumes "dev_wf objsz dev (slab h)" and "free_bulk_ok k" and "k_mutex_lock_interruptible k = 0"
    and "quantum_at dev (i, unat (qset_len dev) - 1) = Some a"
    and "scull_open k g O_WRONLY dev h = Inr (ret, dev', h')"
  shows "ret = 0 \<and> a \<notin> owned dev' \<and> a \<in> dom (slab h') \<and> slab h' a = slab h a"
proof -
  have last: "a \<in> last_slots dev" using assms(4) by (auto simp: last_slots_def)
  obtain b where b: "slab h a = Some b" using store_wf_obj [OF _ assms(4)] assms(1) by (auto simp: dev_wf_def)
  have "slab h' = slab h |` (- (owned dev - last_slots dev))" "ret = 0" "qset dev' = []"
    using scull_open_wronly [OF assms(1,2,3), of g] assms(5) by auto
  with last b show ?thesis by (simp add: domI)
qed

text \<open>
  The position arithmetic is right. For every position the node, slot and offset that
  \<^verbatim>\<open>__scull_follow\<close> computes are in range and put the position together again, the
  node it returns has that number, and if all list nodes can be allocated it returns one.
\<close>

theorem scull_follow_addresses:
  assumes "geom_ok objsz dev" and "held (dev_lock dev)"
  shows "\<exists>flw r dev' h'. scull_follow k dev h f_pos = Inr (flw, r, dev', h') \<and>
    unat f_pos = (unat (qset_p flw) * unat (qset_len dev) + unat (quantum_p flw)) * unat (quantum_len dev)
                   + unat (offset_p flw) \<and>
    quantum_p flw < qset_len dev \<and> offset_p flw < quantum_len dev \<and>
    (\<forall>i. r = Some i \<longrightarrow> i = unat (qset_p flw) \<and> i < length (qset dev')) \<and>
    ((\<forall>x. k_kcalloc_qset k x) \<longrightarrow> r \<noteq> None)"
proof -
  let ?p = "unat f_pos" and ?q = "unat (quantum_len dev)" and ?n = "unat (qset_len dev)"
  obtain flw r m where f:
    "scull_follow k dev h f_pos = Inr (flw, r, dev\<lparr>qset := qset dev @ replicate m empty_qset\<rparr>,
            h\<lparr>kmallocs := kmallocs h + int m\<rparr>)"
    and pl: "((unat (qset_p flw), unat (quantum_p flw)), unat (offset_p flw)) = scull_place (geom dev) ?p"
    and r: "\<And>i. r = Some i \<Longrightarrow> i = unat (qset_p flw) \<and> i < length (qset dev) + m"
      "(\<forall>x. k_kcalloc_qset k x) \<Longrightarrow> r \<noteq> None"
    by (rule scull_follow_spec [OF assms, of k h f_pos]) blast
  have s: "unat (qset_p flw) = ?p div (?q * ?n)" "unat (quantum_p flw) = ?p mod (?q * ?n) div ?q"
    "unat (offset_p flw) = ?p mod (?q * ?n) mod ?q"
    using pl by (simp_all add: scull_place_def geom_def Let_def)
  have "?p = ?p div (?q * ?n) * (?q * ?n) + (?p mod (?q * ?n) div ?q * ?q + ?p mod (?q * ?n) mod ?q)"
    by (simp only: div_mult_mod_eq)
  then have "?p = (unat (qset_p flw) * ?n + unat (quantum_p flw)) * ?q + unat (offset_p flw)"
    unfolding s by (simp add: algebra_simps)
  moreover have "quantum_p flw < qset_len dev" "offset_p flw < quantum_len dev"
    using place_slot(1) [OF assms(1), of ?p] sa.offset_bound [OF geom_place_ok [OF assms(1)], of ?p]
    unfolding word_less_nat_alt pl [symmetric] by (simp_all add: geom_def)
  ultimately show ?thesis using f r by (intro exI conjI) auto
qed

section \<open>Witnesses\<close>

lemma demo_args: "rw_args_ok 2 0" "rw_args_ok 3 3" "write_len demo_dev 2 0 = 2"
  "write_len demo_full 3 3 = 1" "write_can_succeed demo_kernel demo_heap"
  by (simp_all add: rw_args_ok_def write_len_def demo_dev_def demo_full_def demo_kernel_def demo_heap_def)

lemma demo_dense: "dense demo_dev (slab demo_heap)" "content demo_dev (slab demo_heap) = []"
  by (simp_all add: dense_def content_def demo_dev_def)

lemma demo_full_byte:
  "dev_byte demo_full demo_slab 0 = Some 104" "dev_byte demo_full demo_slab 1 = Some 101"
  "dev_byte demo_full demo_slab 2 = Some 108" "dev_byte demo_full demo_slab 3 = Some 108"
  "dev_byte demo_full demo_slab 4 = Some 111"
  unfolding dev_byte_def scull_place_def geom_def Let_def quantum_at_demo_full
  by (simp_all add: demo_full_def demo_dev_def demo_slab_def)

lemma demo_full_len: "unat (dev_len demo_full) = 5" "unat (quantum_len demo_full) = 4"
  "[0 ..< 5 :: nat] = [0, 1, 2, 3, 4]"
  by (simp_all add: demo_full_def demo_dev_def upt_conv_Cons)

lemma demo_full_dense: "dense demo_full demo_slab" "content demo_full demo_slab = [104, 101, 108, 108, 111]"
proof -
  show "content demo_full demo_slab = [104, 101, 108, 108, 111]"
    unfolding content_def demo_full_len by (simp add: demo_full_byte demo_full_byte(2) [unfolded One_nat_def])
  have "\<forall>p \<in> set [0 ..< 5]. dev_byte demo_full demo_slab p \<noteq> None"
    unfolding demo_full_len by (simp add: demo_full_byte demo_full_byte(2) [unfolded One_nat_def])
  then show "dense demo_full demo_slab"
    unfolding dense_def demo_full_len(1) set_upt by (meson atLeastLessThan_iff le0)
qed

theorem scull_write_refines_bytes_witness:
  "\<exists>dev' h'. scull_write demo_kernel demo_dev demo_heap [104, 101] 2 0 = Inr (2, 2, dev', h') \<and>
     dev_wf 4 dev' (slab h') \<and> content dev' (slab h') = [104, 101]"
  using scull_write_refines_bytes [OF demo_dev_wf demo_dense(1) demo_kernel_ok(1,4) demo_args(5,1), of "[104, 101]"]
  by (auto simp: demo_args demo_dense blit_def)

abbreviation demo_full_heap :: scull_heap where
  "demo_full_heap \<equiv> \<lparr>slab = demo_slab, kmallocs = 2\<rparr>"

lemma demo_full_heap_wf: "dev_wf 4 demo_full (slab demo_full_heap)"
  by (simp add: demo_full_wf)

theorem scull_read_exact_witness:
  "scull_read demo_kernel demo_full demo_full_heap 3 3 = Inr (1, [108], 4, demo_full, demo_full_heap)"
proof -
  have "spec_read (dev_byte demo_full demo_slab) 5 4 3 3 = [108]"
    by (simp add: spec_read_def demo_full_byte)
  then show ?thesis
    using scull_read_exact [OF demo_full_heap_wf
        demo_args(2) demo_kernel_ok(3) refl]
    by (simp add: demo_full_len demo_full_byte demo_kernel_def)
qed

theorem scull_read_to_end_witness:
  "reader_ok (demo_kernel, demo_full, demo_full_heap, 2) \<and>
   read_all (read_bytes demo_kernel demo_full demo_full_heap 2) 5 1 = Some [101, 108, 108, 111]"
proof -
  have ok: "reader_ok (demo_kernel, demo_full, demo_full_heap, 2)"
    using demo_full_wf demo_full_dense demo_kernel_ok
    by (auto simp: reader_ok_def demo_full_len) (simp_all add: demo_kernel_def)
  then show ?thesis
    using scull_read_to_end [OF ok, of 1] by (simp add: demo_full_len demo_full_dense)
qed

theorem scull_write_read_roundtrip_witness:
  "\<exists>dev' h'. scull_write demo_kernel demo_dev demo_heap [104, 101] 2 0 = Inr (2, 2, dev', h') \<and>
     scull_read demo_kernel dev' h' 2 0 = Inr (2, [104, 101], 2, dev', h')"
proof -
  have "k_mutex_lock_interruptible demo_kernel = 0" "unat (2 :: size_t) \<le> length [104, 101 :: byte]"
    by (simp_all add: demo_kernel_def)
  then obtain ret f_pos' dev' h' where
    "scull_write demo_kernel demo_dev demo_heap [104, 101] 2 0 = Inr (ret, f_pos', dev', h')" "0 \<le> ret"
    "write_outcome demo_dev (slab demo_heap) [104, 101] 2 0 ret f_pos' dev' (slab h')"
    using scull_write_spec [OF demo_dev_wf demo_kernel_ok(1,4) demo_args(1)] demo_args(5) by metis
  with write_outcome_ok(1,2) [OF this(3,2)] have
    eq: "scull_write demo_kernel demo_dev demo_heap [104, 101] 2 0 = Inr (2, 2, dev', h')"
    by (simp add: demo_args)
  have "\<forall>bs. snd (k_copy_to_user demo_kernel bs) = 0" by (simp add: demo_kernel_def)
  from scull_write_read_roundtrip [OF demo_dev_wf demo_kernel_ok(1,4,3) this demo_args(1) _ eq] eq
  show ?thesis by simp
qed

theorem scull_trim_leaks_last_slot_witness:
  "\<exists>dev' h'. scull_open demo_kernel scull_globals_init 1 demo_full demo_full_heap = Inr (0, dev', h') \<and>
     8192 \<notin> owned dev' \<and> slab h' 8192 = Some [111, 0, 0, 0]"
proof -
  have lk: "k_mutex_lock_interruptible demo_kernel = 0" by (simp add: demo_kernel_def)
  have q: "quantum_at demo_full (0, unat (qset_len demo_full) - 1) = Some 8192"
    unfolding quantum_at_demo_full by (simp add: demo_full_def demo_dev_def)
  obtain dev' h' where
    eq: "scull_open demo_kernel scull_globals_init 1 demo_full demo_full_heap = Inr (0, dev', h')"
    using scull_open_wronly [OF demo_full_heap_wf demo_kernel_ok(2) lk] by blast
  from scull_trim_leaks_last_slot [OF demo_full_heap_wf demo_kernel_ok(2) lk q eq] eq show ?thesis
    by (auto simp: demo_slab_def)
qed

theorem scull_follow_addresses_witness:
  "\<exists>flw r dev' h'. scull_follow demo_kernel (demo_full\<lparr>dev_lock := mutex_init\<lparr>held := True\<rparr>\<rparr>) demo_full_heap 13
       = Inr (flw, r, dev', h') \<and>
     13 = (unat (qset_p flw) * 2 + unat (quantum_p flw)) * 4 + unat (offset_p flw) \<and> r \<noteq> None"
proof -
  have "geom_ok 4 (demo_full\<lparr>dev_lock := mutex_init\<lparr>held := True\<rparr>\<rparr>)"
    by (simp add: geom_ok_def demo_full_def demo_dev_def)
  from scull_follow_addresses [OF this, of demo_kernel demo_full_heap 13] show ?thesis
    by (fastforce simp: demo_full_def demo_dev_def demo_kernel_def)
qed

end
