(* ===== verification/Scull_Ioctl.thy ===== *)
theory Scull_Ioctl
  imports Scull_Dev_Correct
begin

text \<open>
  The ioctl interface shared by the bare device and the pipe (\<^verbatim>\<open>src/scull/ioctl.c\<close> and
  the command numbers of \<^verbatim>\<open>src/scull/scull.h\<close>). Access checks, capabilities and the
  user access macros are parameters (\<open>ioctl_kernel\<close>); their documented behaviour is
  \<open>user_access_ok\<close>. The properties cover every command, what an unprivileged caller can
  change, and what the new sizes do to a device that is emptied afterwards.
\<close>

section \<open>Command numbers\<close>

text \<open>The encoding of \<^verbatim>\<open>asm-generic/ioctl.h\<close>: number, type, size and direction fields.\<close>

definition IOC :: "u32 \<Rightarrow> u32 \<Rightarrow> u32 \<Rightarrow> u32 \<Rightarrow> u32" where
  "IOC dir ty nr sz = push_bit 30 dir OR push_bit 8 ty OR nr OR push_bit 16 sz"

definition IO :: "u32 \<Rightarrow> u32 \<Rightarrow> u32" where "IO ty nr = IOC 0 ty nr 0"
definition IOW_int :: "u32 \<Rightarrow> u32 \<Rightarrow> u32" where "IOW_int ty nr = IOC 1 ty nr 4"
definition IOR_int :: "u32 \<Rightarrow> u32 \<Rightarrow> u32" where "IOR_int ty nr = IOC 2 ty nr 4"
definition IOWR_int :: "u32 \<Rightarrow> u32 \<Rightarrow> u32" where "IOWR_int ty nr = IOC 3 ty nr 4"

definition IOC_TYPE :: "u32 \<Rightarrow> u32" where "IOC_TYPE cmd = drop_bit 8 cmd AND 0xFF"
definition IOC_NR :: "u32 \<Rightarrow> u32" where "IOC_NR cmd = cmd AND 0xFF"
definition IOC_SIZE :: "u32 \<Rightarrow> u32" where "IOC_SIZE cmd = drop_bit 16 cmd AND 0x3FFF"

definition SCULL_IOC_MAGIC :: u32 where "SCULL_IOC_MAGIC = 0x6B"
definition SCULL_IOCRESET :: u32 where "SCULL_IOCRESET = IO SCULL_IOC_MAGIC 0"
definition SCULL_IOCSQUANTUM :: u32 where "SCULL_IOCSQUANTUM = IOW_int SCULL_IOC_MAGIC 1"
definition SCULL_IOCSQSET :: u32 where "SCULL_IOCSQSET = IOW_int SCULL_IOC_MAGIC 2"
definition SCULL_IOCTQUANTUM :: u32 where "SCULL_IOCTQUANTUM = IO SCULL_IOC_MAGIC 3"
definition SCULL_IOCTQSET :: u32 where "SCULL_IOCTQSET = IO SCULL_IOC_MAGIC 4"
definition SCULL_IOCGQUANTUM :: u32 where "SCULL_IOCGQUANTUM = IOR_int SCULL_IOC_MAGIC 5"
definition SCULL_IOCGQSET :: u32 where "SCULL_IOCGQSET = IOR_int SCULL_IOC_MAGIC 6"
definition SCULL_IOCQQUANTUM :: u32 where "SCULL_IOCQQUANTUM = IO SCULL_IOC_MAGIC 7"
definition SCULL_IOCQQSET :: u32 where "SCULL_IOCQQSET = IO SCULL_IOC_MAGIC 8"
definition SCULL_IOCXQUANTUM :: u32 where "SCULL_IOCXQUANTUM = IOWR_int SCULL_IOC_MAGIC 9"
definition SCULL_IOCXQSET :: u32 where "SCULL_IOCXQSET = IOWR_int SCULL_IOC_MAGIC 10"
definition SCULL_IOCHQUANTUM :: u32 where "SCULL_IOCHQUANTUM = IO SCULL_IOC_MAGIC 11"
definition SCULL_IOCHQSET :: u32 where "SCULL_IOCHQSET = IO SCULL_IOC_MAGIC 12"
definition SCULL_P_IOCTSIZE :: u32 where "SCULL_P_IOCTSIZE = IO SCULL_IOC_MAGIC 13"
definition SCULL_P_IOCQSIZE :: u32 where "SCULL_P_IOCQSIZE = IO SCULL_IOC_MAGIC 14"
definition SCULL_IOC_MAXNR :: u32 where "SCULL_IOC_MAXNR = 14"

section \<open>The handler\<close>

type_synonym user_mem = "ulong \<rightharpoonup> u32"

record ioctl_kernel =
  k_access_ok :: "ulong \<Rightarrow> u32 \<Rightarrow> bool"
  k_capable :: bool
  k_get_user :: "user_mem \<Rightarrow> ulong \<Rightarrow> int \<times> u32"
  k_put_user :: "user_mem \<Rightarrow> ulong \<Rightarrow> u32 \<Rightarrow> int \<times> user_mem"

text \<open>
  \<^verbatim>\<open>__get_user\<close> assigns its first argument in any case; the \<open>int\<close> it fetched is
  sign-extended to \<open>unsigned long\<close>. \<^verbatim>\<open>tmp\<close> and \<^verbatim>\<open>__put_user\<close> cut the quantum
  to an \<open>int\<close>.
\<close>

definition int_to_ulong :: "u32 \<Rightarrow> ulong" where "int_to_ulong v = signed v"
definition ulong_to_int :: "ulong \<Rightarrow> u32" where "ulong_to_int v = unsigned v"

definition scull_ioctl ::
    "ioctl_kernel \<Rightarrow> scull_globals \<Rightarrow> user_mem \<Rightarrow> u32 \<Rightarrow> ulong \<Rightarrow> int \<times> scull_globals \<times> user_mem" where
  "scull_ioctl k g m cmd arg =
     (if IOC_TYPE cmd \<noteq> SCULL_IOC_MAGIC then (- ENOTTY, g, m)
      else if IOC_NR cmd > SCULL_IOC_MAXNR then (- ENOTTY, g, m)
      else if \<not> k_access_ok k arg (IOC_SIZE cmd) then (- EFAULT, g, m)
      else if cmd = SCULL_IOCRESET then
        (0, g\<lparr>scull_quantum := SCULL_QUANTUM, scull_qset := SCULL_QSET\<rparr>, m)
      else if cmd = SCULL_IOCSQUANTUM then
        (if \<not> k_capable k then (- EPERM, g, m)
         else let (ret, v) = k_get_user k m arg
              in (ret, g\<lparr>scull_quantum := int_to_ulong v\<rparr>, m))
      else if cmd = SCULL_IOCTQUANTUM then
        (if \<not> k_capable k then (- EPERM, g, m)
         else (0, g\<lparr>scull_quantum := arg\<rparr>, m))
      else if cmd = SCULL_IOCGQUANTUM then
        (let (ret, m) = k_put_user k m arg (ulong_to_int (scull_quantum g)) in (ret, g, m))
      else if cmd = SCULL_IOCQQUANTUM then (sint (scull_quantum g), g, m)
      else if cmd = SCULL_IOCXQUANTUM then
        (if \<not> k_capable k then (- EPERM, g, m)
         else let tmp = ulong_to_int (scull_quantum g);
                  (ret, v) = k_get_user k m arg;
                  g = g\<lparr>scull_quantum := int_to_ulong v\<rparr>
              in if ret = 0 then let (ret, m) = k_put_user k m arg tmp in (ret, g, m)
                 else (ret, g, m))
      else if cmd = SCULL_IOCHQUANTUM then
        (if \<not> k_capable k then (- EPERM, g, m)
         else let tmp = ulong_to_int (scull_quantum g)
              in (sint tmp, g\<lparr>scull_quantum := arg\<rparr>, m))
      else if cmd = SCULL_P_IOCTSIZE then (0, g\<lparr>scull_p_len := arg\<rparr>, m)
      else if cmd = SCULL_P_IOCQSIZE then (sint (scull_p_len g), g, m)
      else (- ENOTTY, g, m))"

section \<open>Documented behaviour of the user access macros\<close>

text \<open>
  Both return 0 or \<open>-EFAULT\<close>; on an error \<^verbatim>\<open>__get_user\<close> sets the variable to zero and
  \<^verbatim>\<open>__put_user\<close> stores nothing.
\<close>

definition user_access_ok :: "ioctl_kernel \<Rightarrow> bool" where
  "user_access_ok k \<longleftrightarrow>
     (\<forall>m a. k_get_user k m a = (case m a of None \<Rightarrow> (- EFAULT, 0) | Some v \<Rightarrow> (0, v))) \<and>
     (\<forall>m a v. k_put_user k m a v = (case m a of None \<Rightarrow> (- EFAULT, m) | Some _ \<Rightarrow> (0, m(a \<mapsto> v))))"

definition demo_ioctl :: ioctl_kernel where
  "demo_ioctl = \<lparr>k_access_ok = (\<lambda>_ _. True), k_capable = True,
     k_get_user = (\<lambda>m a. case m a of None \<Rightarrow> (- EFAULT, 0) | Some v \<Rightarrow> (0, v)),
     k_put_user = (\<lambda>m a v. case m a of None \<Rightarrow> (- EFAULT, m) | Some _ \<Rightarrow> (0, m(a \<mapsto> v)))\<rparr>"

lemma demo_ioctl_ok: "user_access_ok demo_ioctl" "k_access_ok demo_ioctl a n" "k_capable demo_ioctl"
  by (simp_all add: user_access_ok_def demo_ioctl_def)

section \<open>Lemmas\<close>

lemmas scull_cmd_defs =
  IOC_def IO_def IOW_int_def IOR_int_def IOWR_int_def SCULL_IOC_MAGIC_def SCULL_IOCRESET_def
  SCULL_IOCSQUANTUM_def SCULL_IOCSQSET_def SCULL_IOCTQUANTUM_def SCULL_IOCTQSET_def
  SCULL_IOCGQUANTUM_def SCULL_IOCGQSET_def SCULL_IOCQQUANTUM_def SCULL_IOCQQSET_def
  SCULL_IOCXQUANTUM_def SCULL_IOCXQSET_def SCULL_IOCHQUANTUM_def SCULL_IOCHQSET_def
  SCULL_P_IOCTSIZE_def SCULL_P_IOCQSIZE_def SCULL_IOC_MAXNR_def

lemma scull_cmd_values [kernel_simps]:
  "SCULL_IOCRESET = 0x6B00" "SCULL_IOCSQUANTUM = 0x40046B01" "SCULL_IOCSQSET = 0x40046B02"
  "SCULL_IOCTQUANTUM = 0x6B03" "SCULL_IOCTQSET = 0x6B04" "SCULL_IOCGQUANTUM = 0x80046B05"
  "SCULL_IOCGQSET = 0x80046B06" "SCULL_IOCQQUANTUM = 0x6B07" "SCULL_IOCQQSET = 0x6B08"
  "SCULL_IOCXQUANTUM = 0xC0046B09" "SCULL_IOCXQSET = 0xC0046B0A" "SCULL_IOCHQUANTUM = 0x6B0B"
  "SCULL_IOCHQSET = 0x6B0C" "SCULL_P_IOCTSIZE = 0x6B0D" "SCULL_P_IOCQSIZE = 0x6B0E"
  by (simp_all add: scull_cmd_defs)

lemma scull_ioctl_cmds:
  assumes "\<forall>a n. k_access_ok k a n"
  shows "scull_ioctl k g m SCULL_IOCRESET arg = (0, g\<lparr>scull_quantum := SCULL_QUANTUM, scull_qset := SCULL_QSET\<rparr>, m)"
    "k_capable k \<Longrightarrow> scull_ioctl k g m SCULL_IOCSQUANTUM arg =
       (fst (k_get_user k m arg), g\<lparr>scull_quantum := int_to_ulong (snd (k_get_user k m arg))\<rparr>, m)"
    "k_capable k \<Longrightarrow> scull_ioctl k g m SCULL_IOCTQUANTUM arg = (0, g\<lparr>scull_quantum := arg\<rparr>, m)"
    "scull_ioctl k g m SCULL_IOCGQUANTUM arg =
       (let (ret, m) = k_put_user k m arg (ulong_to_int (scull_quantum g)) in (ret, g, m))"
    "scull_ioctl k g m SCULL_IOCQQUANTUM arg = (sint (scull_quantum g), g, m)"
    "k_capable k \<Longrightarrow> scull_ioctl k g m SCULL_IOCXQUANTUM arg =
       (let (ret, v) = k_get_user k m arg; g' = g\<lparr>scull_quantum := int_to_ulong v\<rparr>
        in if ret = 0 then let (ret, m) = k_put_user k m arg (ulong_to_int (scull_quantum g)) in (ret, g', m)
           else (ret, g', m))"
    "k_capable k \<Longrightarrow> scull_ioctl k g m SCULL_IOCHQUANTUM arg =
       (sint (ulong_to_int (scull_quantum g)), g\<lparr>scull_quantum := arg\<rparr>, m)"
    "scull_ioctl k g m SCULL_P_IOCTSIZE arg = (0, g\<lparr>scull_p_len := arg\<rparr>, m)"
    "scull_ioctl k g m SCULL_P_IOCQSIZE arg = (sint (scull_p_len g), g, m)"
  using assms
  by (simp_all add: scull_ioctl_def kernel_simps IOC_TYPE_def IOC_NR_def SCULL_IOC_MAGIC_def
      SCULL_IOC_MAXNR_def Let_def case_prod_unfold)

lemma scull_cmd_unhandled:
  assumes "k_access_ok k arg (IOC_SIZE cmd)"
    and "cmd \<in> {0x40046B02, 0x6B04, 0x80046B06, 0x6B08, 0xC0046B0A, 0x6B0C}"
  shows "IOC_TYPE cmd = SCULL_IOC_MAGIC" "IOC_NR cmd \<le> SCULL_IOC_MAXNR"
    "scull_ioctl k g m cmd arg = (- ENOTTY, g, m)"
proof -
  show ty: "IOC_TYPE cmd = SCULL_IOC_MAGIC"
    using assms(2) by (elim insertE emptyE; simp add: IOC_TYPE_def SCULL_IOC_MAGIC_def)
  show nr: "IOC_NR cmd \<le> SCULL_IOC_MAXNR"
    using assms(2) by (elim insertE emptyE; simp add: IOC_NR_def SCULL_IOC_MAXNR_def)
  have "cmd \<notin> {0x6B00, 0x40046B01, 0x6B03, 0x80046B05, 0x6B07, 0xC0046B09, 0x6B0B, 0x6B0D, 0x6B0E}"
    using assms(2) by (elim insertE emptyE; simp)
  then show "scull_ioctl k g m cmd arg = (- ENOTTY, g, m)"
    using assms(1) ty nr by (simp add: scull_ioctl_def scull_cmd_values)
qed

lemma ulong_int_ulong: "ulong_to_int (int_to_ulong v) = v"
  by (simp add: ulong_to_int_def int_to_ulong_def bit_eq_iff bit_simps)

section \<open>Properties\<close>

text \<open>
  What an unprivileged caller can change. Without the administrator capability, whatever the
  command and argument, the module parameters come out as they were, except that the reset
  command restores the two default sizes and the pipe size command sets the pipe length.
\<close>

lemma scull_ioctl_unprivileged:
  assumes "\<not> k_capable k" and "scull_ioctl k g m cmd arg = (ret, g', m')"
  shows "g' = g \<or>
    cmd = SCULL_IOCRESET \<and> g' = g\<lparr>scull_quantum := SCULL_QUANTUM, scull_qset := SCULL_QSET\<rparr> \<or>
    cmd = SCULL_P_IOCTSIZE \<and> g' = g\<lparr>scull_p_len := arg\<rparr>"
  using assms by (auto simp: scull_ioctl_def Let_def split: if_splits prod.splits)

text \<open>
  Setting through a pointer and getting through a pointer agree: after a privileged set of
  the quantum from a readable address, a get to a writable address stores the same 32 bits
  there, and neither call changes anything else.
\<close>

theorem scull_ioctl_set_get:
  assumes "user_access_ok k" and "\<forall>a n. k_access_ok k a n" and "k_capable k"
    and "m a = Some v" and "m b = Some w"
  shows "\<exists>g'. scull_ioctl k g m SCULL_IOCSQUANTUM a = (0, g', m) \<and>
    g' = g\<lparr>scull_quantum := int_to_ulong v\<rparr> \<and>
    scull_ioctl k g' m SCULL_IOCGQUANTUM b = (0, g', m(b \<mapsto> v))"
  using assms
  by (simp add: scull_ioctl_cmds [OF assms(2)] user_access_ok_def ulong_int_ulong)

theorem scull_ioctl_set_get_witness:
  "\<exists>g'. scull_ioctl demo_ioctl scull_globals_init [16 \<mapsto> 512, 32 \<mapsto> 0] SCULL_IOCSQUANTUM 16
       = (0, g', [16 \<mapsto> 512, 32 \<mapsto> 0]) \<and>
     scull_ioctl demo_ioctl g' [16 \<mapsto> 512, 32 \<mapsto> 0] SCULL_IOCGQUANTUM 32 = (0, g', [16 \<mapsto> 512, 32 \<mapsto> 512])"
  using scull_ioctl_set_get [of demo_ioctl "[16 \<mapsto> 512, 32 \<mapsto> 0]" 16 512 32 0 scull_globals_init]
    demo_ioctl_ok by auto

text \<open>
  Exchange is an involution on what fits an int: two privileged exchanges at the same
  writable address restore both the quantum and the user's memory, provided the quantum was
  the sign extension of an int; in between each holds the other's value.
\<close>

theorem scull_ioctl_exchange_twice:
  assumes "user_access_ok k" and "\<forall>a n. k_access_ok k a n" and "k_capable k"
    and "m a = Some v" and "scull_quantum g = int_to_ulong q"
  shows "\<exists>g1. scull_ioctl k g m SCULL_IOCXQUANTUM a = (0, g1, m(a \<mapsto> q)) \<and>
    scull_quantum g1 = int_to_ulong v \<and>
    scull_ioctl k g1 (m(a \<mapsto> q)) SCULL_IOCXQUANTUM a = (0, g, m)"
proof -
  have q: "ulong_to_int (scull_quantum g) = q" by (simp add: assms(5) ulong_int_ulong)
  have g: "g\<lparr>scull_quantum := int_to_ulong q\<rparr> = g" by (simp flip: assms(5))
  have m: "m(a \<mapsto> v) = m" using assms(4) by (rule fun_upd_idem)
  show ?thesis
    using assms(1,3,4)
    by (simp add: scull_ioctl_cmds [OF assms(2)] user_access_ok_def q g m ulong_int_ulong)
qed

theorem scull_ioctl_exchange_twice_witness:
  "\<exists>g1. scull_ioctl demo_ioctl scull_globals_init [16 \<mapsto> 512] SCULL_IOCXQUANTUM 16 = (0, g1, [16 \<mapsto> 4000]) \<and>
     scull_ioctl demo_ioctl g1 [16 \<mapsto> 4000] SCULL_IOCXQUANTUM 16 = (0, scull_globals_init, [16 \<mapsto> 512])"
proof -
  have "scull_quantum scull_globals_init = int_to_ulong 4000"
    by (simp add: scull_globals_init_def SCULL_QUANTUM_def int_to_ulong_def)
  then show ?thesis
    using scull_ioctl_exchange_twice [of demo_ioctl "[16 \<mapsto> 512]" 16 512 scull_globals_init 4000]
      demo_ioctl_ok by auto
qed

text \<open>
  A failing set destroys the quantum. When the user address cannot be read, the privileged
  set and exchange commands return \<open>-EFAULT\<close> but leave the module's quantum at zero,
  because the fetch is done straight into the global variable.
\<close>

lemma scull_ioctl_fault_zeroes_quantum:
  assumes "user_access_ok k" and "\<forall>a n. k_access_ok k a n" and "k_capable k" and "m a = None"
    and "cmd = SCULL_IOCSQUANTUM \<or> cmd = SCULL_IOCXQUANTUM"
  shows "scull_ioctl k g m cmd a = (- EFAULT, g\<lparr>scull_quantum := 0\<rparr>, m)"
  using assms(5) assms(1,3,4)
  by (auto simp: scull_ioctl_cmds [OF assms(2)] user_access_ok_def int_to_ulong_def)

text \<open>
  The quantum set commands of the header do not exist. All six of them pass the decoding
  checks (right magic, number in range), are distinct from every command that is handled, and
  are answered with \<open>-ENOTTY\<close>, so the size of quantum sets cannot be changed by ioctl.
\<close>

theorem scull_ioctl_no_qset_commands:
  assumes "cmd \<in> {SCULL_IOCSQSET, SCULL_IOCTQSET, SCULL_IOCGQSET, SCULL_IOCQQSET, SCULL_IOCXQSET, SCULL_IOCHQSET}"
    and "k_access_ok k arg (IOC_SIZE cmd)"
  shows "IOC_TYPE cmd = SCULL_IOC_MAGIC \<and> IOC_NR cmd \<le> SCULL_IOC_MAXNR \<and>
    scull_ioctl k g m cmd arg = (- ENOTTY, g, m)"
proof -
  have "cmd \<in> {0x40046B02, 0x6B04, 0x80046B06, 0x6B08, 0xC0046B0A, 0x6B0C}"
    using assms(1) unfolding scull_cmd_values .
  then show ?thesis
    using scull_cmd_unhandled [OF assms(2)] by blast
qed

theorem scull_ioctl_no_qset_commands_witness:
  "scull_ioctl demo_ioctl scull_globals_init Map.empty SCULL_IOCTQSET 10 = (- ENOTTY, scull_globals_init, Map.empty)"
  using scull_ioctl_no_qset_commands [of SCULL_IOCTQSET demo_ioctl 10] demo_ioctl_ok(2) by simp

text \<open>
  The shift command reports the old quantum exactly when it is below 2 to the 31: the old
  value travels through an int, while the quantum is an unsigned long. The new value is set in
  either case.
\<close>

theorem scull_ioctl_shift_value:
  assumes "\<forall>a n. k_access_ok k a n" and "k_capable k"
  shows "\<exists>ret. scull_ioctl k g m SCULL_IOCHQUANTUM arg = (ret, g\<lparr>scull_quantum := arg\<rparr>, m) \<and>
    (ret = int (unat (scull_quantum g)) \<longleftrightarrow> unat (scull_quantum g) < 2 ^ 31)"
proof -
  let ?q = "scull_quantum g"
  have s: "sint (ulong_to_int ?q) = signed_take_bit 31 (uint ?q)"
    by (simp add: ulong_to_int_def sint_uint unsigned_ucast_eq signed_take_bit_take_bit)
  have lo: "- (2 ^ 31) \<le> uint ?q" by (rule order_trans [OF _ uint_ge_0]) simp
  have "signed_take_bit 31 (uint ?q) = uint ?q \<longleftrightarrow> uint ?q < 2 ^ 31"
    unfolding signed_take_bit_int_eq_self_iff using lo by blast
  moreover have "uint ?q < 2 ^ 31 \<longleftrightarrow> unat ?q < 2 ^ 31"
    unfolding uint_nat by (metis of_nat_less_iff of_nat_numeral of_nat_power)
  ultimately have "sint (ulong_to_int ?q) = int (unat ?q) \<longleftrightarrow> unat ?q < 2 ^ 31"
    unfolding s uint_nat by blast
  then show ?thesis
    unfolding scull_ioctl_cmds(7) [OF assms] by blast
qed

theorem scull_ioctl_shift_value_witness:
  "\<exists>ret. scull_ioctl demo_ioctl scull_globals_init Map.empty SCULL_IOCHQUANTUM 5 =
     (ret, scull_globals_init\<lparr>scull_quantum := 5\<rparr>, Map.empty) \<and> ret = 4000"
proof -
  have "unat (scull_quantum scull_globals_init) = 4000"
    by (simp add: scull_globals_init_def SCULL_QUANTUM_def)
  then show ?thesis
    using scull_ioctl_shift_value [OF _ demo_ioctl_ok(3), of scull_globals_init Map.empty 5]
      demo_ioctl_ok(2) by auto
qed

end
