(* ===== verification/Scull_Files.thy ===== *)
theory Scull_Files
  imports Scull_Module_Props Scull_Dev_Props Scull_Ioctl
begin

text \<open>
  The loaded scull module as its users see it: the devices and tables of operations that the device
  numbers lead to, and sequences of system calls on any number of open files of the bare devices, with the control interface and the proc file in between. The locked part of each
  call is one step, so a sequence of calls is also an interleaving of the calls of several processes.
\<close>

unbundle bit_operations_syntax

section \<open>Device numbers\<close>

text \<open>
  What a device number leads to: the structure around the \<^verbatim>\<open>cdev\<close> that was added with it,
  which \<^verbatim>\<open>container_of\<close> gives the open functions, and the table of operations that this
  \<^verbatim>\<open>cdev\<close> holds.
\<close>

datatype scull_node = Bare nat | Fifo nat

fun cdev_number :: "cdev \<Rightarrow> u32 option" where
  "cdev_number (Cdev_added ops devno) = Some devno"
| "cdev_number _ = None"

fun cdev_ops :: "cdev \<Rightarrow> file_operations option" where
  "cdev_ops Cdev_zero = None"
| "cdev_ops (Cdev_init ops) = Some ops"
| "cdev_ops (Cdev_added ops devno) = Some ops"

definition cdev_index :: "u32 \<Rightarrow> cdev list \<Rightarrow> nat option" where
  "cdev_index devno cs =
     (case filter (\<lambda>i. cdev_number (cs ! i) = Some devno) [0..<length cs] of [] \<Rightarrow> None | i # _ \<Rightarrow> Some i)"

definition bare_cdevs :: "scull_mod \<Rightarrow> cdev list" where
  "bare_cdevs m = (case m_devices m of None \<Rightarrow> [] | Some ds \<Rightarrow> map d_cdev ds)"

definition pipe_cdevs :: "scull_mod \<Rightarrow> cdev list" where
  "pipe_cdevs m = (case m_p_devices m of None \<Rightarrow> [] | Some ps \<Rightarrow> map d_pcdev ps)"

definition chrdev_node :: "scull_mod \<Rightarrow> u32 \<Rightarrow> (scull_node \<times> file_operations option) option" where
  "chrdev_node m devno =
     (case cdev_index devno (bare_cdevs m) of
        Some i \<Rightarrow> Some (Bare i, cdev_ops (bare_cdevs m ! i))
      | None \<Rightarrow> map_option (\<lambda>i. (Fifo i, cdev_ops (pipe_cdevs m ! i))) (cdev_index devno (pipe_cdevs m)))"

section \<open>System calls on the bare devices\<close>

text \<open>
  An open file of a bare device: \<^verbatim>\<open>private_data\<close> as the index of the device, the flags and the
  position. The system is the part of the module that these files share.
\<close>

record bare_file =
  bf_dev :: nat
  bf_flags :: u32
  bf_pos :: loff_t

record file_sys =
  fs_g :: scull_globals
  fs_devs :: "scull_dev list"
  fs_heap :: scull_heap
  fs_files :: "bare_file option list"

text \<open>
  A call carries what the kernel does during it. Reads and writes are at the position of the file,
  or at a given one (\<^verbatim>\<open>pread\<close>, \<^verbatim>\<open>pwrite\<close>). The control interface is the same function
  for both tables and does not look at the file.
\<close>

datatype sys_call =
    Call_open scull_kernel nat u32
  | Call_read scull_kernel nat "loff_t option" nat
  | Call_write scull_kernel nat "loff_t option" "byte list"
  | Call_ioctl ioctl_kernel user_mem u32 ulong
  | Call_close nat
  | Call_proc proc_addr int nat

datatype call_result =
    Ret int
  | Ret_bytes int "byte list"
  | Ret_mem int user_mem
  | Ret_text int "string list"

text \<open>
  What the system call layer does around the functions of the driver: it hands out the next
  descriptor, checks descriptor and mode, refuses ranges that end past the largest position, cuts the
  count, and moves the position of the file after a call that did not fail.
\<close>

definition OPEN_FMODE :: "u32 \<Rightarrow> u32" where
  "OPEN_FMODE f_flags = (f_flags + 1) AND O_ACCMODE"

definition file_at :: "file_sys \<Rightarrow> nat \<Rightarrow> bare_file option" where
  "file_at s fd = (if fd < length (fs_files s) then fs_files s ! fd else None)"

definition rw_pos :: "bare_file \<Rightarrow> loff_t option \<Rightarrow> loff_t" where
  "rw_pos f pos = (case pos of None \<Rightarrow> bf_pos f | Some p \<Rightarrow> p)"

definition rw_verify :: "loff_t \<Rightarrow> nat \<Rightarrow> bool" where
  "rw_verify p n \<longleftrightarrow> unat p + n < 2 ^ 63"

definition rw_count :: "nat \<Rightarrow> size_t" where
  "rw_count n = of_nat (min n MAX_RW_COUNT)"

definition put_dev :: "nat \<Rightarrow> scull_dev \<Rightarrow> scull_heap \<Rightarrow> file_sys \<Rightarrow> file_sys" where
  "put_dev i dev h s = s\<lparr>fs_devs := (fs_devs s)[i := dev], fs_heap := h\<rparr>"

definition move_file :: "nat \<Rightarrow> bare_file \<Rightarrow> loff_t option \<Rightarrow> int \<Rightarrow> loff_t \<Rightarrow> file_sys \<Rightarrow> file_sys" where
  "move_file fd f pos ret p s =
     (if pos = None \<and> 0 \<le> ret then s\<lparr>fs_files := (fs_files s)[fd := Some (f\<lparr>bf_pos := p\<rparr>)]\<rparr> else s)"

definition call_open :: "scull_kernel \<Rightarrow> nat \<Rightarrow> u32 \<Rightarrow> file_sys \<Rightarrow> fault + (call_result \<times> file_sys)" where
  "call_open k i f_flags s =
     (if length (fs_devs s) \<le> i then Inr (Ret (- ENXIO), s)
      else bindS (scull_open k (fs_g s) f_flags (fs_devs s ! i) (fs_heap s)) (\<lambda>(ret, dev, h).
        let s = put_dev i dev h s in
        if ret \<noteq> 0 then Inr (Ret ret, s)
        else Inr (Ret (int (length (fs_files s))),
                  s\<lparr>fs_files := fs_files s @ [Some \<lparr>bf_dev = i, bf_flags = f_flags, bf_pos = 0\<rparr>]\<rparr>)))"

definition call_read ::
    "scull_kernel \<Rightarrow> nat \<Rightarrow> loff_t option \<Rightarrow> nat \<Rightarrow> file_sys \<Rightarrow> fault + (call_result \<times> file_sys)" where
  "call_read k fd pos n s =
     (case file_at s fd of
        None \<Rightarrow> Inr (Ret_bytes (- EBADF) [], s)
      | Some f \<Rightarrow>
          if OPEN_FMODE (bf_flags f) AND FMODE_READ = 0 then Inr (Ret_bytes (- EBADF) [], s)
          else if \<not> rw_verify (rw_pos f pos) n then Inr (Ret_bytes (- EINVAL) [], s)
          else bindS (scull_read k (fs_devs s ! bf_dev f) (fs_heap s) (rw_count n) (rw_pos f pos))
            (\<lambda>(ret, out, p, dev, h). Inr (Ret_bytes ret out, move_file fd f pos ret p (put_dev (bf_dev f) dev h s))))"

definition call_write ::
    "scull_kernel \<Rightarrow> nat \<Rightarrow> loff_t option \<Rightarrow> byte list \<Rightarrow> file_sys \<Rightarrow> fault + (call_result \<times> file_sys)" where
  "call_write k fd pos buf s =
     (case file_at s fd of
        None \<Rightarrow> Inr (Ret (- EBADF), s)
      | Some f \<Rightarrow>
          if OPEN_FMODE (bf_flags f) AND FMODE_WRITE = 0 then Inr (Ret (- EBADF), s)
          else if \<not> rw_verify (rw_pos f pos) (length buf) then Inr (Ret (- EINVAL), s)
          else bindS (scull_write k (fs_devs s ! bf_dev f) (fs_heap s) buf (rw_count (length buf)) (rw_pos f pos))
            (\<lambda>(ret, p, dev, h). Inr (Ret ret, move_file fd f pos ret p (put_dev (bf_dev f) dev h s))))"

text \<open>The table has no release function, so that closing a file does nothing to the device.\<close>

definition call_close :: "nat \<Rightarrow> file_sys \<Rightarrow> call_result \<times> file_sys" where
  "call_close fd s =
     (case file_at s fd of
        None \<Rightarrow> (Ret (- EBADF), s)
      | Some _ \<Rightarrow> (Ret 0, s\<lparr>fs_files := (fs_files s)[fd := None]\<rparr>))"

definition call_proc :: "proc_addr \<Rightarrow> int \<Rightarrow> nat \<Rightarrow> file_sys \<Rightarrow> fault + (call_result \<times> file_sys)" where
  "call_proc a r i s =
     (if length (fs_devs s) \<le> i then Inr (Ret_text 0 [], s)
      else bindS (scull_seq_show a r (of_nat i) (fs_devs s ! i) (slab (fs_heap s))) (\<lambda>(ret, out, dev).
        Inr (Ret_text ret out, put_dev i dev (fs_heap s) s)))"

fun exec_call :: "sys_call \<Rightarrow> file_sys \<Rightarrow> fault + (call_result \<times> file_sys)" where
  "exec_call (Call_open k i f_flags) s = call_open k i f_flags s"
| "exec_call (Call_read k fd pos n) s = call_read k fd pos n s"
| "exec_call (Call_write k fd pos buf) s = call_write k fd pos buf s"
| "exec_call (Call_ioctl ki mem cmd arg) s =
     (let (ret, g, mem) = scull_ioctl ki (fs_g s) mem cmd arg in Inr (Ret_mem ret mem, s\<lparr>fs_g := g\<rparr>))"
| "exec_call (Call_close fd) s = Inr (call_close fd s)"
| "exec_call (Call_proc a r i) s = call_proc a r i s"

section \<open>Specification\<close>

text \<open>What a user can tell of a device: its length, the size of its quanta and its bytes.\<close>

record dev_view =
  v_len :: nat
  v_quantum :: nat
  v_bytes :: "nat \<Rightarrow> byte option"

definition view_of :: "slab_map \<Rightarrow> scull_dev \<Rightarrow> dev_view" where
  "view_of s dev = \<lparr>v_len = unat (dev_len dev), v_quantum = unat (quantum_len dev), v_bytes = dev_byte dev s\<rparr>"

definition views :: "file_sys \<Rightarrow> dev_view list" where
  "views s = map (view_of (slab (fs_heap s))) (fs_devs s)"

text \<open>How much of a range of \<open>n\<close> bytes a write covers, and what it does to the view.\<close>

definition view_span :: "dev_view \<Rightarrow> nat \<Rightarrow> nat \<Rightarrow> nat" where
  "view_span v p n = min (min n MAX_RW_COUNT) (v_quantum v - p mod v_quantum v)"

definition view_write :: "dev_view \<Rightarrow> nat \<Rightarrow> byte list \<Rightarrow> int \<Rightarrow> dev_view \<Rightarrow> bool" where
  "view_write v p buf ret v' \<longleftrightarrow>
     v_quantum v' = v_quantum v \<and>
     (if ret < 0
      then v_len v' = v_len v \<and> (\<exists>bs. length bs \<le> view_span v p (length buf) \<and> spec_write (v_bytes v) p bs (v_bytes v'))
      else ret = int (view_span v p (length buf)) \<and> v_len v' = max (v_len v) (p + nat ret) \<and>
           spec_write (v_bytes v) p (take (nat ret) buf) (v_bytes v'))"

text \<open>
  The specification of a call, over the views before and after: a read changes nothing and
  returns the bytes of its device; a write changes its device as \<open>view_write\<close> says and no other; an
  open for writing only may empty its device; nothing else changes a device.
\<close>

fun call_spec :: "file_sys \<Rightarrow> sys_call \<Rightarrow> call_result \<Rightarrow> dev_view list \<Rightarrow> dev_view list \<Rightarrow> bool" where
  "call_spec s (Call_open k i f_flags) r V V' \<longleftrightarrow>
     (\<exists>ret. r = Ret ret \<and>
       (if 0 \<le> ret \<and> f_flags AND O_ACCMODE = O_WRONLY
        then V' = V[i := \<lparr>v_len = 0, v_quantum = unat (scull_quantum (fs_g s)), v_bytes = (\<lambda>_. None)\<rparr>] else V' = V))"
| "call_spec s (Call_read k fd pos n) r V V' \<longleftrightarrow>
     V' = V \<and> (\<exists>ret out. r = Ret_bytes ret out \<and> (0 \<le> ret \<longrightarrow>
       (\<exists>f. file_at s fd = Some f \<and> ret = int (length out) \<and>
          out = spec_read (v_bytes (V ! bf_dev f)) (v_len (V ! bf_dev f)) (v_quantum (V ! bf_dev f))
                  (min n MAX_RW_COUNT) (unat (rw_pos f pos)))))"
| "call_spec s (Call_write k fd pos buf) r V V' \<longleftrightarrow>
     (\<exists>ret. r = Ret ret \<and>
       (ret < 0 \<and> V' = V \<or>
        (\<exists>f v'. file_at s fd = Some f \<and> V' = V[bf_dev f := v'] \<and>
           view_write (V ! bf_dev f) (unat (rw_pos f pos)) buf ret v')))"
| "call_spec s _ r V V' \<longleftrightarrow> V' = V"

section \<open>Invariant\<close>

text \<open>
  The module parameters are sane for objects of the size \<open>objsz\<close>; every device satisfies its
  invariant; no two devices share a quantum; open files refer to devices and have positions that the
  system call layer lets through.
\<close>

definition globals_ok :: "nat \<Rightarrow> scull_globals \<Rightarrow> bool" where
  "globals_ok objsz g \<longleftrightarrow>
     0 < scull_quantum g \<and> 0 < scull_qset g \<and> unat (scull_quantum g) * unat (scull_qset g) < 2 ^ 64 \<and>
     unat (scull_quantum g) \<le> objsz"

definition devs_wf :: "nat \<Rightarrow> scull_dev list \<Rightarrow> slab_map \<Rightarrow> bool" where
  "devs_wf objsz devs s \<longleftrightarrow>
     (\<forall>i < length devs. dev_wf objsz (devs ! i) s) \<and>
     (\<forall>i < length devs. \<forall>j < length devs. i \<noteq> j \<longrightarrow> owned (devs ! i) \<inter> owned (devs ! j) = {})"

definition file_sys_wf :: "nat \<Rightarrow> file_sys \<Rightarrow> bool" where
  "file_sys_wf objsz s \<longleftrightarrow>
     globals_ok objsz (fs_g s) \<and> devs_wf objsz (fs_devs s) (slab (fs_heap s)) \<and>
     (\<forall>f. Some f \<in> set (fs_files s) \<longrightarrow> bf_dev f < length (fs_devs s))"

text \<open>
  The documented behaviour of the kernel functions that a call relies on. A step is any call during
  which they behave so and that returns.
\<close>

fun call_kernel_ok :: "nat \<Rightarrow> sys_call \<Rightarrow> bool" where
  "call_kernel_ok objsz (Call_open k i f_flags) \<longleftrightarrow> free_bulk_ok k"
| "call_kernel_ok objsz (Call_read k fd pos n) \<longleftrightarrow> copy_to_user_ok k"
| "call_kernel_ok objsz (Call_write k fd pos buf) \<longleftrightarrow> slab_alloc_ok objsz k \<and> copy_from_user_ok k"
| "call_kernel_ok objsz _ \<longleftrightarrow> True"

definition file_step :: "nat \<Rightarrow> file_sys \<Rightarrow> file_sys \<Rightarrow> bool" where
  "file_step objsz s s' \<longleftrightarrow> (\<exists>c r. call_kernel_ok objsz c \<and> exec_call c s = Inr (r, s'))"

text \<open>
  The one call that reads past an object: the proc entry of a device whose last node has a quantum,
  when the objects are shorter than the bytes it prints, at most 500 per quantum.
\<close>

fun proc_overrun :: "nat \<Rightarrow> file_sys \<Rightarrow> sys_call \<Rightarrow> bool" where
  "proc_overrun objsz s (Call_proc a r i) \<longleftrightarrow>
     r = 0 \<and> i < length (fs_devs s) \<and>
     objsz < min (unat (dev_len (fs_devs s ! i))) 500 \<and> last_quanta (qset (fs_devs s ! i)) \<noteq> {}"
| "proc_overrun objsz s _ \<longleftrightarrow> False"

section \<open>Every call keeps the invariant and meets its specification\<close>

lemma devs_wf_put:
  assumes "devs_wf objsz devs s" and "i < length devs" and "dev_wf objsz dev s'"
    and "\<And>j. j < length devs \<Longrightarrow> j \<noteq> i \<Longrightarrow> dev_wf objsz (devs ! j) s' \<and> owned dev \<inter> owned (devs ! j) = {}"
  shows "devs_wf objsz (devs[i := dev]) s'"
  using assms unfolding devs_wf_def by (auto simp: nth_list_update)

lemma views_put:
  assumes "i < length (fs_devs s)"
    and "\<And>j. j < length (fs_devs s) \<Longrightarrow> j \<noteq> i \<Longrightarrow> dev_byte (fs_devs s ! j) (slab h) = dev_byte (fs_devs s ! j) (slab (fs_heap s))"
  shows "views (put_dev i dev h s) = (views s)[i := view_of (slab h) dev]"
  using assms by (auto simp: views_def put_dev_def view_of_def nth_list_update intro!: nth_equalityI)

lemma views_files [simp]: "views (s\<lparr>fs_files := fs\<rparr>) = views s" "views (s\<lparr>fs_g := g\<rparr>) = views s"
  by (simp_all add: views_def)

lemma views_move [simp]: "views (move_file fd f pos ret p s) = views s"
  by (simp add: move_file_def)

lemma views_nth: "i < length (fs_devs s) \<Longrightarrow> views s ! i = view_of (slab (fs_heap s)) (fs_devs s ! i)"
  by (simp add: views_def)

lemma put_dev_same: "i < length (fs_devs s) \<Longrightarrow> put_dev i (fs_devs s ! i) (fs_heap s) s = s"
  by (simp add: put_dev_def)

lemma file_at_dev: "file_sys_wf objsz s \<Longrightarrow> file_at s fd = Some f \<Longrightarrow> bf_dev f < length (fs_devs s)"
  by (auto simp: file_sys_wf_def file_at_def in_set_conv_nth split: if_splits)

lemma wf_move:
  assumes "file_sys_wf objsz s" and "bf_dev f < length (fs_devs s)"
  shows "file_sys_wf objsz (move_file fd f pos ret p s)"
  using assms by (auto simp: file_sys_wf_def move_file_def dest!: set_update_subset_insert [THEN subsetD])

lemma wf_put:
  assumes "file_sys_wf objsz s" and "devs_wf objsz ((fs_devs s)[i := dev]) (slab h)"
  shows "file_sys_wf objsz (put_dev i dev h s)"
  using assms by (simp add: file_sys_wf_def put_dev_def)

lemma rw_args:
  assumes "rw_verify p n"
  shows "unat (rw_count n) = min n MAX_RW_COUNT" "rw_args_ok (rw_count n) p"
proof -
  show c: "unat (rw_count n) = min n MAX_RW_COUNT" unfolding rw_count_def by (rule unat_rw_count)
  have "min n MAX_RW_COUNT \<le> n" "unat p + n < 2 ^ 63" using assms by (simp_all add: rw_verify_def)
  then show "rw_args_ok (rw_count n) p" unfolding rw_args_ok_def c by linarith
qed

lemma call_open_ok:
  assumes wf: "file_sys_wf objsz s" and k: "free_bulk_ok k"
  shows "\<exists>r s'. call_open k i f_flags s = Inr (r, s') \<and> file_sys_wf objsz s' \<and>
    call_spec s (Call_open k i f_flags) r (views s) (views s')"
proof (cases "i < length (fs_devs s)")
  case False
  then show ?thesis using wf by (simp add: call_open_def)
next
  case i: True
  let ?d = "fs_devs s ! i" and ?h = "fs_heap s"
  have devs: "devs_wf objsz (fs_devs s) (slab ?h)" and g: "globals_ok objsz (fs_g s)"
    using wf by (simp_all add: file_sys_wf_def)
  have d: "dev_wf objsz ?d (slab ?h)" using devs i by (simp add: devs_wf_def)
  let ?e = "?d\<lparr>dev_len := 0, quantum_len := scull_quantum (fs_g s), qset_len := scull_qset (fs_g s), qset := []\<rparr>"
  obtain h' where h': "slab h' = slab ?h |` (- (owned ?d - last_slots ?d))"
    and eq: "scull_open k (fs_g s) f_flags ?d ?h =
      (if f_flags AND O_ACCMODE \<noteq> O_WRONLY then Inr (0, ?d, ?h)
       else if k_mutex_lock_interruptible k \<noteq> 0 then Inr (- ERESTARTSYS, ?d, ?h) else Inr (0, ?e, h'))"
    using scull_open_spec [OF d k, of "fs_g s" f_flags] by blast
  let ?new = "Some \<lparr>bf_dev = i, bf_flags = f_flags, bf_pos = 0\<rparr>"
  consider (plain) "f_flags AND O_ACCMODE \<noteq> O_WRONLY"
    | (signal) "f_flags AND O_ACCMODE = O_WRONLY" "k_mutex_lock_interruptible k \<noteq> 0"
    | (trim) "f_flags AND O_ACCMODE = O_WRONLY" "k_mutex_lock_interruptible k = 0" by blast
  then show ?thesis
  proof cases
    case plain
    then show ?thesis
      using i wf by (auto simp: call_open_def eq put_dev_same file_sys_wf_def)
  next
    case signal
    then show ?thesis using i wf by (simp add: call_open_def eq put_dev_same)
  next
    case trim
    let ?s = "put_dev i ?e h' s"
    have e: "dev_wf objsz ?e (slab h')" "owned ?e = {}" "dev_byte ?e (slab h') = (\<lambda>_. None)"
      using d g by (auto simp: dev_wf_def geom_ok_def globals_ok_def dev_byte_def quantum_at_def case_prod_unfold Let_def)
    have other: "dev_wf objsz (fs_devs s ! j) (slab h') \<and> dev_byte (fs_devs s ! j) (slab h') = dev_byte (fs_devs s ! j) (slab ?h)"
      if j: "j < length (fs_devs s)" "j \<noteq> i" for j
    proof -
      have "dev_wf objsz (fs_devs s ! j) (slab ?h)" "owned ?d \<inter> owned (fs_devs s ! j) = {}"
        using devs i j by (simp_all add: devs_wf_def)
      moreover have "slab h' a = slab ?h a" if "a \<in> owned (fs_devs s ! j)" for a
        using that calculation(2) by (auto simp: h' restrict_map_def)
      ultimately show ?thesis using dev_frame by blast
    qed
    have "file_sys_wf objsz ?s"
      by (rule wf_put [OF wf devs_wf_put [OF devs i e(1)]]) (use other e(2) in auto)
    moreover have "views ?s = (views s)[i := view_of (slab h') ?e]"
      by (rule views_put [OF i]) (use other in blast)
    moreover have "view_of (slab h') ?e = \<lparr>v_len = 0, v_quantum = unat (scull_quantum (fs_g s)), v_bytes = (\<lambda>_. None)\<rparr>"
      by (simp add: view_of_def e(3))
    ultimately show ?thesis
      using i trim by (auto simp: call_open_def eq Let_def file_sys_wf_def put_dev_def)
  qed
qed

lemma call_read_ok:
  assumes wf: "file_sys_wf objsz s" and k: "copy_to_user_ok k"
  shows "\<exists>r s'. call_read k fd pos n s = Inr (r, s') \<and> file_sys_wf objsz s' \<and>
    call_spec s (Call_read k fd pos n) r (views s) (views s')"
proof (cases "\<exists>f. file_at s fd = Some f \<and> OPEN_FMODE (bf_flags f) AND FMODE_READ \<noteq> 0 \<and> rw_verify (rw_pos f pos) n")
  case False
  then show ?thesis using wf by (auto simp: call_read_def split: option.split)
next
  case True
  then obtain f where f: "file_at s fd = Some f" "OPEN_FMODE (bf_flags f) AND FMODE_READ \<noteq> 0" "rw_verify (rw_pos f pos) n"
    by blast
  let ?d = "fs_devs s ! bf_dev f" and ?h = "fs_heap s" and ?p = "rw_pos f pos"
  let ?out = "spec_read (dev_byte ?d (slab ?h)) (unat (dev_len ?d)) (unat (quantum_len ?d)) (min n MAX_RW_COUNT) (unat ?p)"
  have i: "bf_dev f < length (fs_devs s)" by (rule file_at_dev [OF wf f(1)])
  have d: "dev_wf objsz ?d (slab ?h)" using wf i by (simp add: file_sys_wf_def devs_wf_def)
  have eq: "scull_read k ?d ?h (rw_count n) ?p =
     (if k_mutex_lock_interruptible k \<noteq> 0 then Inr (- ERESTARTSYS, [], ?p, ?d, ?h)
      else if unat (dev_len ?d) \<le> unat ?p \<or> dev_byte ?d (slab ?h) (unat ?p) = None
      then Inr (0, [], ?p, ?d, ?h)
      else if snd (k_copy_to_user k ?out) \<noteq> 0
      then Inr (- EFAULT, fst (k_copy_to_user k ?out), ?p, ?d, ?h)
      else Inr (int (length ?out), ?out, ?p + of_nat (length ?out), ?d, ?h))"
    using scull_read_spec [OF d rw_args(2) [OF f(3)] k] unfolding rw_args(1) [OF f(3)] .
  have empty: "?out = []" if "unat (dev_len ?d) \<le> unat ?p \<or> dev_byte ?d (slab ?h) (unat ?p) = None"
    using that by (simp add: spec_read_def)
  have "\<exists>ret out p. scull_read k ?d ?h (rw_count n) ?p = Inr (ret, out, p, ?d, ?h) \<and>
      (0 \<le> ret \<longrightarrow> out = ?out \<and> ret = int (length out))"
    unfolding eq using empty
    by (cases "k_mutex_lock_interruptible k = 0"; cases "unat (dev_len ?d) \<le> unat ?p \<or> dev_byte ?d (slab ?h) (unat ?p) = None";
        cases "snd (k_copy_to_user k ?out) = 0"; simp)
  then obtain ret out p where r: "scull_read k ?d ?h (rw_count n) ?p = Inr (ret, out, p, ?d, ?h)"
    "0 \<le> ret \<longrightarrow> out = ?out \<and> ret = int (length out)" by blast
  have "call_read k fd pos n s = Inr (Ret_bytes ret out, move_file fd f pos ret p s)"
    using f r(1) i by (simp add: call_read_def put_dev_same)
  moreover have "file_sys_wf objsz (move_file fd f pos ret p s)" by (rule wf_move [OF wf i])
  ultimately show ?thesis using r(2) f(1) i by (auto simp: views_nth view_of_def)
qed

lemma write_outcome_view:
  assumes "write_outcome dev s buf count p ret p' dev' s'" and "rw_verify p (length buf)"
    and "count = rw_count (length buf)"
  shows "view_write (view_of s dev) (unat p) buf ret (view_of s' dev')"
proof -
  let ?n = "write_len dev count p"
  have args: "unat count = min (length buf) MAX_RW_COUNT" "rw_args_ok count p"
    using rw_args [OF assms(2)] assms(3) by simp_all
  have n: "view_span (view_of s dev) (unat p) (length buf) = ?n"
    by (simp add: view_span_def write_len_def view_of_def args(1))
  have "?n \<le> length buf" unfolding write_len_def args(1) by simp
  have q: "quantum_len dev' = quantum_len dev" if "geom dev' = geom dev"
    using that by (simp add: geom_def word_unat_eq_iff)
  consider (nomem) "ret = - ENOMEM" "dev_ext dev s dev' s'"
    | (copy) bs where "ret = - EFAULT" "dev_len dev' = dev_len dev" "geom dev' = geom dev" "length bs = ?n"
        "spec_write (dev_byte dev s) (unat p) bs (dev_byte dev' s')"
    | (full) "ret = int ?n" "p' = p + of_nat ?n" "dev_len dev' = max (dev_len dev) p'" "geom dev' = geom dev"
        "spec_write (dev_byte dev s) (unat p) (take ?n buf) (dev_byte dev' s')"
    using assms(1) unfolding write_outcome_def Let_def by blast
  then show ?thesis
  proof cases
    case nomem
    have "spec_write (dev_byte dev s) (unat p) [] (dev_byte dev' s')"
      using dev_ext_byte [OF nomem(2)] by (auto simp: spec_write_def)
    then show ?thesis
      using nomem by (auto simp: view_write_def view_of_def dev_ext_def intro!: exI [of _ "[]"])
  next
    case copy
    then show ?thesis
      using q n by (simp add: view_write_def) (simp add: view_of_def, blast intro: eq_imp_le)
  next
    case full
    have "unat p' = unat p + ?n" unfolding full(2) by (rule unat_write_end [OF args(2)])
    then have "unat (dev_len dev') = max (unat (dev_len dev)) (unat p + ?n)"
      unfolding full(3) by (auto simp: max_def word_le_nat_alt)
    then show ?thesis using full q n by (simp add: view_write_def) (simp add: view_of_def)
  qed
qed

lemma call_write_ok:
  assumes wf: "file_sys_wf objsz s" and k: "slab_alloc_ok objsz k" "copy_from_user_ok k"
  shows "\<exists>r s'. call_write k fd pos buf s = Inr (r, s') \<and> file_sys_wf objsz s' \<and>
    call_spec s (Call_write k fd pos buf) r (views s) (views s')"
proof (cases "\<exists>f. file_at s fd = Some f \<and> OPEN_FMODE (bf_flags f) AND FMODE_WRITE \<noteq> 0 \<and> rw_verify (rw_pos f pos) (length buf)")
  case False
  then show ?thesis using wf by (auto simp: call_write_def split: option.split)
next
  case True
  then obtain f where f: "file_at s fd = Some f" "OPEN_FMODE (bf_flags f) AND FMODE_WRITE \<noteq> 0" "rw_verify (rw_pos f pos) (length buf)"
    by blast
  let ?d = "fs_devs s ! bf_dev f" and ?h = "fs_heap s" and ?p = "rw_pos f pos" and ?c = "rw_count (length buf)"
  have i: "bf_dev f < length (fs_devs s)" by (rule file_at_dev [OF wf f(1)])
  have devs: "devs_wf objsz (fs_devs s) (slab ?h)" using wf by (simp add: file_sys_wf_def)
  have d: "dev_wf objsz ?d (slab ?h)" using devs i by (simp add: devs_wf_def)
  have args: "rw_args_ok ?c ?p" "unat ?c \<le> length buf" using rw_args [OF f(3)] by simp_all
  show ?thesis
  proof (cases "k_mutex_lock_interruptible k = 0")
    case False
    then have "scull_write k ?d ?h buf ?c ?p = Inr (- ERESTARTSYS, ?p, ?d, ?h)"
      by (simp add: scull_write_def mutex_lock_interruptible_sparse_def)
    then show ?thesis using f wf i by (simp add: call_write_def put_dev_same move_file_def)
  next
    case True
    obtain ret p' d' h' where w: "scull_write k ?d ?h buf ?c ?p = Inr (ret, p', d', h')" "dev_wf objsz d' (slab h')"
      "write_outcome ?d (slab ?h) buf ?c ?p ret p' d' (slab h')"
      using scull_write_spec [OF d k args True] by metis
    have other: "dev_wf objsz (fs_devs s ! j) (slab h') \<and> owned d' \<inter> owned (fs_devs s ! j) = {} \<and>
        dev_byte (fs_devs s ! j) (slab h') = dev_byte (fs_devs s ! j) (slab ?h)"
      if "j < length (fs_devs s)" "j \<noteq> bf_dev f" for j
      using that devs i by (intro scull_write_isolated [OF d _ _ k args w(1)]) (auto simp: devs_wf_def)
    let ?s = "put_dev (bf_dev f) d' h' s"
    have wf': "file_sys_wf objsz ?s"
      by (rule wf_put [OF wf devs_wf_put [OF devs i w(2)]]) (use other in blast)
    have "call_write k fd pos buf s = Inr (Ret ret, move_file fd f pos ret p' ?s)"
      using f w(1) by (simp add: call_write_def)
    moreover have "file_sys_wf objsz (move_file fd f pos ret p' ?s)"
      by (rule wf_move [OF wf']) (use i in \<open>simp add: put_dev_def\<close>)
    moreover have "views ?s = (views s)[bf_dev f := view_of (slab h') d']"
      by (rule views_put [OF i]) (use other in blast)
    moreover have "view_write (view_of (slab ?h) ?d) (unat ?p) buf ret (view_of (slab h') d')"
      by (rule write_outcome_view [OF w(3) f(3) refl])
    ultimately show ?thesis using f(1) i by (auto simp: views_nth)
  qed
qed

lemma call_proc_ok:
  assumes wf: "file_sys_wf objsz s"
  shows "if proc_overrun objsz s (Call_proc a r0 i) then call_proc a r0 i s = Inl OutOfBounds
    else \<exists>r. call_proc a r0 i s = Inr (r, s)"
proof (cases "i < length (fs_devs s)")
  case True
  then have "dev_wf objsz (fs_devs s ! i) (slab (fs_heap s))" using wf by (simp add: file_sys_wf_def devs_wf_def)
  from scull_seq_show_eq [OF this] show ?thesis
    using True by (auto simp: call_proc_def put_dev_same Let_def)
qed (simp add: call_proc_def)

text \<open>
  Every call whose kernel functions behave as documented: it returns and meets its specification, or
  it is the overrun of the proc file; the invariant is kept when the module parameters stay sane.
\<close>

lemma exec_call_ok:
  assumes wf: "file_sys_wf objsz s" and ok: "call_kernel_ok objsz c"
  shows "if proc_overrun objsz s c then exec_call c s = Inl OutOfBounds
    else \<exists>r s'. exec_call c s = Inr (r, s') \<and> (globals_ok objsz (fs_g s') \<longrightarrow> file_sys_wf objsz s') \<and>
      call_spec s c r (views s) (views s')"
proof (cases c)
  case (Call_open k i f_flags)
  then show ?thesis using call_open_ok [OF wf, of k i f_flags] ok by (simp del: call_spec.simps) blast
next
  case (Call_read k fd pos n)
  then show ?thesis using call_read_ok [OF wf, of k fd pos n] ok by (simp del: call_spec.simps) blast
next
  case (Call_write k fd pos buf)
  then show ?thesis using call_write_ok [OF wf, of k fd pos buf] ok by (simp del: call_spec.simps) blast
next
  case (Call_ioctl ki mem cmd arg)
  then show ?thesis using wf by (auto simp: file_sys_wf_def split_beta)
next
  case (Call_close fd)
  then show ?thesis
    using wf by (auto simp: call_close_def file_sys_wf_def split: option.split dest!: set_update_subset_insert [THEN subsetD])
next
  case (Call_proc a r i)
  then show ?thesis using call_proc_ok [OF wf, of a r i] wf by (auto split: if_splits)
qed

text \<open>The calls that leave sane module parameters, as a transition system.\<close>

interpretation scull_files: transition_system "file_sys_wf objsz"
  "\<lambda>s s'. file_step objsz s s' \<and> globals_ok objsz (fs_g s')" "file_sys_wf objsz" for objsz
proof
  fix s t assume wf: "file_sys_wf objsz s" and st: "file_step objsz s t \<and> globals_ok objsz (fs_g t)"
  then obtain c r where c: "call_kernel_ok objsz c" "exec_call c s = Inr (r, t)" by (auto simp: file_step_def)
  from exec_call_ok [OF wf c(1)] show "file_sys_wf objsz t" using c(2) st by (auto split: if_splits)
qed

end
