(* ===== verification/Scull_Files_Props.thy ===== *)
theory Scull_Files_Props
  imports Scull_Files
begin

text \<open>
  What the users of a loaded scull module get: the device numbers lead to the right devices and
  tables, every sequence of system calls that leaves sane module parameters meets its specification,
  the module can be unloaded afterwards, up to the quanta it has lost, and two ways in which it goes
  wrong.
\<close>

unbundle bit_operations_syntax

section \<open>From module start to the first call\<close>

definition loaded_files :: "scull_mod \<Rightarrow> mod_dev list \<Rightarrow> file_sys" where
  "loaded_files m ds = \<lparr>fs_g = m_g m, fs_devs = map d_dev ds, fs_heap = m_heap m, fs_files = []\<rparr>"

text \<open>The module whose devices have been used: what the calls changed is put back.\<close>

definition used_module :: "scull_mod \<Rightarrow> mod_dev list \<Rightarrow> file_sys \<Rightarrow> scull_mod" where
  "used_module m ds s =
     m\<lparr>m_g := fs_g s, m_devices := Some (map2 (\<lambda>d dev. d\<lparr>d_dev := dev\<rparr>) ds (fs_devs s)), m_heap := fs_heap s\<rparr>"

lemma loaded_files_wf:
  assumes "mod_idle m" and "mod_kernel_ok k" and "scull_init_module k m = Inr (0, m1)" and "m_devices m1 = Some ds"
    and "globals_ok objsz (m_g m)" and "objsz = unat (scull_quantum (m_g m))"
  shows "file_sys_wf objsz (loaded_files m1 ds)"
proof -
  obtain major where "devs_fresh m1" and g: "m_g m1 = (m_g m)\<lparr>scull_major := major\<rparr>"
    using scull_init_outcome [OF assms(1), of k] assms(2,3) by (auto simp: mod_kernel_ok_def)
  then have "map d_dev ds = replicate (unat (scull_nr_devs (m_g m1))) (dev_fresh (m_g m1))"
    using assms(4) by (simp add: devs_fresh_def)
  then have fresh: "map d_dev ds ! i = dev_fresh (m_g m1)" if "i < length (map d_dev ds)" for i
    using that by simp
  have "dev_wf objsz (dev_fresh (m_g m1)) sl" for sl
    using dev_fresh_wf [of "m_g m1" sl] assms(5) by (simp add: g assms(6) globals_ok_def)
  moreover have "owned (dev_fresh (m_g m1)) = {}" by (simp add: dev_fresh_def dev_zero_def)
  ultimately have "devs_wf objsz (map d_dev ds) (slab (m_heap m1))"
    unfolding devs_wf_def using fresh by simp
  then show ?thesis using assms(5) by (simp add: file_sys_wf_def loaded_files_def g globals_ok_def)
qed

text \<open>What no call changes: the number of devices and the parameters that the device numbers depend on.\<close>

definition fs_fixed :: "file_sys \<Rightarrow> nat \<times> int \<times> int \<times> ulong \<times> ulong" where
  "fs_fixed s = (length (fs_devs s), scull_major (fs_g s), scull_minor (fs_g s), scull_nr_devs (fs_g s), scull_p_nr_devs (fs_g s))"

lemma fs_fixed_simps [simp]:
  "fs_fixed (put_dev i dev h s) = fs_fixed s" "fs_fixed (move_file fd f pos ret p s) = fs_fixed s"
  "fs_fixed (s\<lparr>fs_files := fs\<rparr>) = fs_fixed s"
  by (simp_all add: fs_fixed_def put_dev_def move_file_def)

lemma scull_ioctl_fixed:
  assumes "scull_ioctl k g m cmd arg = (ret, g', m')"
  shows "scull_major g' = scull_major g \<and> scull_minor g' = scull_minor g \<and> scull_nr_devs g' = scull_nr_devs g \<and>
    scull_p_nr_devs g' = scull_p_nr_devs g"
  using assms by (auto simp: scull_ioctl_def Let_def split: if_splits prod.splits)

lemma exec_call_fixed:
  assumes "exec_call c s = Inr (r, s')"
  shows "fs_fixed s' = fs_fixed s"
proof (cases c)
  case (Call_ioctl ki mem cmd arg)
  then show ?thesis
    using assms scull_ioctl_fixed [of ki "fs_g s" mem cmd arg] by (auto simp: fs_fixed_def split: prod.splits)
qed (use assms in \<open>auto simp: call_open_def call_read_def call_write_def call_close_def call_proc_def bindS_eq_Inr Let_def
       split: option.splits if_splits prod.splits\<close>)

lemma file_steps_fixed:
  "(\<lambda>s s'. file_step objsz s s' \<and> globals_ok objsz (fs_g s'))\<^sup>*\<^sup>* s t \<Longrightarrow> fs_fixed t = fs_fixed s"
  by (induction rule: rtranclp_induct) (auto simp: file_step_def dest: exec_call_fixed)

lemma used_module_running:
  assumes "mod_running m" and "m_devices m = Some ds" and "file_sys_wf objsz s"
    and "fs_fixed s = fs_fixed (loaded_files m ds)"
  shows "mod_running (used_module m ds s)"
proof -
  let ?ds = "map2 (\<lambda>d dev. d\<lparr>d_dev := dev\<rparr>) ds (fs_devs s)"
  have len: "length (fs_devs s) = length ds" and
    g: "scull_major (fs_g s) = scull_major (m_g m)" "scull_minor (fs_g s) = scull_minor (m_g m)"
      "scull_nr_devs (fs_g s) = scull_nr_devs (m_g m)" "scull_p_nr_devs (fs_g s) = scull_p_nr_devs (m_g m)"
    using assms(4) by (simp_all add: fs_fixed_def loaded_files_def)
  have "map d_cdev ?ds = map d_cdev ds" using len by (auto intro: nth_equalityI)
  then have "d_cdev ` set ?ds = d_cdev ` set ds" by (metis list.set_map)
  then have num: "dev_numbers ?ds = dev_numbers ds" unfolding dev_numbers_def by (metis image_image)
  have "d_dev d \<in> set (fs_devs s)" if "d \<in> set ?ds" for d
    using that len by (auto simp: set_zip in_set_conv_nth)
  then have "dev_lock (d_dev d) = mutex_init" if "d \<in> set ?ds" for d
    using that assms(3) unfolding file_sys_wf_def devs_wf_def by (metis dev_wf_def in_set_conv_nth)
  then show ?thesis
    using assms(1,2) num g by (auto simp: mod_running_def used_module_def split: option.splits)
qed

section \<open>Device numbers\<close>

lemma MKDEV_plus:
  assumes "0 \<le> mi" and "mi < 2 ^ 20"
  shows "MKDEV ma mi = push_bit 20 (word_of_int ma) + word_of_int mi"
proof -
  have "bit (word_of_int mi :: u32) n \<Longrightarrow> n < 20" for n
    using assms bit_take_bit_iff [of 20 mi n] by (simp add: bit_simps take_bit_int_eq_self)
  then have "push_bit 20 (word_of_int ma :: u32) + word_of_int mi = push_bit 20 (word_of_int ma) OR word_of_int mi"
    by (intro disjunctive_add) (metis bit_push_bit_iff not_le)
  then show ?thesis by (simp add: MKDEV_def)
qed

lemma MKDEV_inj:
  assumes "MKDEV ma mi = MKDEV ma mi'" and "0 \<le> mi" and "mi < 2 ^ 20" and "0 \<le> mi'" and "mi' < 2 ^ 20"
  shows "mi = mi'"
proof -
  have "(word_of_int mi :: u32) = word_of_int mi'" using assms by (simp add: MKDEV_plus)
  then have "uint (word_of_int mi :: u32) = uint (word_of_int mi' :: u32)" by simp
  then show ?thesis using assms(2-5) by (simp add: uint_word_of_int)
qed

lemma MKDEV_shift:
  assumes "0 \<le> mi" and "mi + int j < 2 ^ 20"
  shows "MKDEV ma mi + of_nat j = MKDEV ma (mi + int j)"
  using assms by (simp add: MKDEV_plus)

lemma cdev_index_map:
  assumes "inj_on N {..<n}"
  shows "i < n \<Longrightarrow> cdev_index (N i) (map (\<lambda>j. Cdev_added ops (N j)) [0..<n]) = Some i"
    and "d \<notin> N ` {..<n} \<Longrightarrow> cdev_index d (map (\<lambda>j. Cdev_added ops (N j)) [0..<n]) = None"
proof -
  let ?cs = "map (\<lambda>j. Cdev_added ops (N j)) [0..<n]"
  show "cdev_index (N i) ?cs = Some i" if "i < n"
  proof -
    have "filter (\<lambda>j. cdev_number (?cs ! j) = Some (N i)) [0..<length ?cs] = filter (\<lambda>j. j = i) [0..<n]"
      using assms that by (intro filter_cong) (auto dest: inj_onD)
    also have "\<dots> = filter (\<lambda>j. j = i) ([0..<i] @ i # [Suc i..<n])"
      using that upt_add_eq_append [of 0 i "n - i"] by (simp add: upt_conv_Cons)
    also have "\<dots> = [i]" by (simp add: filter_empty_conv)
    finally show ?thesis by (simp add: cdev_index_def)
  qed
  show "cdev_index d ?cs = None" if "d \<notin> N ` {..<n}"
  proof -
    have "filter (\<lambda>j. cdev_number (?cs ! j) = Some d) [0..<length ?cs] = []" using that by (auto simp: filter_empty_conv)
    then show ?thesis by (simp add: cdev_index_def)
  qed
qed

lemma init_devices_cdevs:
  assumes "\<And>d. k_cdev_add k d = 0"
  shows "map d_cdev (fst (init_devices k n i m)) =
    map (\<lambda>j. Cdev_added scull_fops (MKDEV (scull_major (m_g m)) (scull_minor (m_g m) + int j))) [i..<n]"
proof (induction "n - i" arbitrary: i m)
  case 0
  then show ?case by (subst init_devices.simps) simp
next
  case (Suc l)
  then have "i < n" "l = n - Suc i" by simp_all
  with Suc.hyps(1) show ?case
    by (subst init_devices.simps) (simp add: assms scull_setup_cdev_def set_cdev_ops_def cdev_defs Let_def split_beta upt_conv_Cons)
qed

lemma init_pipes_cdevs:
  assumes "\<And>d. k_cdev_add k d = 0"
  shows "map d_pcdev (fst (init_pipes k n i m)) = map (\<lambda>j. Cdev_added scull_pipe_fops (m_p_dev m + of_nat j)) [i..<n]"
proof (induction "n - i" arbitrary: i m)
  case 0
  then show ?case by (subst init_pipes.simps) simp
next
  case (Suc l)
  then have "i < n" "l = n - Suc i" by simp_all
  with Suc.hyps(1) show ?case
    by (subst init_pipes.simps) (simp add: assms scull_p_setup_cdev_def cdev_defs Let_def split_beta upt_conv_Cons)
qed

lemma scull_p_init_cdevs:
  assumes "scull_p_init k dev m = (ret, m1)" and "m_p_devices m1 = Some ps" and "m_p_devices m = None"
    and "\<And>d. k_cdev_add k d = 0"
  shows "map d_pcdev ps = map (\<lambda>j. Cdev_added scull_pipe_fops (dev + of_nat j)) [0..<unat (scull_p_nr_devs (m_g m))]"
    "m_g m1 = m_g m" "m_devices m1 = m_devices m"
proof -
  let ?n = "scull_p_nr_devs (m_g m)" and ?m = "m\<lparr>m_regions := (dev, scull_p_nr_devs (m_g m)) # m_regions m, m_p_dev := dev\<rparr>"
  obtain ps' cd where p: "init_pipes k (unat ?n) 0 ?m = (ps', ?m\<lparr>m_cdevs := cd\<rparr>)"
    using init_pipes_eq by blast
  have "map d_pcdev ps' = map (\<lambda>j. Cdev_added scull_pipe_fops (dev + of_nat j)) [0..<unat ?n]"
    using init_pipes_cdevs [OF assms(4), of "unat ?n" 0 ?m] by (simp add: p)
  then show "map d_pcdev ps = map (\<lambda>j. Cdev_added scull_pipe_fops (dev + of_nat j)) [0..<unat ?n]"
    "m_g m1 = m_g m" "m_devices m1 = m_devices m"
    using assms(1-3) p by (auto simp: scull_p_init_def register_region_def unregister_region_def Let_def split: if_splits)
qed

text \<open>A start that succeeds and adds every character device.\<close>

lemma scull_init_rest_cdevs:
  assumes "scull_init_rest k m = Inr (0, m1)" and "\<And>d. k_cdev_add k d = 0"
    and "m_devices m1 = Some ds" and "m_p_devices m1 = Some ps" and "m_p_devices m = None"
  shows "map d_cdev ds = map (\<lambda>j. Cdev_added scull_fops (MKDEV (scull_major (m_g m1)) (scull_minor (m_g m1) + int j)))
      [0..<unat (scull_nr_devs (m_g m1))]"
    "map d_pcdev ps = map (\<lambda>j. Cdev_added scull_pipe_fops (MKDEV (scull_major (m_g m1)) (scull_minor (m_g m1) +
        int (unat (scull_nr_devs (m_g m1)))) + of_nat j)) [0..<unat (scull_p_nr_devs (m_g m1))]"
proof -
  let ?n = "unat (scull_nr_devs (m_g m))"
  let ?m = "m\<lparr>m_devices := Some (replicate ?n \<lparr>d_dev = dev_zero, d_cdev = Cdev_zero\<rparr>), m_freed := False, m_kmc := True, m_cache := True\<rparr>"
  have mem: "k_kcalloc_devices k" "k_kmem_cache_create k (scull_quantum (m_g m))"
    using assms(1) by (auto simp: scull_init_rest_def Let_def bindS_eq_Inr split: if_splits)
  obtain ds' cd where d: "init_devices k ?n 0 ?m = (ds', ?m\<lparr>m_cdevs := cd\<rparr>)"
    using init_devices_eq by blast
  let ?m2 = "?m\<lparr>m_cdevs := cd, m_devices := Some ds'\<rparr>"
  obtain ret m3 where p: "scull_p_init k (MKDEV (scull_major (m_g m)) (scull_minor (m_g m) + int ?n)) ?m2 = (ret, m3)"
    by fastforce
  have m1: "m1 = m3\<lparr>m_proc := scull_create_proc (m_proc m3)\<rparr>"
    using assms(1) mem d p by (simp add: scull_init_rest_def Let_def)
  have "m_p_devices m3 = Some ps" "m_p_devices ?m2 = None" using assms(4,5) by (simp_all add: m1)
  note c = scull_p_init_cdevs [OF p this assms(2)]
  then have "ds = ds'" and g: "m_g m1 = m_g m" using assms(3) by (simp_all add: m1)
  then show "map d_cdev ds = map (\<lambda>j. Cdev_added scull_fops (MKDEV (scull_major (m_g m1)) (scull_minor (m_g m1) + int j)))
      [0..<unat (scull_nr_devs (m_g m1))]"
    using init_devices_cdevs [OF assms(2), of ?n 0 ?m] by (simp add: d)
  show "map d_pcdev ps = map (\<lambda>j. Cdev_added scull_pipe_fops (MKDEV (scull_major (m_g m1)) (scull_minor (m_g m1) +
        int (unat (scull_nr_devs (m_g m1)))) + of_nat j)) [0..<unat (scull_p_nr_devs (m_g m1))]"
    using c(1) by (simp add: g)
qed

lemma scull_init_cdevs:
  assumes "scull_init_module k m = Inr (0, m1)" and "\<And>d. k_cdev_add k d = 0"
    and "m_devices m1 = Some ds" and "m_p_devices m1 = Some ps" and "m_p_devices m = None"
  shows "map d_cdev ds = map (\<lambda>j. Cdev_added scull_fops (MKDEV (scull_major (m_g m1)) (scull_minor (m_g m1) + int j)))
      [0..<unat (scull_nr_devs (m_g m1))]"
    "map d_pcdev ps = map (\<lambda>j. Cdev_added scull_pipe_fops (MKDEV (scull_major (m_g m1)) (scull_minor (m_g m1) +
        int (unat (scull_nr_devs (m_g m1)))) + of_nat j)) [0..<unat (scull_p_nr_devs (m_g m1))]"
proof -
  obtain m' where "scull_init_rest k m' = Inr (0, m1)" "m_p_devices m' = None"
    using assms(1,5)
    by (auto simp: scull_init_module_def register_region_def alloc_region_def Let_def split: if_splits prod.splits)
  from scull_init_rest_cdevs [OF this(1) assms(2-4) this(2)]
  show "map d_cdev ds = map (\<lambda>j. Cdev_added scull_fops (MKDEV (scull_major (m_g m1)) (scull_minor (m_g m1) + int j)))
      [0..<unat (scull_nr_devs (m_g m1))]"
    "map d_pcdev ps = map (\<lambda>j. Cdev_added scull_pipe_fops (MKDEV (scull_major (m_g m1)) (scull_minor (m_g m1) +
        int (unat (scull_nr_devs (m_g m1)))) + of_nat j)) [0..<unat (scull_p_nr_devs (m_g m1))]" .
qed

text \<open>A start that succeeds has made the cache.\<close>

lemma scull_init_cache:
  assumes "scull_init_module k m = Inr (0, m1)"
  shows "m_cache m1"
proof -
  obtain m' where r: "scull_init_rest k m' = Inr (0, m1)"
    using assms by (auto simp: scull_init_module_def Let_def split: if_splits prod.splits)
  have "m_cache (snd (init_devices k n i x)) = m_cache x" for n i x
    using init_devices_eq [of k n i x] by force
  moreover have "m_cache (snd (init_pipes k n i x)) = m_cache x" for n i x
    using init_pipes_eq [of k n i x] by force
  then have "m_cache (snd (scull_p_init k dev x)) = m_cache x" for dev x
    by (simp add: scull_p_init_def register_region_def unregister_region_def Let_def split_beta)
  ultimately show ?thesis
    using r by (auto simp: scull_init_rest_def bindS_eq_Inr Let_def split_beta split: if_splits)
qed

section \<open>Theorems\<close>

text \<open>
  C6: Every device number of a loaded module, all of whose character devices were added, leads to
  its own device and to the table of operations that its set-up function gave it: the first numbers
  to the bare devices in order with \<open>scull_fops\<close>, the following ones to the pipes in order with
  \<open>scull_pipe_fops\<close>, and all other minor numbers of the module's major number to nothing. With
  four bare devices and four pipes the pipes have the minors 4 to 7.
\<close>

theorem scull_node_dispatch:
  assumes "scull_init_module k m = Inr (0, m1)" and "m_p_devices m = None" and "\<forall>d. k_cdev_add k d = 0"
    and "m_devices m1 = Some ds" and "m_p_devices m1 = Some ps"
    and "n = unat (scull_nr_devs (m_g m1))" and "np = unat (scull_p_nr_devs (m_g m1))"
    and "0 \<le> scull_minor (m_g m1)" and "scull_minor (m_g m1) + int n + int np \<le> 2 ^ 20"
    and "scull_minor (m_g m1) + int i < 2 ^ 20"
  shows "chrdev_node m1 (MKDEV (scull_major (m_g m1)) (scull_minor (m_g m1) + int i)) =
    (if i < n then Some (Bare i, Some scull_fops) else if i < n + np then Some (Fifo (i - n), Some scull_pipe_fops) else None)"
proof -
  let ?N = "\<lambda>j. MKDEV (scull_major (m_g m1)) (scull_minor (m_g m1) + int j)"
  let ?P = "\<lambda>j. MKDEV (scull_major (m_g m1)) (scull_minor (m_g m1) + int n) + of_nat j"
  have inj: "j = j'" if "?N j = ?N j'" "j < n + np \<or> j = i" "j' < n + np \<or> j' = i" for j j'
    using MKDEV_inj [OF that(1)] that(2,3) assms(8-10) by auto
  have P: "?P j = ?N (n + j)" if "j < np" for j
    using MKDEV_shift [of "scull_minor (m_g m1) + int n" j "scull_major (m_g m1)"] that assms(8,9) by (simp add: add.assoc)
  have ds: "map d_cdev ds = map (\<lambda>j. Cdev_added scull_fops (?N j)) [0..<n]"
    and ps: "map d_pcdev ps = map (\<lambda>j. Cdev_added scull_pipe_fops (?P j)) [0..<np]"
    using scull_init_cdevs [OF assms(1) _ assms(4,5,2)] assms(3,6,7) by simp_all
  have cs: "bare_cdevs m1 = map (\<lambda>j. Cdev_added scull_fops (?N j)) [0..<n]"
      "pipe_cdevs m1 = map (\<lambda>j. Cdev_added scull_pipe_fops (?P j)) [0..<np]"
    using ds ps by (simp_all add: bare_cdevs_def pipe_cdevs_def assms(4,5))
  have i1: "inj_on ?N {..<n}" by (rule inj_onI) (use inj in auto)
  have i2: "inj_on ?P {..<np}"
  proof (rule inj_onI)
    fix x y assume xy: "x \<in> {..<np}" "y \<in> {..<np}" "?P x = ?P y"
    then have "?N (n + x) = ?N (n + y)" using P by simp
    then show "x = y" using inj [of "n + x" "n + y"] xy(1,2) by simp
  qed
  have bare: "?N i \<in> ?N ` {..<n} \<longleftrightarrow> i < n"
  proof
    assume "?N i \<in> ?N ` {..<n}"
    then obtain j where "j < n" "?N i = ?N j" by auto
    then show "i < n" using inj [of i j] by simp
  qed simp
  show ?thesis
  proof (cases "i < n + np \<and> n \<le> i")
    case True
    then have "i - n < np" "n + (i - n) = i" by linarith+
    then have "cdev_index (?N i) (pipe_cdevs m1) = Some (i - n)"
      unfolding cs using P cdev_index_map(1) [OF i2] by metis
    moreover have "cdev_index (?N i) (bare_cdevs m1) = None"
      unfolding cs using True bare by (intro cdev_index_map(2) [OF i1]) linarith
    ultimately show ?thesis using True \<open>i - n < np\<close> by (simp add: chrdev_node_def) (simp add: cs)
  next
    case False
    have "?N i \<notin> ?P ` {..<np}" if "n + np \<le> i"
    proof
      assume "?N i \<in> ?P ` {..<np}"
      then obtain j where "j < np" "?N i = ?N (n + j)" using P by auto
      then show False using inj [of i "n + j"] that by simp
    qed
    then show ?thesis
      using False bare cdev_index_map [OF i1] cdev_index_map(2) [OF i2]
      by (auto simp: chrdev_node_def cs)
  qed
qed

text \<open>
  C5: The bare devices of a loaded module, from module start on, under any sequence of opens, reads
  and writes at any position, control commands, closes and reads of the proc file, whatever memory
  or copies the kernel refuses, as long as no control command leaves bad module parameters behind
  (the quantum and the array size are not zero, their product does not overflow, and the quantum is
  at most the object size of the cache, which is the quantum of module start): the next call returns
  and meets its specification, unless it is a read of the proc file that prints more bytes of a
  quantum than an object has, which reads out of bounds. A read returns the bytes of its device, a
  write changes the bytes of its range and no other device, and only an open for writing empties a
  device.
\<close>

theorem scull_files_refine:
  assumes "mod_idle m" and "mod_kernel_ok k" and "scull_init_module k m = Inr (0, m1)" and "m_devices m1 = Some ds"
    and "globals_ok objsz (m_g m)" and "objsz = unat (scull_quantum (m_g m))"
    and "(\<lambda>s s'. file_step objsz s s' \<and> globals_ok objsz (fs_g s'))\<^sup>*\<^sup>* (loaded_files m1 ds) s"
    and "call_kernel_ok objsz c"
  shows "if proc_overrun objsz s c then exec_call c s = Inl OutOfBounds
    else \<exists>r s'. exec_call c s = Inr (r, s') \<and> call_spec s c r (views s) (views s')"
proof -
  have "file_sys_wf objsz s"
    by (rule scull_files.steps_inv [OF assms(7) loaded_files_wf [OF assms(1-6)]])
  from exec_call_ok [OF this assms(8)] show ?thesis by (auto split: if_splits)
qed

text \<open>The objects that the end of the module gives back.\<close>

lemma trim_all_slab:
  assumes "free_bulk_ok k" and "\<forall>d \<in> set ds. dev_wf objsz (d_dev d) s0"
  shows "slab (trim_all k ds h) = slab h |` (- (\<Union>d \<in> set ds. owned (d_dev d) - last_slots (d_dev d)))"
  using assms(2)
proof (induction ds arbitrary: h)
  case (Cons d ds)
  let ?h = "trim_qsets k (qset_len (d_dev d)) (qset (d_dev d)) h"
  have w: "store_wf objsz (d_dev d) s0" "0 < qset_len (d_dev d)"
    using Cons.prems by (simp_all add: dev_wf_def geom_ok_def)
  then have "slab ?h = slab h |` (- (owned (d_dev d) - last_slots (d_dev d)))"
    using trim_qsets_slab [OF assms(1) w(2), of "qset (d_dev d)" h] trimmed_slots [OF w(1)] by (simp add: store_wf_def)
  then have "slab (trim_all k (d # ds) h) = slab h |` (- (owned (d_dev d) - last_slots (d_dev d)) \<inter>
      - (\<Union>d \<in> set ds. owned (d_dev d) - last_slots (d_dev d)))"
    using Cons.IH [of ?h] Cons.prems by (simp add: trim_all_def)
  also have "- (owned (d_dev d) - last_slots (d_dev d)) \<inter> - (\<Union>d \<in> set ds. owned (d_dev d) - last_slots (d_dev d)) =
      - (\<Union>d \<in> set (d # ds). owned (d_dev d) - last_slots (d_dev d))" by auto
  finally show ?case .
qed (auto simp: trim_all_def restrict_map_def)

lemma set_used_devs:
  "length devs = length ds \<Longrightarrow> d_dev ` set (map2 (\<lambda>d dev. d\<lparr>d_dev := dev\<rparr>) ds devs) = set devs"
  by (induction devs ds rule: list_induct2) auto

lemma used_module_cleanup:
  assumes "mod_running m" and "m_cache m" and "m_devices m = Some ds" and "file_sys_wf objsz s"
    and "fs_fixed s = fs_fixed (loaded_files m ds)" and "free_bulk_ok (k_scull k)"
  shows "\<exists>m'. scull_cleanup_module k (used_module m ds s) = Inr m' \<and> mod_released m' \<and>
    slab (m_heap m') = slab (fs_heap s) |` (- (\<Union>dev \<in> set (fs_devs s). owned dev - last_slots dev)) \<and>
    (m_cache m' \<longleftrightarrow> \<not> k_kmem_cache_destroy k (slab (m_heap m')))"
proof -
  let ?ds = "map2 (\<lambda>d dev. d\<lparr>d_dev := dev\<rparr>) ds (fs_devs s)" and ?m = "used_module m ds s"
  have d: "d_dev ` set ?ds = set (fs_devs s)"
    using assms(5) by (intro set_used_devs) (simp add: fs_fixed_def loaded_files_def)
  have "\<forall>dev \<in> set (fs_devs s). dev_wf objsz dev (slab (fs_heap s))"
    using assms(4) by (auto simp: file_sys_wf_def devs_wf_def in_set_conv_nth)
  then have wf: "\<forall>e \<in> set ?ds. dev_wf objsz (d_dev e) (slab (fs_heap s))" unfolding d [symmetric] by blast
  have "slab (trim_all (k_scull k) ?ds (m_heap ?m)) =
      slab (fs_heap s) |` (- (\<Union>dev \<in> set (fs_devs s). owned dev - last_slots dev))"
    unfolding trim_all_slab [OF assms(6) wf] d [symmetric] by (simp add: used_module_def)
  moreover have "m_devices ?m = Some ?ds" "m_cache ?m" using assms(2) by (simp_all add: used_module_def)
  ultimately show ?thesis
    using scull_cleanup_running [OF used_module_running [OF assms(1,3-5)], of ?ds k] by auto
qed

text \<open>
  C7: A module that has been used can be unloaded, but its cache need not go. After any sequence of
  calls on the bare devices whose control commands leave sane module parameters, module end does not
  fault and leaves no array, device number, character device or proc file behind. The objects of the
  devices go back to the cache except those in the last slot of a pointer array, and objects that no
  device holds any more are not given back either; the cache is left behind exactly when such an
  object is left.
\<close>

theorem scull_unload_after_use:
  assumes "mod_idle m" and "mod_kernel_ok k" and "scull_init_module k m = Inr (0, m1)" and "m_devices m1 = Some ds"
    and "globals_ok objsz (m_g m)" and "objsz = unat (scull_quantum (m_g m))"
    and "(\<lambda>s s'. file_step objsz s s' \<and> globals_ok objsz (fs_g s'))\<^sup>*\<^sup>* (loaded_files m1 ds) s"
    and "free_bulk_ok (k_scull k)"
  shows "\<exists>m2. scull_cleanup_module k (used_module m1 ds s) = Inr m2 \<and> mod_released m2 \<and>
    slab (m_heap m2) = slab (fs_heap s) |` (- (\<Union>dev \<in> set (fs_devs s). owned dev - last_slots dev)) \<and>
    (m_cache m2 \<longleftrightarrow> slab (m_heap m2) \<noteq> Map.empty)"
proof -
  have "mod_running m1" using scull_init_outcome [OF assms(1), of k] assms(2,3) by (auto simp: mod_kernel_ok_def)
  moreover have "m_cache m1" by (rule scull_init_cache [OF assms(3)])
  moreover have "file_sys_wf objsz s"
    by (rule scull_files.steps_inv [OF assms(7) loaded_files_wf [OF assms(1-6)]])
  ultimately show ?thesis
    using used_module_cleanup [OF _ _ assms(4) _ file_steps_fixed [OF assms(7)] assms(8)] assms(2)
    by (simp add: mod_kernel_ok_def)
qed

text \<open>
  C38: A control command that fails can make every later write crash. When the address of a
  privileged set or exchange of the quantum cannot be read, the command returns -EFAULT but leaves the
  quantum at zero; the next open for writing gives the device that size, and any write to it then
  divides by zero.
\<close>

theorem scull_ioctl_fault_divides:
  assumes "user_access_ok ki" and "\<forall>a n. k_access_ok ki a n" and "k_capable ki" and "mem a = None"
    and "cmd = SCULL_IOCSQUANTUM \<or> cmd = SCULL_IOCXQUANTUM"
    and "k_mutex_lock_interruptible k = 0" and "dev_lock dev = mutex_init"
  shows "\<exists>g' dev' h'. scull_ioctl ki g mem cmd a = (- EFAULT, g', mem) \<and>
    scull_open k g' O_WRONLY dev h = Inr (0, dev', h') \<and>
    (\<forall>buf count f_pos. scull_write k dev' h' buf count f_pos = Inl DivideByZero)"
proof -
  let ?g = "g\<lparr>scull_quantum := 0\<rparr>"
  let ?dev = "dev\<lparr>dev_len := 0, quantum_len := 0, qset_len := scull_qset g, qset := [], dev_lock := mutex_init\<rparr>"
  have "scull_ioctl ki g mem cmd a = (- EFAULT, ?g, mem)"
    using assms(1-5) by (intro scull_ioctl_fault_zeroes_quantum)
  moreover have "scull_open k ?g O_WRONLY dev h = Inr (0, ?dev, trim_qsets k (qset_len dev) (qset dev) h)"
    using assms(6,7) by (simp add: scull_open_def mutex_defs scull_trim_def)
  moreover have "scull_write k ?dev h' buf count f_pos = Inl DivideByZero" for h' buf count f_pos
    using assms(6) by (simp add: scull_write_def mutex_defs write_locked_def write_quantum_def scull_follow_def)
  ultimately show ?thesis by blast
qed

section \<open>Stale memory\<close>

text \<open>A device with one quantum, in its first slot.\<close>

definition first_dev :: "scull_dev \<Rightarrow> ptr \<Rightarrow> size_t \<Rightarrow> scull_dev" where
  "first_dev dev a l =
     dev\<lparr>dev_len := l, qset := [\<lparr>q_data = Some ((replicate (unat (qset_len dev)) None)[0 := Some a])\<rparr>]\<rparr>"

lemma quantum_at_first:
  assumes "0 < qset_len dev"
  shows "quantum_at (first_dev dev a l) ij = (if ij = (0, 0) then Some a else None)"
  using assms by (cases ij) (auto simp: quantum_at_def first_dev_def nth_list_update word_less_nat_alt)

lemma first_dev_wf:
  assumes "geom_ok objsz dev" and "s a = Some b" and "length b = objsz" and "unat l \<le> unat (quantum_len dev)"
  shows "store_wf objsz (first_dev dev a l) s"
    "i < unat (quantum_len dev) \<Longrightarrow> dev_byte (first_dev dev a l) s i = Some (b ! i)"
proof -
  let ?q = "unat (quantum_len dev)" and ?n = "unat (qset_len dev)"
  have n: "0 < qset_len dev" "0 < ?q" "0 < ?n" "?q \<le> objsz"
    using assms(1) by (simp_all add: geom_ok_def word_less_nat_alt)
  note q = quantum_at_first [OF n(1)]
  have qn: "?q * 1 \<le> ?q * ?n" using n(3) by (intro mult_le_mono2) simp
  then have "unat l \<le> ?q * ?n" using assms(4) by linarith
  then show "store_wf objsz (first_dev dev a l) s"
    unfolding store_wf_def q using assms(2,3) by (auto simp: first_dev_def)
  assume i: "i < ?q"
  then have "i < ?q * ?n" using qn by linarith
  then have "scull_place (geom (first_dev dev a l)) i = ((0, 0), i)"
    using i by (simp add: scull_place_def geom_def first_dev_def Let_def)
  then show "dev_byte (first_dev dev a l) s i = Some (b ! i)"
    using i n(4) assms(2,3) by (simp add: dev_byte_def q)
qed

text \<open>A write of one byte into the first quantum of an empty device.\<close>

lemma scull_write_first:
  assumes k: "k_mutex_lock_interruptible k = 0" "k_kcalloc_qset k 0" "k_kcalloc_data k"
      "k_kmem_cache_alloc k (slab h) = Some (a, b)" "k_copy_from_user k [x] 1 = ([x], 0)"
    and dev: "dev_lock dev = mutex_init" "qset dev = []" "dev_len dev = 0"
    and g: "geom_ok (length b) dev" and p: "p < quantum_len dev" "unat (p + 1) = Suc (unat p)"
  shows "scull_write k dev h [x] 1 p = Inr (1, p + 1, first_dev dev a (p + 1),
    \<lparr>slab = (slab h)(a \<mapsto> blit b (unat p) [x]), kmallocs = kmallocs h + 2\<rparr>)"
proof -
  let ?q = "unat (quantum_len dev)" and ?n = "unat (qset_len dev)" and ?m = "\<lparr>held = True, ctx = 1\<rparr> :: mutex"
  have pos: "0 < ?q" "0 < ?n" "?q * ?n < 2 ^ 64" "?q \<le> length b" and up: "unat p < ?q"
    using g p(1) by (simp_all add: geom_ok_def word_less_nat_alt)
  have t: "unat (quantum_len dev * qset_len dev) = ?q * ?n" using pos(3) by (simp add: unat_word_ariths)
  have "?q * 1 \<le> ?q * ?n" using pos(2) by (intro mult_le_mono2) simp
  then have less: "unat p < ?q * ?n" using up by linarith
  have total: "quantum_len dev * qset_len dev \<noteq> 0" using t less by (metis less_zeroE unat_0)
  have place: "p div (quantum_len dev * qset_len dev) = 0" "p mod (quantum_len dev * qset_len dev) = p"
      "p div quantum_len dev = 0" "p mod quantum_len dev = p"
    using less up by (simp_all add: word_unat_eq_iff unat_div_distrib unat_mod_distrib t)
  have fl: "scull_follow k (dev\<lparr>dev_lock := ?m\<rparr>) h p =
      Inr (\<lparr>qset_p = 0, quantum_p = 0, offset_p = p\<rparr>, Some 0,
        dev\<lparr>dev_lock := ?m, qset := [empty_qset]\<rparr>, h\<lparr>kmallocs := kmallocs h + 1\<rparr>)"
    using total k(2) dev(2) by (simp add: scull_follow_def lockdep_assert_held_def Let_def place)
  have clip: "\<not> quantum_len dev - p < 1"
    using p(1) by (metis diff_eq_diff_eq diff_self less_irrefl word_less_1)
  have room: "Suc (unat p) \<le> length b" using up pos(4) by linarith
  let ?h = "\<lparr>slab = (slab h)(a \<mapsto> blit b (unat p) [x]), kmallocs = kmallocs h + 2\<rparr>"
  let ?dev = "(first_dev dev a (p + 1))\<lparr>dev_lock := ?m\<rparr>"
  have "0 < p + 1" using p(2) by (simp add: word_less_nat_alt)
  then have "write_locked k (dev\<lparr>dev_lock := ?m\<rparr>) h [x] 1 p = Inr (1, p + 1, ?dev, ?h)"
    using k dev pos(2) room clip
    by (simp add: write_locked_def write_quantum_def fl ensure_data_def empty_qset_def set_data_def first_dev_def
        ensure_quantum_def clip_quantum_def slab_store_def Let_def)
  moreover have "store_wf (length b) (first_dev dev a (p + 1)) (slab ?h)"
    by (rule first_dev_wf(1) [OF g, where b = "blit b (unat p) [x]"]) (use up p(2) room in auto)
  then have "store_wf (length b) ?dev (slab ?h)" by (simp add: store_wf_def)
  then have "scull_out ?dev = Inr (?dev\<lparr>dev_lock := mutex_init\<rparr>)"
    by (rule scull_out_ok) (simp add: mutex_defs)
  ultimately show ?thesis using k(1) dev(1) by (simp add: scull_write_def mutex_defs first_dev_def)
qed

text \<open>
  C8: Reading memory that was never written. The quanta come from the cache with whatever they held
  before; a write of one byte at position \<open>p\<close> of an empty device makes the bytes below \<open>p\<close>
  part of the file, and a read from the start returns the old contents of the object.
\<close>

theorem scull_stale_bytes:
  assumes "k_mutex_lock_interruptible k = 0" and "k_kcalloc_qset k 0" and "k_kcalloc_data k"
    and "slab_alloc_ok objsz k" and "k_kmem_cache_alloc k (slab h) = Some (a, b)"
    and "copy_from_user_ok k" and "snd (k_copy_from_user k [x] 1) = 0"
    and "copy_to_user_ok k" and "\<forall>bs. snd (k_copy_to_user k bs) = 0"
    and "dev_wf objsz dev (slab h)" and "qset dev = []"
    and "0 < p" and "p < quantum_len dev" and "unat p < 2 ^ 63"
  shows "\<exists>dev' h'. scull_write k dev h [x] 1 p = Inr (1, p + 1, dev', h') \<and>
    scull_read k dev' h' p 0 = Inr (int (unat p), take (unat p) b, p, dev', h')"
proof -
  let ?q = "unat (quantum_len dev)" and ?dev = "first_dev dev a (p + 1)"
  let ?h = "\<lparr>slab = (slab h)(a \<mapsto> blit b (unat p) [x]), kmallocs = kmallocs h + 2\<rparr>"
  have b: "length b = objsz" using assms(4,5) by (auto simp: slab_alloc_ok_def)
  have g: "geom_ok objsz dev" "dev_lock dev = mutex_init" "dev_len dev = 0"
    using assms(10,11) by (auto simp: dev_wf_def word_eq_0_unat)
  have geo: "?q \<le> objsz" "unat p < ?q" "0 < unat p"
    using g(1) assms(12,13) by (simp_all add: geom_ok_def word_less_nat_alt)
  have "1 + p \<noteq> 0" using assms(13) by (metis add_eq_0_iff not_less word_n1_ge)
  then have p1: "unat (p + 1) = Suc (unat p)" using unatSuc [of p] by (simp add: add.commute)
  have x: "k_copy_from_user k [x] 1 = ([x], 0)"
  proof -
    have "fst (k_copy_from_user k [x] 1) = [x]" using assms(6,7) by (simp add: copy_from_user_ok_def)
    then show ?thesis using assms(7) by (metis prod.collapse)
  qed
  have w: "scull_write k dev h [x] 1 p = Inr (1, p + 1, ?dev, ?h)"
    by (rule scull_write_first [OF assms(1,2,3,5) x g(2) assms(11) g(3) _ assms(13) p1]) (use g(1) b in simp)
  have blk: "slab ?h a = Some (blit b (unat p) [x])" "length (blit b (unat p) [x]) = objsz"
    using geo b by simp_all
  have l: "unat (p + 1) \<le> ?q" using geo(2) p1 by simp
  note first = first_dev_wf [where s = "slab ?h" and a = a and b = "blit b (unat p) [x]" and l = "p + 1", OF g(1) blk l]
  have wf: "dev_wf objsz ?dev (slab ?h)"
    using first(1) g(1,2) by (simp add: dev_wf_def geom_ok_def first_dev_def)
  have byte: "dev_byte ?dev (slab ?h) i = Some (b ! i)" if "i < unat p" for i
    using first(2) [of i] that geo b by (simp add: nth_blit)
  have len: "unat (dev_len ?dev) = Suc (unat p)" "unat (quantum_len ?dev) = ?q" using p1 by (simp_all add: first_dev_def)
  have out: "spec_read (dev_byte ?dev (slab ?h)) (unat (dev_len ?dev)) (unat (quantum_len ?dev)) (unat p) 0 = take (unat p) b"
    unfolding len using byte geo b by (auto simp: spec_read_def intro!: nth_equalityI)
  have "scull_read k ?dev ?h p 0 = Inr (int (unat p), take (unat p) b, 0 + of_nat (length (take (unat p) b)), ?dev, ?h)"
    using scull_read_spec [OF wf _ assms(8), of p 0] assms(1,9) byte [OF geo(3)] geo b out len assms(14)
    by (simp add: rw_args_ok_def)
  then show ?thesis using w geo b by simp
qed

section \<open>Witnesses\<close>

text \<open>A module with the default numbers of devices, whose start succeeds.\<close>

definition demo_mod4 :: scull_mod where
  "demo_mod4 = demo_mod\<lparr>m_g := scull_globals_init\<lparr>scull_major := 240\<rparr>\<rparr>"

lemma demo_mod4_start:
  obtains m1 ds ps where "scull_init_module demo_mod_kernel demo_mod4 = Inr (0, m1)" "m_devices m1 = Some ds"
    "m_p_devices m1 = Some ps" "m_g m1 = m_g demo_mod4" "length ds = 4"
proof -
  have "map_sum id (\<lambda>(r, m). (r, m_g m, map_option length (m_devices m), map_option length (m_p_devices m)))
      (scull_init_module demo_mod_kernel demo_mod4) = Inr (0, m_g demo_mod4, Some 4, Some 4)"
    by (simp add: scull_init_module_def scull_init_rest_def register_region_def scull_p_init_def
      init_devices.simps init_pipes.simps scull_setup_cdev_def scull_p_setup_cdev_def cdev_defs set_cdev_ops_def SCULL_NR_DEVS_def SCULL_P_NR_DEVS_def
      demo_mod_kernel_def demo_mod4_def demo_mod_def scull_globals_init_def Let_def split_beta)
  then show thesis
    by (cases "scull_init_module demo_mod_kernel demo_mod4") (auto intro: that)
qed

lemma demo_mod4_ok: "mod_idle demo_mod4" "m_p_devices demo_mod4 = None" "globals_ok 4000 (m_g demo_mod4)"
    "4000 = unat (scull_quantum (m_g demo_mod4))"
  by (simp_all add: mod_idle_def mod_gone_defs demo_mod4_def demo_mod_def scull_globals_init_def globals_ok_def
      SCULL_QUANTUM_def SCULL_QSET_def)

theorem scull_node_dispatch_witness:
  "\<exists>m1. scull_init_module demo_mod_kernel demo_mod4 = Inr (0, m1) \<and>
     chrdev_node m1 (MKDEV 240 3) = Some (Bare 3, Some scull_fops) \<and>
     chrdev_node m1 (MKDEV 240 5) = Some (Fifo 1, Some scull_pipe_fops) \<and>
     chrdev_node m1 (MKDEV 240 8) = None"
proof -
  obtain m1 ds ps where m: "scull_init_module demo_mod_kernel demo_mod4 = Inr (0, m1)" "m_devices m1 = Some ds"
    "m_p_devices m1 = Some ps" "m_g m1 = m_g demo_mod4" by (rule demo_mod4_start)
  have g: "unat (scull_nr_devs (m_g m1)) = 4" "unat (scull_p_nr_devs (m_g m1)) = 4" "scull_minor (m_g m1) = 0" "scull_major (m_g m1) = 240"
    by (simp_all add: m(4) demo_mod4_def scull_globals_init_def SCULL_NR_DEVS_def SCULL_P_NR_DEVS_def)
  have "\<forall>d. k_cdev_add demo_mod_kernel d = 0" by (simp add: demo_mod_kernel_def)
  from scull_node_dispatch [OF m(1) demo_mod4_ok(2) this m(2,3) g(1) [symmetric] g(2) [symmetric], of 3]
    scull_node_dispatch [OF m(1) demo_mod4_ok(2) this m(2,3) g(1) [symmetric] g(2) [symmetric], of 5]
    scull_node_dispatch [OF m(1) demo_mod4_ok(2) this m(2,3) g(1) [symmetric] g(2) [symmetric], of 8]
  show ?thesis using m(1) by (simp add: g(3,4))
qed

text \<open>A kernel with one quantum to give, of the size of the default quantum, that still holds old bytes.\<close>

definition demo_page_kernel :: scull_kernel where
  "demo_page_kernel = demo_kernel\<lparr>k_kmem_cache_alloc := (\<lambda>s. if s 4096 = None then Some (4096, replicate 4000 7) else None)\<rparr>"

lemma demo_page_ok: "slab_alloc_ok 4000 demo_page_kernel" "copy_from_user_ok demo_page_kernel" "free_bulk_ok demo_page_kernel"
    "copy_to_user_ok demo_page_kernel"
  using demo_kernel_ok
  by (auto simp: demo_page_kernel_def slab_alloc_ok_def copy_from_user_ok_def free_bulk_ok_def copy_to_user_ok_def)

text \<open>A run: the first device is opened for reading and writing.\<close>

definition demo_opened :: "scull_mod \<Rightarrow> mod_dev list \<Rightarrow> file_sys" where
  "demo_opened m ds = (loaded_files m ds)\<lparr>fs_files := [Some \<lparr>bf_dev = 0, bf_flags = O_RDWR, bf_pos = 0\<rparr>]\<rparr>"

lemma demo_open_step:
  assumes "length ds = 4" and "globals_ok 4000 (m_g m)"
  shows "(\<lambda>s s'. file_step 4000 s s' \<and> globals_ok 4000 (fs_g s'))\<^sup>*\<^sup>* (loaded_files m ds) (demo_opened m ds)"
proof -
  have "exec_call (Call_open demo_page_kernel 0 O_RDWR) (loaded_files m ds) = Inr (Ret 0, demo_opened m ds)"
    using assms(1) put_dev_same [of 0 "loaded_files m ds"]
    by (simp add: call_open_def scull_open_def) (auto simp: demo_opened_def loaded_files_def)
  moreover have "call_kernel_ok 4000 (Call_open demo_page_kernel 0 O_RDWR)" by (simp add: demo_page_ok)
  ultimately have "file_step 4000 (loaded_files m ds) (demo_opened m ds)" unfolding file_step_def by blast
  then show ?thesis using assms(2) by (intro r_into_rtranclp) (simp add: demo_opened_def loaded_files_def)
qed

theorem scull_files_refine_witness:
  "\<exists>m1 ds r s'. scull_init_module demo_mod_kernel demo_mod4 = Inr (0, m1) \<and> m_devices m1 = Some ds \<and>
     exec_call (Call_write demo_page_kernel 0 None [1, 2, 3]) (demo_opened m1 ds) = Inr (r, s') \<and>
     views s' ! 1 = views (demo_opened m1 ds) ! 1 \<and> views s' ! 2 = views (demo_opened m1 ds) ! 2 \<and>
     views s' ! 3 = views (demo_opened m1 ds) ! 3"
proof -
  obtain m1 ds ps where m: "scull_init_module demo_mod_kernel demo_mod4 = Inr (0, m1)" "m_devices m1 = Some ds" "length ds = 4"
      "m_g m1 = m_g demo_mod4"
    by (rule demo_mod4_start)
  have g: "globals_ok 4000 (m_g m1)" using demo_mod4_ok(3) by (simp add: m(4))
  let ?s = "demo_opened m1 ds" and ?c = "Call_write demo_page_kernel 0 None [1, 2, 3]"
  have "call_kernel_ok 4000 ?c" using demo_page_ok by simp
  from scull_files_refine [OF demo_mod4_ok(1) demo_mod_ok(2) m(1,2) demo_mod4_ok(3,4) demo_open_step [OF m(3) g] this]
  obtain r s' where r: "exec_call ?c ?s = Inr (r, s')" "call_spec ?s ?c r (views ?s) (views s')"
    by (simp only: proc_overrun.simps if_False) blast
  have "file_at ?s 0 = Some \<lparr>bf_dev = 0, bf_flags = O_RDWR, bf_pos = 0\<rparr>" by (simp add: file_at_def demo_opened_def)
  then have "views s' ! j = views ?s ! j" if "0 < j" for j using r(2) that by auto
  then show ?thesis using r(1) m by (metis zero_less_numeral zero_less_one)
qed

text \<open>
  A module with one device of quanta of four bytes and arrays of \<open>n\<close> quanta; it is opened, one
  byte is written, and it is unloaded.
\<close>

definition demo_small :: "ulong \<Rightarrow> scull_mod" where
  "demo_small n = demo_mod\<lparr>m_g := scull_globals_init\<lparr>scull_major := 240, scull_nr_devs := 1, scull_p_nr_devs := 1,
     scull_quantum := 4, scull_qset := n\<rparr>\<rparr>"

definition demo_small_kernel :: mod_kernel where
  "demo_small_kernel = demo_mod_kernel\<lparr>k_scull := demo_kernel\<rparr>"

lemma demo_small_start:
  obtains m1 ds where "scull_init_module demo_small_kernel (demo_small n) = Inr (0, m1)" "m_devices m1 = Some ds"
    "map d_dev ds = [dev_fresh (m_g (demo_small n))]" "m_g m1 = m_g (demo_small n)" "m_heap m1 = \<lparr>slab = Map.empty, kmallocs = 0\<rparr>"
proof -
  have "map_sum id (\<lambda>(r, m). (r, m_g m, map_option (map d_dev) (m_devices m), m_heap m))
      (scull_init_module demo_small_kernel (demo_small n)) =
      Inr (0, m_g (demo_small n), Some [dev_fresh (m_g (demo_small n))], \<lparr>slab = Map.empty, kmallocs = 0\<rparr>)"
    by (simp add: scull_init_module_def scull_init_rest_def register_region_def scull_p_init_def
      init_devices.simps init_pipes.simps scull_setup_cdev_def scull_p_setup_cdev_def cdev_defs set_cdev_ops_def
      demo_small_kernel_def demo_mod_kernel_def demo_small_def demo_mod_def scull_globals_init_def dev_fresh_def Let_def split_beta)
  then show thesis
    by (cases "scull_init_module demo_small_kernel (demo_small n)") (auto intro: that)
qed

lemma demo_small_ok:
  assumes "n = 1 \<or> n = 2"
  shows "mod_idle (demo_small n)" "mod_kernel_ok demo_small_kernel" "globals_ok 4 (m_g (demo_small n))"
    "4 = unat (scull_quantum (m_g (demo_small n)))" "free_bulk_ok (k_scull demo_small_kernel)"
  using assms demo_mod_ok(2) demo_kernel_ok
  by (auto simp: mod_idle_def mod_gone_defs demo_small_def demo_mod_def scull_globals_init_def globals_ok_def
      mod_kernel_ok_def alloc_region_ok_def demo_small_kernel_def demo_mod_kernel_def)

definition demo_written :: "ulong \<Rightarrow> file_sys" where
  "demo_written n = \<lparr>fs_g = m_g (demo_small n), fs_devs = [first_dev (dev_fresh (m_g (demo_small n))) 4096 1],
     fs_heap = \<lparr>slab = [4096 \<mapsto> [9, 0, 0, 0]], kmallocs = 2\<rparr>,
     fs_files = [Some \<lparr>bf_dev = 0, bf_flags = O_RDWR, bf_pos = 1\<rparr>]\<rparr>"

lemma demo_small_run:
  assumes "n = 1 \<or> n = 2" and "map d_dev ds = [dev_fresh (m_g (demo_small n))]" and "m_g m1 = m_g (demo_small n)"
    and "m_heap m1 = \<lparr>slab = Map.empty, kmallocs = 0\<rparr>"
  shows "(\<lambda>s s'. file_step 4 s s' \<and> globals_ok 4 (fs_g s'))\<^sup>*\<^sup>* (loaded_files m1 ds) (demo_written n)"
proof -
  let ?g = "m_g (demo_small n)" and ?s = "loaded_files m1 ds"
  let ?f = "?s\<lparr>fs_files := [Some \<lparr>bf_dev = 0, bf_flags = O_RDWR, bf_pos = 0\<rparr>]\<rparr>"
  have s: "?s = \<lparr>fs_g = ?g, fs_devs = [dev_fresh ?g], fs_heap = \<lparr>slab = Map.empty, kmallocs = 0\<rparr>, fs_files = []\<rparr>"
    using assms(2-4) by (simp add: loaded_files_def)
  have "exec_call (Call_open demo_kernel 0 O_RDWR) ?s = Inr (Ret 0, ?f)"
    unfolding s by (simp add: call_open_def scull_open_def put_dev_def)
  moreover have w: "scull_write demo_kernel (dev_fresh ?g) \<lparr>slab = Map.empty, kmallocs = 0\<rparr> [9] 1 0 =
      Inr (1, 1, first_dev (dev_fresh ?g) 4096 1, \<lparr>slab = [4096 \<mapsto> [9, 0, 0, 0]], kmallocs = 2\<rparr>)"
    using scull_write_first [of demo_kernel "\<lparr>slab = Map.empty, kmallocs = 0\<rparr>" 4096 "[0, 0, 0, 0]" 9 "dev_fresh ?g" 0] assms(1)
    by (auto simp: demo_kernel_def dev_fresh_def dev_zero_def demo_small_def geom_ok_def blit_def)
  have "exec_call (Call_write demo_kernel 0 None [9]) ?f = Inr (Ret 1, demo_written n)"
    unfolding s using w
    by (simp add: call_write_def file_at_def rw_pos_def rw_verify_def rw_count_def OPEN_FMODE_def
        put_dev_def move_file_def demo_written_def)
  moreover have "call_kernel_ok 4 (Call_open demo_kernel 0 O_RDWR)" "call_kernel_ok 4 (Call_write demo_kernel 0 None [9])"
    using demo_kernel_ok by simp_all
  ultimately have "file_step 4 ?s ?f" "file_step 4 ?f (demo_written n)" unfolding file_step_def by blast+
  moreover have "globals_ok 4 (fs_g ?f)" "globals_ok 4 (fs_g (demo_written n))"
    using demo_small_ok(3) [OF assms(1)] by (simp_all add: s demo_written_def)
  ultimately have "(\<lambda>s s'. file_step 4 s s' \<and> globals_ok 4 (fs_g s')) ?s ?f"
      "(\<lambda>s s'. file_step 4 s s' \<and> globals_ok 4 (fs_g s')) ?f (demo_written n)" by blast+
  then show ?thesis by (rule converse_rtranclp_into_rtranclp [OF _ r_into_rtranclp])
qed

theorem scull_unload_after_use_witness:
  "(\<exists>m1 ds m2. scull_init_module demo_small_kernel (demo_small 1) = Inr (0, m1) \<and> m_devices m1 = Some ds \<and>
     scull_cleanup_module demo_small_kernel (used_module m1 ds (demo_written 1)) = Inr m2 \<and> mod_released m2 \<and>
     slab (m_heap m2) = [4096 \<mapsto> [9, 0, 0, 0]] \<and> m_cache m2) \<and>
   (\<exists>m1 ds m2. scull_init_module demo_small_kernel (demo_small 2) = Inr (0, m1) \<and> m_devices m1 = Some ds \<and>
     scull_cleanup_module demo_small_kernel (used_module m1 ds (demo_written 2)) = Inr m2 \<and> mod_gone m2)"
proof
  let ?dev = "\<lambda>n. first_dev (dev_fresh (m_g (demo_small n))) 4096 1"
  have q: "quantum_at (?dev n) ij = (if ij = (0, 0) then Some 4096 else None)" if "n = 1 \<or> n = 2" for n ij
    using that by (intro quantum_at_first) (auto simp: dev_fresh_def demo_small_def)
  have n: "unat (qset_len (?dev n)) = unat n" for n by (simp add: first_dev_def dev_fresh_def demo_small_def)
  have o1: "owned (?dev 1) - last_slots (?dev 1) = {}" using q [of 1] by (auto simp: owned_def last_slots_def n)
  have o2: "owned (?dev 2) - last_slots (?dev 2) = {4096}" using q [of 2] by (auto simp: owned_def last_slots_def n)
  let ?left = "\<lambda>n. slab (fs_heap (demo_written n)) |` (- (\<Union>dev \<in> set (fs_devs (demo_written n)). owned dev - last_slots dev))"
  have left: "?left 1 = [4096 \<mapsto> [9, 0, 0, 0]]" "?left 2 = Map.empty"
    by (rule ext, simp add: demo_written_def o1 o2 restrict_map_def)+
  have some: "[4096 \<mapsto> [9, 0, 0, 0 :: byte]] \<noteq> (Map.empty :: slab_map)" by simp
  obtain m1 ds where m: "scull_init_module demo_small_kernel (demo_small 1) = Inr (0, m1)" "m_devices m1 = Some ds"
      "map d_dev ds = [dev_fresh (m_g (demo_small 1))]" "m_g m1 = m_g (demo_small 1)" "m_heap m1 = \<lparr>slab = Map.empty, kmallocs = 0\<rparr>"
    by (rule demo_small_start)
  have one: "(1 :: ulong) = 1 \<or> (1 :: ulong) = 2" and two: "(2 :: ulong) = 1 \<or> (2 :: ulong) = 2" by simp_all
  from scull_unload_after_use [OF demo_small_ok(1,2) [OF one] m(1,2) demo_small_ok(3,4) [OF one]
      demo_small_run [OF one m(3-5)] demo_small_ok(5) [OF one]]
  show "\<exists>m1 ds m2. scull_init_module demo_small_kernel (demo_small 1) = Inr (0, m1) \<and> m_devices m1 = Some ds \<and>
     scull_cleanup_module demo_small_kernel (used_module m1 ds (demo_written 1)) = Inr m2 \<and> mod_released m2 \<and>
     slab (m_heap m2) = [4096 \<mapsto> [9, 0, 0, 0]] \<and> m_cache m2"
    unfolding left using m(1,2) some by metis
  obtain m1 ds where m: "scull_init_module demo_small_kernel (demo_small 2) = Inr (0, m1)" "m_devices m1 = Some ds"
      "map d_dev ds = [dev_fresh (m_g (demo_small 2))]" "m_g m1 = m_g (demo_small 2)" "m_heap m1 = \<lparr>slab = Map.empty, kmallocs = 0\<rparr>"
    by (rule demo_small_start)
  from scull_unload_after_use [OF demo_small_ok(1,2) [OF two] m(1,2) demo_small_ok(3,4) [OF two]
      demo_small_run [OF two m(3-5)] demo_small_ok(5) [OF two]]
  show "\<exists>m1 ds m2. scull_init_module demo_small_kernel (demo_small 2) = Inr (0, m1) \<and> m_devices m1 = Some ds \<and>
     scull_cleanup_module demo_small_kernel (used_module m1 ds (demo_written 2)) = Inr m2 \<and> mod_gone m2"
    unfolding left mod_gone_def using m(1,2) by metis
qed

theorem scull_ioctl_fault_divides_witness:
  "\<exists>g' dev' h'. scull_ioctl demo_ioctl scull_globals_init Map.empty SCULL_IOCSQUANTUM 16 = (- EFAULT, g', Map.empty) \<and>
     scull_open demo_kernel g' O_WRONLY demo_dev demo_heap = Inr (0, dev', h') \<and>
     scull_write demo_kernel dev' h' [1] 1 0 = Inl DivideByZero"
  using scull_ioctl_fault_divides [where ki = demo_ioctl and k = demo_kernel and dev = demo_dev and mem = Map.empty and a = 16
      and g = scull_globals_init and h = demo_heap and cmd = SCULL_IOCSQUANTUM] demo_ioctl_ok
  by (auto simp: demo_kernel_def demo_dev_def)

theorem scull_stale_bytes_witness:
  "\<exists>dev' h'. scull_write demo_page_kernel (demo_dev\<lparr>quantum_len := 4000\<rparr>) demo_heap [1] 1 3 = Inr (1, 4, dev', h') \<and>
     scull_read demo_page_kernel dev' h' 3 0 = Inr (3, [7, 7, 7], 3, dev', h')"
proof -
  have wf: "dev_wf 4000 (demo_dev\<lparr>quantum_len := 4000\<rparr>) (slab demo_heap)"
    by (simp add: dev_wf_def geom_ok_def demo_dev_def)
  have al: "k_kmem_cache_alloc demo_page_kernel (slab demo_heap) = Some (4096, replicate 4000 7)"
    by (simp add: demo_page_kernel_def demo_heap_def)
  have "take 3 (replicate 4000 7) = [7, 7, 7 :: byte]" by (simp add: take_replicate numeral_3_eq_3)
  then show ?thesis
    using scull_stale_bytes [where p = 3 and x = 1, OF _ _ _ demo_page_ok(1) al demo_page_ok(2) _ demo_page_ok(4) _ wf]
    by (simp add: demo_page_kernel_def demo_kernel_def demo_dev_def)
qed

end
