(* ===== verification/Scull_Pipe_Ring.thy ===== *)
theory Scull_Pipe_Ring
  imports Scull_Pipe
begin

text \<open>
  The circular buffer of the scull pipe is a queue of bytes. \<open>ring_ok\<close> is its invariant,
  \<open>pipe_content\<close> the bytes between the read and the write pointer; reading takes from the
  front of them, writing appends, and the free space that the code computes is the capacity
  minus their number.
\<close>

section \<open>Circular buffers over the naturals\<close>

definition ring_content :: "nat \<Rightarrow> nat \<Rightarrow> 'a list \<Rightarrow> 'a list" where
  "ring_content r w b = (if r \<le> w then sub_block r (w - r) b else drop r b @ take w b)"

lemma length_ring_content:
  "r < length b \<Longrightarrow> w < length b \<Longrightarrow>
     length (ring_content r w b) = (if r \<le> w then w - r else length b - r + w)"
  by (simp add: ring_content_def)

lemma ring_content_empty: "r < length b \<Longrightarrow> w < length b \<Longrightarrow> ring_content r w b = [] \<longleftrightarrow> r = w"
  by (auto simp: ring_content_def sub_block_def)

text \<open>Taking a contiguous piece from the front, and wrapping at the end of the buffer.\<close>

lemma ring_take:
  assumes "r < length b" and "w < length b" and "r \<noteq> w"
    and "n \<le> (if r < w then w - r else length b - r)"
  shows "ring_content r w b = sub_block r n b @ ring_content (if r + n = length b then 0 else r + n) w b"
proof (cases "r < w")
  case True
  then have "sub_block r (w - r) b = take n (drop r b) @ take (w - r - n) (drop n (drop r b))"
    using assms(4) take_add [of n "w - r - n" "drop r b"] True by (simp add: sub_block_def)
  moreover have "r + n \<noteq> length b" "r + n \<le> w" using True assms by auto
  ultimately show ?thesis using True by (simp add: ring_content_def sub_block_def add.commute)
next
  case False
  then show ?thesis
    using assms append_take_drop_id [of n "drop r b"]
    by (auto simp: ring_content_def sub_block_def add.commute simp flip: append_assoc)
qed

text \<open>Appending a piece in the free part.\<close>

lemma ring_append:
  assumes "r < length b" and "w < length b"
    and "length xs \<le> (if r \<le> w then length b - w else r - w - 1)"
    and "length (ring_content r w b) + length xs < length b"
  shows "ring_content r (if w + length xs = length b then 0 else w + length xs) (blit b w xs)
           = ring_content r w b @ xs"
proof (cases "r \<le> w")
  case True
  then have *: "drop r (blit b w xs) = take (w - r) (drop r b) @ xs @ drop (w + length xs) b"
    using assms(2) by (simp add: blit_def drop_take)
  show ?thesis
  proof (cases "w + length xs = length b")
    case True
    with \<open>r \<le> w\<close> have "0 < r" using assms by (auto simp: length_ring_content split: if_splits)
    with True \<open>r \<le> w\<close> show ?thesis by (simp add: ring_content_def * sub_block_def)
  next
    case False
    with \<open>r \<le> w\<close> assms(2) show ?thesis by (simp add: ring_content_def sub_block_def *)
  qed
next
  case False
  with assms(1-3) have "w + length xs < r" by auto
  with False assms(1,2) show ?thesis
    by (simp add: ring_content_def blit_def)
qed

lemma ring_blit_free:
  assumes "r < length b" and "w < length b"
    and "length xs \<le> (if r \<le> w then length b - w else r - w - 1)"
  shows "ring_content r w (blit b w xs) = ring_content r w b"
proof (cases "r \<le> w")
  case True
  with assms(2) show ?thesis by (simp add: ring_content_def blit_def sub_block_def drop_take)
next
  case False
  with assms have "w + length xs < r" by auto
  with False assms(1,2) show ?thesis by (simp add: ring_content_def blit_def)
qed

section \<open>The invariant of the buffer\<close>

text \<open>
  The block at \<^verbatim>\<open>buf\<close> has \<^verbatim>\<open>buf_len\<close> bytes and does not reach the end of the
  address space, and both pointers are inside it.
\<close>

definition ring_ok :: "scull_pipe \<Rightarrow> slab_map \<Rightarrow> bool" where
  "ring_ok dev h \<longleftrightarrow> p_buf dev \<noteq> 0 \<and>
     map_option length (h (p_buf dev)) = Some (unat (buf_len dev)) \<and>
     unat (p_buf dev) + unat (buf_len dev) < 2 ^ 64 \<and> unat (buf_len dev) < 2 ^ 63 \<and>
     p_end dev = p_buf dev + buf_len dev \<and>
     rp dev - p_buf dev < buf_len dev \<and> wp dev - p_buf dev < buf_len dev"

abbreviation r_off :: "scull_pipe \<Rightarrow> nat" where "r_off dev \<equiv> unat (rp dev - p_buf dev)"
abbreviation w_off :: "scull_pipe \<Rightarrow> nat" where "w_off dev \<equiv> unat (wp dev - p_buf dev)"

definition pipe_content :: "scull_pipe \<Rightarrow> slab_map \<Rightarrow> byte list" where
  "pipe_content dev h = (case h (p_buf dev) of None \<Rightarrow> [] | Some b \<Rightarrow> ring_content (r_off dev) (w_off dev) b)"

definition pipe_cap :: "scull_pipe \<Rightarrow> nat" where
  "pipe_cap dev = unat (buf_len dev) - 1"

section \<open>From addresses to offsets\<close>

lemma unat_offset:
  fixes a p :: ptr
  assumes "unat a + unat n < 2 ^ 64" and "p - a < n"
  shows "unat p = unat a + unat (p - a)"
proof -
  have lt: "unat (p - a) < unat n" using assms(2) by (simp add: word_less_nat_alt)
  have "p = a + (p - a)" by simp
  also have "unat \<dots> = unat a + unat (p - a)"
    by (rule unat_add_lem [THEN iffD1]) (use lt assms(1) in simp)
  finally show ?thesis .
qed

abbreviation p_block :: "scull_pipe \<Rightarrow> slab_map \<Rightarrow> byte list" where
  "p_block dev h \<equiv> the (h (p_buf dev))"

lemma ring_okD:
  assumes "ring_ok dev h"
  shows "h (p_buf dev) = Some (p_block dev h)" "length (p_block dev h) = unat (buf_len dev)"
    "r_off dev < unat (buf_len dev)" "w_off dev < unat (buf_len dev)" "0 < unat (buf_len dev)"
    "unat (rp dev) = unat (p_buf dev) + r_off dev" "unat (wp dev) = unat (p_buf dev) + w_off dev"
    "unat (p_end dev) = unat (p_buf dev) + unat (buf_len dev)"
    "unat (p_buf dev) + unat (buf_len dev) < 2 ^ 64" "unat (buf_len dev) < 2 ^ 63"
    "pipe_content dev h = ring_content (r_off dev) (w_off dev) (p_block dev h)"
proof -
  show b: "h (p_buf dev) = Some (p_block dev h)" "length (p_block dev h) = unat (buf_len dev)"
    using assms by (auto simp: ring_ok_def)
  show lim: "unat (p_buf dev) + unat (buf_len dev) < 2 ^ 64" "unat (buf_len dev) < 2 ^ 63"
    using assms by (simp_all add: ring_ok_def)
  have offs: "rp dev - p_buf dev < buf_len dev" "wp dev - p_buf dev < buf_len dev"
    using assms by (simp_all add: ring_ok_def)
  then show "r_off dev < unat (buf_len dev)" "w_off dev < unat (buf_len dev)"
    by (simp_all only: word_less_nat_alt)
  then show "0 < unat (buf_len dev)" by linarith
  show "unat (rp dev) = unat (p_buf dev) + r_off dev" "unat (wp dev) = unat (p_buf dev) + w_off dev"
    using unat_offset [OF lim(1)] offs by blast+
  have "p_end dev = p_buf dev + buf_len dev" using assms by (simp add: ring_ok_def)
  also have "unat \<dots> = unat (p_buf dev) + unat (buf_len dev)"
    by (rule unat_add_lem [THEN iffD1]) (use lim in simp)
  finally show "unat (p_end dev) = unat (p_buf dev) + unat (buf_len dev)" .
  show "pipe_content dev h = ring_content (r_off dev) (w_off dev) (p_block dev h)"
    unfolding pipe_content_def by (subst b(1)) simp
qed

lemma unat_diff_le:
  fixes x y :: ptr
  assumes "unat y \<le> unat x"
  shows "unat (x - y) = unat x - unat y"
  using assms by (intro unat_sub) (simp add: word_le_nat_alt)

lemma unat_diff_offs:
  fixes x y :: ptr
  assumes "unat x = a + i" and "unat y = a + j" and "j \<le> i"
  shows "unat (x - y) = i - j"
  using assms by (simp add: unat_diff_le)

lemma ring_pointers:
  assumes "ring_ok dev h"
  shows "rp dev = wp dev \<longleftrightarrow> r_off dev = w_off dev"
    "rp dev < wp dev \<longleftrightarrow> r_off dev < w_off dev"
    "rp dev \<le> wp dev \<longleftrightarrow> r_off dev \<le> w_off dev"
    "r_off dev \<le> w_off dev \<Longrightarrow> unat (wp dev - rp dev) = w_off dev - r_off dev"
    "w_off dev \<le> r_off dev \<Longrightarrow> unat (rp dev - wp dev) = r_off dev - w_off dev"
    "unat (p_end dev - rp dev) = unat (buf_len dev) - r_off dev"
    "unat (p_end dev - wp dev) = unat (buf_len dev) - w_off dev"
proof -
  note * = ring_okD [OF assms]
  show "rp dev = wp dev \<longleftrightarrow> r_off dev = w_off dev"
    unfolding word_unat_eq_iff [of "rp dev"] *(6,7) by simp
  show "rp dev < wp dev \<longleftrightarrow> r_off dev < w_off dev" "rp dev \<le> wp dev \<longleftrightarrow> r_off dev \<le> w_off dev"
    unfolding word_less_nat_alt word_le_nat_alt *(6,7) by simp_all
  show "r_off dev \<le> w_off dev \<Longrightarrow> unat (wp dev - rp dev) = w_off dev - r_off dev"
    by (rule unat_diff_offs [OF *(7,6)])
  show "w_off dev \<le> r_off dev \<Longrightarrow> unat (rp dev - wp dev) = r_off dev - w_off dev"
    by (rule unat_diff_offs [OF *(6,7)])
  show "unat (p_end dev - rp dev) = unat (buf_len dev) - r_off dev"
    by (rule unat_diff_offs [OF *(8,6)]) (use *(3) in simp)
  show "unat (p_end dev - wp dev) = unat (buf_len dev) - w_off dev"
    by (rule unat_diff_offs [OF *(8,7)]) (use *(4) in simp)
qed

lemma pipe_content_empty: "ring_ok dev h \<Longrightarrow> pipe_content dev h = [] \<longleftrightarrow> rp dev = wp dev"
  using ring_okD [of dev h] ring_pointers(1) [of dev h] by (simp only: ring_content_empty)

lemma length_pipe_content: "ring_ok dev h \<Longrightarrow> length (pipe_content dev h) \<le> pipe_cap dev"
  using ring_okD(2-5,11) [of dev h] by (auto simp: length_ring_content pipe_cap_def)

text \<open>The free space is what the capacity has left.\<close>

lemma spacefree_value:
  assumes "ring_ok dev h"
  shows "\<exists>n. spacefree dev = Inr (if held (p_lock dev) then [] else [LockdepWarn], n) \<and>
    unat n = pipe_cap dev - length (pipe_content dev h)"
proof -
  note okD = ring_okD [OF assms]
  define b where "b = p_block dev h"
  have b: "r_off dev < length b" "w_off dev < length b" "length b = unat (buf_len dev)"
    "length b < 2 ^ 63" "pipe_content dev h = ring_content (r_off dev) (w_off dev) b"
    using okD by (simp_all add: b_def)
  let ?n = "length b" and ?r = "r_off dev" and ?w = "w_off dev"
  have nz: "buf_len dev \<noteq> 0" using b(1,3) by auto
  have pred: "unat (x - 1) = unat x - 1" if "x \<noteq> 0" for x :: size_t
    using that by (simp add: unat_minus_one)
  show ?thesis
  proof (cases "rp dev = wp dev")
    case True
    then show ?thesis
      using b(1-3,5) pred [OF nz] by (simp add: spacefree_def pipe_cap_def length_ring_content Let_def)
  next
    case False
    then have neq: "?r \<noteq> ?w" using ring_pointers(1) [OF assms] by simp
    have "rp dev + buf_len dev - wp dev = (rp dev - p_buf dev) + buf_len dev - (wp dev - p_buf dev)"
      by simp
    also have "unat \<dots> = ?r + ?n - ?w"
    proof -
      have "unat ((rp dev - p_buf dev) + buf_len dev) = ?r + ?n"
        unfolding b(3) by (rule unat_add_lem [THEN iffD1]) (use b in simp)
      moreover have "?w \<le> ?r + ?n" using b(2) by simp
      ultimately show ?thesis by (simp only: unat_diff_le)
    qed
    finally have u: "unat (rp dev + buf_len dev - wp dev) = ?r + ?n - ?w" .
    have m: "unat ((rp dev + buf_len dev - wp dev) mod buf_len dev) = (?r + ?n - ?w) mod ?n"
      unfolding unat_mod u b(3) ..
    have v: "(?r + ?n - ?w) mod ?n = (if ?r < ?w then ?r + ?n - ?w else ?r - ?w)"
    proof (cases "?r < ?w")
      case False
      then have "?r + ?n - ?w = (?r - ?w) + ?n" by simp
      also have "\<dots> mod ?n = ?r - ?w" using b(1) by simp
      finally show ?thesis using False by simp
    qed (use b(1,2) in simp)
    have "(rp dev + buf_len dev - wp dev) mod buf_len dev \<noteq> 0"
      unfolding word_eq_0_unat m v using neq b(1,2) by (cases "?r < ?w") simp_all
    from pred [OF this] have "unat ((rp dev + buf_len dev - wp dev) mod buf_len dev - 1)
        = (if ?r < ?w then ?r + ?n - ?w else ?r - ?w) - 1"
      unfolding m v .
    moreover have "(if ?r < ?w then ?r + ?n - ?w else ?r - ?w) - 1 = pipe_cap dev - length (pipe_content dev h)"
      using b(1-3) neq by (auto simp: pipe_cap_def length_ring_content b(5))
    ultimately show ?thesis using False nz by (simp add: spacefree_def Let_def)
  qed
qed

lemma advance_offset:
  fixes a p c l :: ptr
  assumes "unat (p - a) + unat c \<le> unat l"
  shows "unat ((if p + c = a + l then a else p + c) - a) =
    (if unat (p - a) + unat c = unat l then 0 else unat (p - a) + unat c)"
proof -
  have "unat (p - a) + unat c < 2 ^ LENGTH(64)"
    using assms unsigned_less [of l] by (rule le_less_trans)
  then have s: "unat ((p - a) + c) = unat (p - a) + unat c" by (rule unat_add_lem [THEN iffD1])
  have "p + c = a + l \<longleftrightarrow> (p - a) + c = l" by (auto simp: algebra_simps)
  also have "\<dots> \<longleftrightarrow> unat (p - a) + unat c = unat l" unfolding s [symmetric] by (rule word_unat_eq_iff)
  finally have e: "p + c = a + l \<longleftrightarrow> unat (p - a) + unat c = unat l" .
  have "p + c - a = (p - a) + c" by simp
  then have "unat (p + c - a) = unat (p - a) + unat c" unfolding s [symmetric] by (rule arg_cong)
  with e show ?thesis by simp
qed

section \<open>Documented behaviour of the kernel\<close>

text \<open>
  A block from \<^verbatim>\<open>kmalloc\<close> is not in use, has the requested size (not zero here) and lies
  within the address space, and no request as large as half of that is served;
  \<^verbatim>\<open>nonseekable_open\<close> always returns 0; the copies are as for the bare device.
\<close>

definition kmalloc_ok :: "pipe_kernel \<Rightarrow> bool" where
  "kmalloc_ok k \<longleftrightarrow>
     (\<forall>h n a b. n \<noteq> 0 \<longrightarrow> k_kmalloc k h n = Some (a, b) \<longrightarrow>
        a \<noteq> 0 \<and> h a = None \<and> length b = unat n \<and> unat a + unat n < 2 ^ 64 \<and> unat n < 2 ^ 63)"

definition pipe_copy_ok :: "pipe_kernel \<Rightarrow> bool" where
  "pipe_copy_ok k \<longleftrightarrow>
     (\<forall>bs. snd (kp_copy_to_user k bs) = 0 \<longrightarrow> fst (kp_copy_to_user k bs) = bs) \<and>
     (\<forall>src n. unat n \<le> length src \<longrightarrow>
        length (fst (kp_copy_from_user k src n)) = unat n \<and>
        (snd (kp_copy_from_user k src n) = 0 \<longrightarrow> fst (kp_copy_from_user k src n) = take (unat n) src))"

definition pipe_kernel_ok :: "pipe_kernel \<Rightarrow> bool" where
  "pipe_kernel_ok k \<longleftrightarrow> kmalloc_ok k \<and> pipe_copy_ok k \<and> k_nonseekable_open k = 0"

section \<open>The locked parts of read and write\<close>

definition unlocked :: "scull_pipe \<Rightarrow> scull_pipe" where
  "unlocked dev = dev\<lparr>p_lock := (release_ctx (p_lock dev))\<lparr>held := False\<rparr>\<rparr>"

lemma unlocked_simps [simp]:
  "idx (unlocked dev) = idx dev" "p_buf (unlocked dev) = p_buf dev" "p_end (unlocked dev) = p_end dev"
  "buf_len (unlocked dev) = buf_len dev" "rp (unlocked dev) = rp dev" "wp (unlocked dev) = wp dev"
  "readers (unlocked dev) = readers dev" "writers (unlocked dev) = writers dev"
  "async_q (unlocked dev) = async_q dev" "held (p_lock (unlocked dev)) = False"
  "ctx (p_lock (unlocked dev)) = ctx (p_lock dev) - 1"
  by (simp_all add: unlocked_def release_ctx_def)

lemma p_unlock_held [simp]: "held (p_lock dev) \<Longrightarrow> p_unlock dev = Inr (unlocked dev)"
  by (simp add: p_unlock_def mutex_unlock_sparse_def unlocked_def)

lemma ring_ok_cong:
  "p_buf dev' = p_buf dev \<Longrightarrow> p_end dev' = p_end dev \<Longrightarrow> buf_len dev' = buf_len dev \<Longrightarrow>
   rp dev' = rp dev \<Longrightarrow> wp dev' = wp dev \<Longrightarrow> ring_ok dev' h = ring_ok dev h"
  by (simp add: ring_ok_def)

lemma pipe_content_cong:
  "p_buf dev' = p_buf dev \<Longrightarrow> rp dev' = rp dev \<Longrightarrow> wp dev' = wp dev \<Longrightarrow>
   pipe_content dev' h = pipe_content dev h"
  by (simp add: pipe_content_def split: option.split)

text \<open>The number of bytes a single read can take, and a single write can put.\<close>

definition read_run :: "scull_pipe \<Rightarrow> nat" where
  "read_run dev = (if r_off dev < w_off dev then w_off dev - r_off dev else unat (buf_len dev) - r_off dev)"

definition write_run :: "scull_pipe \<Rightarrow> nat" where
  "write_run dev = (if r_off dev \<le> w_off dev
     then min (unat (buf_len dev) - w_off dev) (unat (buf_len dev) - 1 - (w_off dev - r_off dev))
     else r_off dev - w_off dev - 1)"

lemma read_run_pos: "ring_ok dev h \<Longrightarrow> rp dev \<noteq> wp dev \<Longrightarrow> 0 < read_run dev"
  using ring_okD(3,4) [of dev h] ring_pointers(1) [of dev h] by (auto simp: read_run_def)

lemma read_run_le: "ring_ok dev h \<Longrightarrow> rp dev \<noteq> wp dev \<Longrightarrow> read_run dev \<le> length (pipe_content dev h)"
  using ring_okD(2-5,11) [of dev h] ring_pointers(1) [of dev h]
  by (auto simp: read_run_def length_ring_content)

lemma write_run_pos:
  "ring_ok dev h \<Longrightarrow> 0 < write_run dev \<longleftrightarrow> length (pipe_content dev h) < pipe_cap dev"
  using ring_okD(2-5,11) [of dev h] by (auto simp: write_run_def length_ring_content pipe_cap_def)

lemma p_read_section_empty:
  assumes "ring_ok dev h" and "held (p_lock dev)" and "pipe_content dev h = []"
  shows "p_read_section k f_flags count dev h =
    Inr (if f_flags AND O_NONBLOCK \<noteq> 0 then Returned (- EAGAIN) else Sleeping Inq, [], [], unlocked dev)"
  using assms by (simp add: p_read_section_def pipe_content_empty)

lemma read_count:
  assumes "ring_ok dev h"
  shows "unat (if rp dev < wp dev then min count (wp dev - rp dev) else min count (p_end dev - rp dev))
    = min (unat count) (read_run dev)"
  using ring_pointers [OF assms] by (simp add: read_run_def unat_min)

lemma p_read_section_data:
  assumes ok: "ring_ok dev h" and lk: "held (p_lock dev)" and ne: "pipe_content dev h \<noteq> []"
    and cp: "pipe_copy_ok k"
    and n_def: "n = min (unat count) (read_run dev)"
  shows "snd (kp_copy_to_user k (take n (pipe_content dev h))) \<noteq> 0 \<Longrightarrow>
      p_read_section k f_flags count dev h =
        Inr (Returned (- EFAULT), fst (kp_copy_to_user k (take n (pipe_content dev h))), [], unlocked dev)"
    "snd (kp_copy_to_user k (take n (pipe_content dev h))) = 0 \<Longrightarrow>
      \<exists>a. p_read_section k f_flags count dev h =
            Inr (Returned (int n), take n (pipe_content dev h), [Wake Outq], unlocked (dev\<lparr>rp := a\<rparr>)) \<and>
          ring_ok (dev\<lparr>rp := a\<rparr>) h \<and> pipe_content (dev\<lparr>rp := a\<rparr>) h = drop n (pipe_content dev h)"
proof -
  note D = ring_okD [OF ok]
  let ?b = "p_block dev h"
  define c where "c = (if rp dev < wp dev then min count (wp dev - rp dev) else min count (p_end dev - rp dev))"
  have c: "unat c = n" unfolding c_def n_def by (rule read_count [OF ok])
  have neq: "rp dev \<noteq> wp dev" "r_off dev \<noteq> w_off dev"
    using ne pipe_content_empty [OF ok] ring_pointers(1) [OF ok] by simp_all
  have run: "n \<le> (if r_off dev < w_off dev then w_off dev - r_off dev else length ?b - r_off dev)"
    unfolding n_def D(2) read_run_def by simp
  have fits: "r_off dev + n \<le> unat (buf_len dev)"
    using run D(2-4) by (auto split: if_splits)
  have tk: "pipe_content dev h =
      sub_block (r_off dev) n ?b @ ring_content (if r_off dev + n = length ?b then 0 else r_off dev + n) (w_off dev) ?b"
    unfolding D(11) by (rule ring_take) (use D(2-4) neq run in auto)
  have front: "sub_block (r_off dev) n ?b = take n (pipe_content dev h)"
    and rest: "ring_content (if r_off dev + n = length ?b then 0 else r_off dev + n) (w_off dev) ?b
      = drop n (pipe_content dev h)"
    using fits D(2) by (subst tk, simp)+
  have ld: "slab_load h (p_buf dev) (rp dev - p_buf dev) c = Inr (take n (pipe_content dev h))"
    unfolding slab_load_def by (subst D(1)) (use fits D(2) c front in simp)
  define a where "a = (if rp dev + c = p_end dev then p_buf dev else rp dev + c)"
  have e: "p_end dev = p_buf dev + buf_len dev" using ok by (simp add: ring_ok_def)
  have off: "unat (a - p_buf dev) = (if r_off dev + n = length ?b then 0 else r_off dev + n)"
    using advance_offset [of "rp dev" "p_buf dev" c "buf_len dev"] fits unfolding a_def e c D(2) .
  have ok': "ring_ok (dev\<lparr>rp := a\<rparr>) h"
    using ok off fits D(2,5) by (auto simp: ring_ok_def word_less_nat_alt)
  have ct: "pipe_content (dev\<lparr>rp := a\<rparr>) h = drop n (pipe_content dev h)"
    using rest by (simp add: ring_okD(11) [OF ok'] off)
  have "n < 2 ^ 63" using fits D(10) by linarith
  then have s: "sint c = int n" using sint_small [of c] c by simp
  note step = p_read_section_def [of k f_flags count dev h, folded c_def, unfolded Let_def]
  show "p_read_section k f_flags count dev h =
      Inr (Returned (- EFAULT), fst (kp_copy_to_user k (take n (pipe_content dev h))), [], unlocked dev)"
    if "snd (kp_copy_to_user k (take n (pipe_content dev h))) \<noteq> 0"
    using that neq(1) lk by (simp add: step ld case_prod_unfold)
  show "\<exists>a. p_read_section k f_flags count dev h =
            Inr (Returned (int n), take n (pipe_content dev h), [Wake Outq], unlocked (dev\<lparr>rp := a\<rparr>)) \<and>
          ring_ok (dev\<lparr>rp := a\<rparr>) h \<and> pipe_content (dev\<lparr>rp := a\<rparr>) h = drop n (pipe_content dev h)"
    if "snd (kp_copy_to_user k (take n (pipe_content dev h))) = 0"
  proof (intro exI [of _ a] conjI ok' ct)
    have "fst (kp_copy_to_user k (take n (pipe_content dev h))) = take n (pipe_content dev h)"
      using cp that by (simp add: pipe_copy_ok_def)
    then show "p_read_section k f_flags count dev h =
        Inr (Returned (int n), take n (pipe_content dev h), [Wake Outq], unlocked (dev\<lparr>rp := a\<rparr>))"
      using that neq(1) lk s by (simp add: step ld case_prod_unfold a_def)
  qed
qed

lemma write_count:
  assumes "ring_ok dev h" and "unat sp = pipe_cap dev - length (pipe_content dev h)"
  shows "unat (if rp dev \<le> wp dev then min (min count sp) (p_end dev - wp dev)
      else min (min count sp) (rp dev - wp dev - 1)) = min (unat count) (write_run dev)"
proof (cases "r_off dev \<le> w_off dev")
  case True
  then have "unat sp = unat (buf_len dev) - 1 - (w_off dev - r_off dev)"
    using assms(2) ring_okD(2-5,11) [OF assms(1)] by (simp add: pipe_cap_def length_ring_content)
  with True show ?thesis
    using ring_pointers [OF assms(1)] by (simp add: write_run_def unat_min ac_simps)
next
  case False
  then have sp: "unat sp = r_off dev - w_off dev - 1"
    using assms(2) ring_okD(2-5,11) [OF assms(1)] by (simp add: pipe_cap_def length_ring_content)
  have d: "unat (rp dev - wp dev) = r_off dev - w_off dev"
    using ring_pointers(5) [OF assms(1)] False by simp
  then have "unat (rp dev - wp dev - 1) = r_off dev - w_off dev - 1"
    using False by (subst unat_minus_one) (auto simp: word_eq_0_unat)
  with False sp show ?thesis
    using ring_pointers(3) [OF assms(1)] by (simp add: write_run_def unat_min)
qed

lemma p_write_section_spec:
  assumes ok: "ring_ok dev h" and lk: "held (p_lock dev)" and cp: "pipe_copy_ok k"
    and len: "unat count \<le> length buf" and n_def: "n = min (unat count) (write_run dev)"
  shows "snd (kp_copy_from_user k buf (of_nat n)) \<noteq> 0 \<Longrightarrow>
      \<exists>b. p_write_section k buf count dev h =
            Inr (Returned (- EFAULT), [], unlocked dev, h(p_buf dev \<mapsto> b)) \<and>
          ring_ok dev (h(p_buf dev \<mapsto> b)) \<and> pipe_content dev (h(p_buf dev \<mapsto> b)) = pipe_content dev h"
    "snd (kp_copy_from_user k buf (of_nat n)) = 0 \<Longrightarrow>
      \<exists>a b. p_write_section k buf count dev h =
            Inr (Returned (int n), Wake Inq # (if async_q dev then [SigIO] else []),
                 unlocked (dev\<lparr>wp := a\<rparr>), h(p_buf dev \<mapsto> b)) \<and>
          ring_ok (dev\<lparr>wp := a\<rparr>) (h(p_buf dev \<mapsto> b)) \<and>
          pipe_content (dev\<lparr>wp := a\<rparr>) (h(p_buf dev \<mapsto> b)) = pipe_content dev h @ take n buf"
proof -
  note D = ring_okD [OF ok]
  let ?b = "p_block dev h"
  obtain sp where sp: "spacefree dev = Inr ([], sp)" "unat sp = pipe_cap dev - length (pipe_content dev h)"
    using spacefree_value [OF ok] lk by auto
  define c where "c = (if rp dev \<le> wp dev then min (min count sp) (p_end dev - wp dev)
      else min (min count sp) (rp dev - wp dev - 1))"
  have c: "unat c = n" unfolding c_def n_def by (rule write_count [OF ok sp(2)])
  then have cn: "of_nat n = c" by (simp flip: c)
  define xs where "xs = fst (kp_copy_from_user k buf c)"
  have lxs: "length xs = n" using cp len c by (simp add: pipe_copy_ok_def xs_def n_def)
  have run: "length xs \<le> (if r_off dev \<le> w_off dev then length ?b - w_off dev else r_off dev - w_off dev - 1)"
    unfolding lxs n_def D(2) write_run_def by (simp add: min.coboundedI1 min.coboundedI2)
  have room: "length (ring_content (r_off dev) (w_off dev) ?b) + length xs < length ?b"
    using D(2-5) unfolding lxs n_def write_run_def by (auto simp: length_ring_content split: if_splits)
  have fits: "w_off dev + n \<le> unat (buf_len dev)"
    using run lxs D(2-4) by (auto split: if_splits)
  define b where "b = blit ?b (w_off dev) xs"
  have lb: "length b = unat (buf_len dev)" unfolding b_def using fits lxs D(2) by simp
  have st: "slab_store h (p_buf dev) (wp dev - p_buf dev) xs = Inr (h(p_buf dev \<mapsto> b))"
    unfolding slab_store_def by (subst D(1)) (use fits D(2) lxs b_def in simp)
  define a where "a = (if wp dev + c = p_end dev then p_buf dev else wp dev + c)"
  have e: "p_end dev = p_buf dev + buf_len dev" using ok by (simp add: ring_ok_def)
  have off: "unat (a - p_buf dev) = (if w_off dev + n = length ?b then 0 else w_off dev + n)"
    using advance_offset [of "wp dev" "p_buf dev" c "buf_len dev"] fits unfolding a_def e c D(2) .
  have ok0: "ring_ok dev (h(p_buf dev \<mapsto> b))" using ok lb by (simp add: ring_ok_def)
  have ok1: "ring_ok (dev\<lparr>wp := a\<rparr>) (h(p_buf dev \<mapsto> b))"
    using ok0 off fits D(2,5) by (auto simp: ring_ok_def word_less_nat_alt)
  have ct0: "pipe_content dev (h(p_buf dev \<mapsto> b)) = pipe_content dev h"
    unfolding D(11) using ring_blit_free [OF _ _ run] D(2-4) by (simp add: pipe_content_def b_def)
  have ct1: "pipe_content (dev\<lparr>wp := a\<rparr>) (h(p_buf dev \<mapsto> b)) = pipe_content dev h @ xs"
    unfolding D(11) using ring_append [OF _ _ run room, unfolded lxs] D(2-4)
    by (simp add: pipe_content_def b_def off split: if_splits)
  have "n < 2 ^ 63" using fits D(10) by linarith
  then have s: "sint c = int n" using sint_small [of c] c by simp
  note step = p_write_section_def [of k buf count dev h, unfolded sp(1) bindS_simps Let_def case_prod_unfold
      fst_conv snd_conv, folded c_def, folded xs_def, unfolded st bindS_simps]
  show "\<exists>b. p_write_section k buf count dev h =
            Inr (Returned (- EFAULT), [], unlocked dev, h(p_buf dev \<mapsto> b)) \<and>
          ring_ok dev (h(p_buf dev \<mapsto> b)) \<and> pipe_content dev (h(p_buf dev \<mapsto> b)) = pipe_content dev h"
    if "snd (kp_copy_from_user k buf (of_nat n)) \<noteq> 0"
    using that lk ok0 ct0 unfolding cn by (intro exI [of _ b]) (simp add: step)
  show "\<exists>a b. p_write_section k buf count dev h =
            Inr (Returned (int n), Wake Inq # (if async_q dev then [SigIO] else []),
                 unlocked (dev\<lparr>wp := a\<rparr>), h(p_buf dev \<mapsto> b)) \<and>
          ring_ok (dev\<lparr>wp := a\<rparr>) (h(p_buf dev \<mapsto> b)) \<and>
          pipe_content (dev\<lparr>wp := a\<rparr>) (h(p_buf dev \<mapsto> b)) = pipe_content dev h @ take n buf"
    if "snd (kp_copy_from_user k buf (of_nat n)) = 0"
  proof (intro exI [of _ a] exI [of _ b] conjI ok1)
    have "xs = take n buf"
      using cp that len c unfolding cn by (simp add: pipe_copy_ok_def xs_def n_def)
    with ct1 show "pipe_content (dev\<lparr>wp := a\<rparr>) (h(p_buf dev \<mapsto> b)) = pipe_content dev h @ take n buf" by simp
    show "p_write_section k buf count dev h =
        Inr (Returned (int n), Wake Inq # (if async_q dev then [SigIO] else []),
             unlocked (dev\<lparr>wp := a\<rparr>), h(p_buf dev \<mapsto> b))"
      using that lk s unfolding cn by (simp add: step a_def)
  qed
qed

end
