(* ===== verification/Scull_Pipe_Fifo.thy ===== *)
theory Scull_Pipe_Fifo
  imports Scull_Pipe_Ring
begin

text \<open>
  The system calls of the scull pipe against its contents: read, write, poll and open on every
  branch. The non-blocking read and write are a first-in first-out queue in the sense of the
  contract \<open>byte_fifo\<close>, whose consequences (order and completeness of any sequence of
  calls, a message of any length gets across) are proved once from the contract.
\<close>

section \<open>The contract of a bounded queue\<close>

text \<open>A client's sequence of calls, the bytes accepted and delivered in it.\<close>

datatype 'a fifo_op = Put "'a list" | Get nat

fun fifo_run ::
    "('a list \<Rightarrow> 's \<Rightarrow> nat \<times> 's) \<Rightarrow> (nat \<Rightarrow> 's \<Rightarrow> 'a list \<times> 's) \<Rightarrow> 'a fifo_op list \<Rightarrow> 's
       \<Rightarrow> 'a list \<times> 'a list \<times> 's" where
  "fifo_run put get [] s = ([], [], s)"
| "fifo_run put get (Put xs # ops) s =
     (let (n, s) = put xs s; (acc, del, s) = fifo_run put get ops s in (take n xs @ acc, del, s))"
| "fifo_run put get (Get n # ops) s =
     (let (ys, s) = get n s; (acc, del, s) = fifo_run put get ops s in (acc, ys @ del, s))"

text \<open>
  A writer with the message \<open>xs\<close> and a reader of \<open>m\<close> bytes at a time take turns until
  the message is written and a read finds nothing; \<open>None\<close> when the rounds run out before.
\<close>

fun fifo_pump ::
    "('a list \<Rightarrow> 's \<Rightarrow> nat \<times> 's) \<Rightarrow> (nat \<Rightarrow> 's \<Rightarrow> 'a list \<times> 's) \<Rightarrow> nat \<Rightarrow> nat \<Rightarrow> 'a list \<Rightarrow> 's
       \<Rightarrow> 'a list option" where
  "fifo_pump put get m 0 xs s = None"
| "fifo_pump put get m (Suc f) xs s =
     (let (n, s) = put xs s; xs = drop n xs; (ys, s) = get m s
      in if xs = [] \<and> ys = [] then Some []
         else map_option ((@) ys) (fifo_pump put get m f xs s))"

locale byte_fifo =
  fixes ok :: "'s \<Rightarrow> bool"
    and content :: "'s \<Rightarrow> 'a list"
    and cap :: "'s \<Rightarrow> nat"
    and put :: "'a list \<Rightarrow> 's \<Rightarrow> nat \<times> 's"
    and get :: "nat \<Rightarrow> 's \<Rightarrow> 'a list \<times> 's"
  assumes put_ok: "ok s \<Longrightarrow> ok (snd (put xs s))"
    and get_ok: "ok s \<Longrightarrow> ok (snd (get n s))"
    and put_content: "ok s \<Longrightarrow> content (snd (put xs s)) = content s @ take (fst (put xs s)) xs"
    and put_le: "ok s \<Longrightarrow> fst (put xs s) \<le> length xs"
    and put_progress: "ok s \<Longrightarrow> xs \<noteq> [] \<Longrightarrow> length (content s) < cap s \<Longrightarrow> 0 < fst (put xs s)"
    and get_content: "ok s \<Longrightarrow> content s = fst (get n s) @ content (snd (get n s))"
    and get_le: "ok s \<Longrightarrow> length (fst (get n s)) \<le> n"
    and get_progress: "ok s \<Longrightarrow> 0 < n \<Longrightarrow> content s \<noteq> [] \<Longrightarrow> fst (get n s) \<noteq> []"
    and cap_pos: "ok s \<Longrightarrow> 0 < cap s"
begin

lemma run_order:
  "fifo_run put get ops s = (acc, del, t) \<Longrightarrow> ok s \<Longrightarrow> ok t \<and> content s @ acc = del @ content t"
proof (induction ops arbitrary: s acc del)
  case (Cons opn ops)
  show ?case
  proof (cases opn)
    case (Put xs)
    with Cons.prems obtain acc' where r: "fifo_run put get ops (snd (put xs s)) = (acc', del, t)"
      and "acc = take (fst (put xs s)) xs @ acc'"
      by (auto simp: case_prod_unfold Let_def prod_eq_iff)
    with Cons.IH [OF r] put_ok put_content Cons.prems(2) show ?thesis by simp
  next
    case (Get n)
    with Cons.prems obtain del' where r: "fifo_run put get ops (snd (get n s)) = (acc, del', t)"
      and "del = fst (get n s) @ del'"
      by (auto simp: case_prod_unfold Let_def prod_eq_iff)
    with Cons.IH [OF r] get_ok [of s n] get_content [of s n] Cons.prems(2) show ?thesis by simp
  qed
qed simp

lemma pump_delivers:
  "ok s \<Longrightarrow> 0 < m \<Longrightarrow> length (content s) + length xs < f \<Longrightarrow>
     fifo_pump put get m f xs s = Some (content s @ xs)"
proof (induction f arbitrary: xs s)
  case (Suc f)
  define n s1 where "n = fst (put xs s)" and "s1 = snd (put xs s)"
  define ys s2 where "ys = fst (get m s1)" and "s2 = snd (get m s1)"
  have ok1: "ok s1" and c1: "content s1 = content s @ take n xs" and n: "n \<le> length xs"
    using put_ok put_content put_le Suc.prems(1) by (simp_all add: n_def s1_def)
  have ok2: "ok s2" and c2: "content s1 = ys @ content s2"
    using get_ok get_content ok1 unfolding ys_def s2_def by blast+
  have all: "content s @ xs = ys @ content s2 @ drop n xs"
    using c1 c2 by (metis append_assoc append_take_drop_id)
  have more: "ys \<noteq> []" if "content s @ xs \<noteq> []"
  proof -
    have "content s1 \<noteq> []"
      using put_progress [OF Suc.prems(1), of xs] cap_pos [OF Suc.prems(1)] that
      by (cases "content s = []") (auto simp: c1 n_def)
    then show ?thesis unfolding ys_def by (rule get_progress [OF ok1 Suc.prems(2)])
  qed
  have step: "fifo_pump put get m (Suc f) xs s =
      (if drop n xs = [] \<and> ys = [] then Some [] else map_option ((@) ys) (fifo_pump put get m f (drop n xs) s2))"
    by (simp add: case_prod_unfold Let_def n_def s1_def ys_def s2_def)
  show ?case
  proof (cases "content s @ xs = []")
    case True
    then show ?thesis unfolding step using c1 c2 by simp
  next
    case False
    then have "ys \<noteq> []" by (rule more)
    then have "length (content s2) + length (drop n xs) < f"
      using arg_cong [OF all, of length] Suc.prems(3) by (cases ys) auto
    from Suc.IH [OF ok2 Suc.prems(2) this] \<open>ys \<noteq> []\<close> all show ?thesis unfolding step by simp
  qed
qed simp

end

section \<open>Read and write as whole calls\<close>

text \<open>A call that does not sleep leaves the lock as it found it.\<close>

abbreviation locked :: "mutex \<Rightarrow> mutex" where
  "locked m \<equiv> acquire_ctx (m\<lparr>held := True\<rparr>)"

lemma lock_free [simp]: "\<not> held m \<Longrightarrow> mutex_lock_interruptible_sparse 0 m = Inr (0, locked m)"
  by (simp add: mutex_lock_interruptible_sparse_def)

lemma lock_interrupted [simp]: "lk \<noteq> 0 \<Longrightarrow> mutex_lock_interruptible_sparse lk m = Inr (lk, m)"
  by (simp add: mutex_lock_interruptible_sparse_def)

lemma held_ctx [simp]: "held (acquire_ctx m) = held m" "held (release_ctx m) = held m"
  by (simp_all add: acquire_ctx_def release_ctx_def)

lemma lock_unlock [simp]:
  "\<not> held m \<Longrightarrow> (release_ctx (locked m))\<lparr>held := False\<rparr> = m"
  "\<not> held m \<Longrightarrow> (release_ctx (release_ctx (acquire_ctx (locked m))))\<lparr>held := False\<rparr> = m"
  "\<not> held m \<Longrightarrow> release_ctx ((release_ctx (acquire_ctx (locked m)))\<lparr>held := False\<rparr>) = m"
  by (simp_all add: acquire_ctx_def release_ctx_def)

lemma unlocked_locked [simp]:
  "\<not> held (p_lock dev) \<Longrightarrow> unlocked (dev\<lparr>p_lock := locked (p_lock dev)\<rparr>) = dev"
  "\<not> held (p_lock dev) \<Longrightarrow> unlocked (dev\<lparr>p_lock := locked (p_lock dev), rp := a\<rparr>) = dev\<lparr>rp := a\<rparr>"
  "\<not> held (p_lock dev) \<Longrightarrow>
     unlocked (dev\<lparr>p_lock := release_ctx (acquire_ctx (locked (p_lock dev))), wp := a\<rparr>) = dev\<lparr>wp := a\<rparr>"
  "\<not> held (p_lock dev) \<Longrightarrow>
     unlocked (dev\<lparr>p_lock := release_ctx (acquire_ctx (locked (p_lock dev)))\<rparr>) = dev"
  by (simp_all add: unlocked_def)

lemma ring_ok_lock [simp]: "ring_ok (dev\<lparr>p_lock := m\<rparr>) h = ring_ok dev h"
  by (simp add: ring_ok_def)

lemma pipe_content_lock [simp]: "pipe_content (dev\<lparr>p_lock := m\<rparr>) h = pipe_content dev h"
  by (rule pipe_content_cong) simp_all

lemma runs_lock [simp]:
  "read_run (dev\<lparr>p_lock := m\<rparr>) = read_run dev" "write_run (dev\<lparr>p_lock := m\<rparr>) = write_run dev"
  "pipe_cap (dev\<lparr>p_lock := m\<rparr>) = pipe_cap dev"
  by (simp_all add: read_run_def write_run_def pipe_cap_def)

lemma scull_p_read_empty:
  assumes "ring_ok dev h" and "\<not> held (p_lock dev)" and "pipe_content dev h = []"
  shows "scull_p_read k 0 f_flags count dev h =
    Inr (if idx dev = PROPER_FIFO_BEH_IDX \<and> writers dev = 0 then Returned 0
         else if f_flags AND O_NONBLOCK \<noteq> 0 then Returned (- EAGAIN) else Sleeping Inq, [], [], dev)"
proof -
  have "rp dev = wp dev" using assms pipe_content_empty by blast
  then show ?thesis
    using assms by (simp add: scull_p_read_def Let_def p_read_section_empty)
qed

lemma scull_p_read_data:
  assumes ok: "ring_ok dev h" and lk: "\<not> held (p_lock dev)" and ne: "pipe_content dev h \<noteq> []"
    and cp: "pipe_copy_ok k" and n: "n = min (unat count) (read_run dev)"
  shows "snd (kp_copy_to_user k (take n (pipe_content dev h))) \<noteq> 0 \<Longrightarrow>
      scull_p_read k 0 f_flags count dev h =
        Inr (Returned (- EFAULT), fst (kp_copy_to_user k (take n (pipe_content dev h))), [], dev)"
    "snd (kp_copy_to_user k (take n (pipe_content dev h))) = 0 \<Longrightarrow>
      \<exists>a. scull_p_read k 0 f_flags count dev h =
            Inr (Returned (int n), take n (pipe_content dev h), [Wake Outq], dev\<lparr>rp := a\<rparr>) \<and>
          ring_ok (dev\<lparr>rp := a\<rparr>) h \<and> pipe_content (dev\<lparr>rp := a\<rparr>) h = drop n (pipe_content dev h)"
proof -
  let ?d = "dev\<lparr>p_lock := locked (p_lock dev)\<rparr>"
  have "rp dev \<noteq> wp dev" using ok ne pipe_content_empty by blast
  then have eq: "scull_p_read k 0 f_flags count dev h = p_read_section k f_flags count ?d h"
    using lk by (simp add: scull_p_read_def Let_def)
  have *: "ring_ok ?d h" "held (p_lock ?d)" "pipe_content ?d h \<noteq> []" "pipe_copy_ok k"
      "n = min (unat count) (read_run ?d)"
    using ok ne cp n by simp_all
  note sec = p_read_section_data [OF *, of f_flags]
  show "scull_p_read k 0 f_flags count dev h =
        Inr (Returned (- EFAULT), fst (kp_copy_to_user k (take n (pipe_content dev h))), [], dev)"
    if "snd (kp_copy_to_user k (take n (pipe_content dev h))) \<noteq> 0"
    using that sec(1) lk by (simp add: eq)
  show "\<exists>a. scull_p_read k 0 f_flags count dev h =
            Inr (Returned (int n), take n (pipe_content dev h), [Wake Outq], dev\<lparr>rp := a\<rparr>) \<and>
          ring_ok (dev\<lparr>rp := a\<rparr>) h \<and> pipe_content (dev\<lparr>rp := a\<rparr>) h = drop n (pipe_content dev h)"
    if z: "snd (kp_copy_to_user k (take n (pipe_content dev h))) = 0"
  proof -
    obtain a where a: "p_read_section k f_flags count ?d h =
        Inr (Returned (int n), take n (pipe_content dev h), [Wake Outq], unlocked (?d\<lparr>rp := a\<rparr>))"
        "ring_ok (?d\<lparr>rp := a\<rparr>) h" "pipe_content (?d\<lparr>rp := a\<rparr>) h = drop n (pipe_content dev h)"
      using sec(2) z by auto
    have "ring_ok (?d\<lparr>rp := a\<rparr>) h = ring_ok (dev\<lparr>rp := a\<rparr>) h" by (rule ring_ok_cong) simp_all
    moreover have "pipe_content (?d\<lparr>rp := a\<rparr>) h = pipe_content (dev\<lparr>rp := a\<rparr>) h"
      by (rule pipe_content_cong) simp_all
    ultimately show ?thesis using a lk by (simp add: eq) blast
  qed
qed

text \<open>The write loop entered with the lock: a full pipe, and one with space.\<close>

lemma p_write_loop_full:
  assumes "ring_ok dev h" and "held (p_lock dev)" and "length (pipe_content dev h) = pipe_cap dev"
  shows "p_write_loop k f_flags buf count dev h =
    (if f_flags AND O_NONBLOCK \<noteq> 0
     then Inr (Returned (- EAGAIN), [], (unlocked dev)\<lparr>p_lock := release_ctx (p_lock (unlocked dev))\<rparr>, h)
     else Inr (Sleeping Outq, [], unlocked dev, h))"
proof -
  obtain n where "spacefree dev = Inr ([], n)" "n = 0"
    using spacefree_value [OF assms(1)] assms(2,3) by (auto simp: word_eq_0_unat)
  then show ?thesis using assms(2) by (simp add: p_write_loop_def getwritespace_loop_def)
qed

lemma p_write_loop_space:
  assumes "ring_ok dev h" and "held (p_lock dev)" and "length (pipe_content dev h) < pipe_cap dev"
  shows "p_write_loop k f_flags buf count dev h =
    p_write_section k buf count (dev\<lparr>p_lock := release_ctx (p_lock dev)\<rparr>) h"
proof -
  obtain n where "spacefree dev = Inr ([], n)" "n \<noteq> 0"
    using spacefree_value [OF assms(1)] assms(2,3) by (auto simp: word_eq_0_unat)
  then show ?thesis using assms(2) by (simp add: p_write_loop_def getwritespace_loop_def)
qed

lemma scull_p_write_full:
  assumes "ring_ok dev h" and "\<not> held (p_lock dev)" and "length (pipe_content dev h) = pipe_cap dev"
  shows "f_flags AND O_NONBLOCK \<noteq> 0 \<Longrightarrow>
      scull_p_write k 0 f_flags buf count dev h = Inr (Returned (- EAGAIN), [], dev, h)"
    "f_flags AND O_NONBLOCK = 0 \<Longrightarrow>
      scull_p_write k 0 f_flags buf count dev h =
        Inr (Sleeping Outq, [], dev\<lparr>p_lock := acquire_ctx (p_lock dev)\<rparr>, h)"
  using assms
  by (simp_all add: scull_p_write_def lockdep_assert_held_def p_write_loop_full unlocked_def)
    (simp add: acquire_ctx_def release_ctx_def)

lemma scull_p_write_space:
  assumes ok: "ring_ok dev h" and lk: "\<not> held (p_lock dev)"
    and sp: "length (pipe_content dev h) < pipe_cap dev" and cp: "pipe_copy_ok k"
    and len: "unat count \<le> length buf" and n: "n = min (unat count) (write_run dev)"
  shows "snd (kp_copy_from_user k buf (of_nat n)) \<noteq> 0 \<Longrightarrow>
      \<exists>b. scull_p_write k 0 f_flags buf count dev h =
            Inr (Returned (- EFAULT), [], dev, h(p_buf dev \<mapsto> b)) \<and>
          ring_ok dev (h(p_buf dev \<mapsto> b)) \<and> pipe_content dev (h(p_buf dev \<mapsto> b)) = pipe_content dev h"
    "snd (kp_copy_from_user k buf (of_nat n)) = 0 \<Longrightarrow>
      \<exists>a b. scull_p_write k 0 f_flags buf count dev h =
            Inr (Returned (int n), Wake Inq # (if async_q dev then [SigIO] else []),
                 dev\<lparr>wp := a\<rparr>, h(p_buf dev \<mapsto> b)) \<and>
          ring_ok (dev\<lparr>wp := a\<rparr>) (h(p_buf dev \<mapsto> b)) \<and>
          pipe_content (dev\<lparr>wp := a\<rparr>) (h(p_buf dev \<mapsto> b)) = pipe_content dev h @ take n buf"
proof -
  let ?d = "dev\<lparr>p_lock := release_ctx (acquire_ctx (locked (p_lock dev)))\<rparr>"
  have eq: "scull_p_write k 0 f_flags buf count dev h = p_write_section k buf count ?d h"
    using ok lk sp by (simp add: scull_p_write_def lockdep_assert_held_def p_write_loop_space)
  have *: "ring_ok ?d h" "held (p_lock ?d)" "pipe_copy_ok k" "unat count \<le> length buf"
      "n = min (unat count) (write_run ?d)"
    using ok cp len n by simp_all
  note sec = p_write_section_spec [OF *]
  show "\<exists>b. scull_p_write k 0 f_flags buf count dev h =
            Inr (Returned (- EFAULT), [], dev, h(p_buf dev \<mapsto> b)) \<and>
          ring_ok dev (h(p_buf dev \<mapsto> b)) \<and> pipe_content dev (h(p_buf dev \<mapsto> b)) = pipe_content dev h"
    if "snd (kp_copy_from_user k buf (of_nat n)) \<noteq> 0"
    using sec(1) [OF that] lk by (simp add: eq)
  show "\<exists>a b. scull_p_write k 0 f_flags buf count dev h =
            Inr (Returned (int n), Wake Inq # (if async_q dev then [SigIO] else []),
                 dev\<lparr>wp := a\<rparr>, h(p_buf dev \<mapsto> b)) \<and>
          ring_ok (dev\<lparr>wp := a\<rparr>) (h(p_buf dev \<mapsto> b)) \<and>
          pipe_content (dev\<lparr>wp := a\<rparr>) (h(p_buf dev \<mapsto> b)) = pipe_content dev h @ take n buf"
    if z: "snd (kp_copy_from_user k buf (of_nat n)) = 0"
  proof -
    obtain a b where a: "p_write_section k buf count ?d h =
        Inr (Returned (int n), Wake Inq # (if async_q dev then [SigIO] else []),
             unlocked (?d\<lparr>wp := a\<rparr>), h(p_buf dev \<mapsto> b))"
        "ring_ok (?d\<lparr>wp := a\<rparr>) (h(p_buf dev \<mapsto> b))"
        "pipe_content (?d\<lparr>wp := a\<rparr>) (h(p_buf dev \<mapsto> b)) = pipe_content dev h @ take n buf"
      using sec(2) z by auto
    have "ring_ok (?d\<lparr>wp := a\<rparr>) h' = ring_ok (dev\<lparr>wp := a\<rparr>) h'"
      "pipe_content (?d\<lparr>wp := a\<rparr>) h' = pipe_content (dev\<lparr>wp := a\<rparr>) h'" for h'
      by (rule ring_ok_cong pipe_content_cong; simp)+
    with a lk show ?thesis by (simp add: eq) blast
  qed
qed

section \<open>The pipe is such a queue\<close>

text \<open>
  A client of an open pipe with working user buffers: non-blocking calls, the count cut by the
  system call layer as it does for every driver (\<^verbatim>\<open>MAX_RW_COUNT\<close>).
\<close>

type_synonym pipe_client = "pipe_kernel \<times> scull_pipe \<times> slab_map"

definition pipe_put :: "byte list \<Rightarrow> pipe_client \<Rightarrow> nat \<times> pipe_client" where
  "pipe_put xs = (\<lambda>(k, dev, h).
     case scull_p_write k 0 O_NONBLOCK xs (of_nat (min (length xs) MAX_RW_COUNT)) dev h of
       Inr (Returned n, _, dev', h') \<Rightarrow> (nat n, k, dev', h')
     | _ \<Rightarrow> (0, k, dev, h))"

definition pipe_get :: "nat \<Rightarrow> pipe_client \<Rightarrow> byte list \<times> pipe_client" where
  "pipe_get n = (\<lambda>(k, dev, h).
     case scull_p_read k 0 O_NONBLOCK (of_nat (min n MAX_RW_COUNT)) dev h of
       Inr (Returned _, out, _, dev') \<Rightarrow> (out, k, dev', h)
     | _ \<Rightarrow> ([], k, dev, h))"

definition client_ok :: "pipe_client \<Rightarrow> bool" where
  "client_ok = (\<lambda>(k, dev, h). ring_ok dev h \<and> \<not> held (p_lock dev) \<and> 2 \<le> unat (buf_len dev) \<and>
     pipe_copy_ok k \<and> (\<forall>bs. snd (kp_copy_to_user k bs) = 0) \<and>
     (\<forall>src n. snd (kp_copy_from_user k src n) = 0))"

definition client_content :: "pipe_client \<Rightarrow> byte list" where
  "client_content = (\<lambda>(k, dev, h). pipe_content dev h)"

definition client_cap :: "pipe_client \<Rightarrow> nat" where
  "client_cap = (\<lambda>(k, dev, h). pipe_cap dev)"

lemma pipe_put_step:
  assumes "client_ok (k, dev, h)"
  shows "\<exists>n dev' h'. pipe_put xs (k, dev, h) = (n, k, dev', h') \<and> client_ok (k, dev', h') \<and>
    pipe_content dev' h' = pipe_content dev h @ take n xs \<and> n \<le> length xs \<and>
    (xs \<noteq> [] \<longrightarrow> length (pipe_content dev h) < pipe_cap dev \<longrightarrow> 0 < n)"
proof -
  have ok: "ring_ok dev h" and lk: "\<not> held (p_lock dev)" and cp: "pipe_copy_ok k"
    and cu: "snd (kp_copy_from_user k src c) = 0" for src c
    using assms by (simp_all add: client_ok_def)
  let ?c = "of_nat (min (length xs) MAX_RW_COUNT) :: size_t"
  have uc: "unat ?c = min (length xs) MAX_RW_COUNT" by (rule unat_rw_count)
  then have le: "unat ?c \<le> length xs" by simp
  show ?thesis
  proof (cases "length (pipe_content dev h) < pipe_cap dev")
    case True
    let ?n = "min (unat ?c) (write_run dev)"
    obtain a b where w: "scull_p_write k 0 O_NONBLOCK xs ?c dev h =
        Inr (Returned (int ?n), Wake Inq # (if async_q dev then [SigIO] else []), dev\<lparr>wp := a\<rparr>, h(p_buf dev \<mapsto> b))"
      "ring_ok (dev\<lparr>wp := a\<rparr>) (h(p_buf dev \<mapsto> b))"
      "pipe_content (dev\<lparr>wp := a\<rparr>) (h(p_buf dev \<mapsto> b)) = pipe_content dev h @ take ?n xs"
      using scull_p_write_space(2) [OF ok lk True cp le refl cu] by blast
    have "pipe_put xs (k, dev, h) = (?n, k, dev\<lparr>wp := a\<rparr>, h(p_buf dev \<mapsto> b))"
      by (simp only: pipe_put_def prod.case w(1) sum.case p_result.case nat_int)
    moreover have "client_ok (k, dev\<lparr>wp := a\<rparr>, h(p_buf dev \<mapsto> b))"
      using assms w(2) by (simp add: client_ok_def)
    moreover have "?n \<le> length xs" using le by simp
    moreover have "0 < ?n" if "xs \<noteq> []"
      using that write_run_pos [OF ok] True by (simp add: uc)
    ultimately show ?thesis using w(3) by blast
  next
    case False
    then have full: "length (pipe_content dev h) = pipe_cap dev"
      using length_pipe_content [OF ok] by simp
    have "pipe_put xs (k, dev, h) = (0, k, dev, h)"
      using scull_p_write_full(1) [OF ok lk full, of O_NONBLOCK] by (simp add: pipe_put_def)
    with False assms show ?thesis by simp
  qed
qed

lemma pipe_get_step:
  assumes "client_ok (k, dev, h)"
  shows "\<exists>out dev'. pipe_get n (k, dev, h) = (out, k, dev', h) \<and> client_ok (k, dev', h) \<and>
    pipe_content dev h = out @ pipe_content dev' h \<and> length out \<le> n \<and>
    (0 < n \<longrightarrow> pipe_content dev h \<noteq> [] \<longrightarrow> out \<noteq> [])"
proof -
  have ok: "ring_ok dev h" and lk: "\<not> held (p_lock dev)" and cp: "pipe_copy_ok k"
    and cu: "snd (kp_copy_to_user k bs) = 0" for bs
    using assms by (simp_all add: client_ok_def)
  let ?c = "of_nat (min n MAX_RW_COUNT) :: size_t"
  have uc: "unat ?c = min n MAX_RW_COUNT" by (rule unat_rw_count)
  show ?thesis
  proof (cases "pipe_content dev h = []")
    case True
    have "pipe_get n (k, dev, h) = ([], k, dev, h)"
      using scull_p_read_empty [OF ok lk True, of k O_NONBLOCK ?c] by (simp add: pipe_get_def)
    with True assms show ?thesis by simp
  next
    case False
    let ?m = "min (unat ?c) (read_run dev)"
    obtain a where r: "scull_p_read k 0 O_NONBLOCK ?c dev h =
        Inr (Returned (int ?m), take ?m (pipe_content dev h), [Wake Outq], dev\<lparr>rp := a\<rparr>)"
      "ring_ok (dev\<lparr>rp := a\<rparr>) h" "pipe_content (dev\<lparr>rp := a\<rparr>) h = drop ?m (pipe_content dev h)"
      using scull_p_read_data(2) [OF ok lk False cp refl cu] by blast
    have "pipe_get n (k, dev, h) = (take ?m (pipe_content dev h), k, dev\<lparr>rp := a\<rparr>, h)"
      by (simp only: pipe_get_def prod.case r(1) sum.case p_result.case)
    moreover have "client_ok (k, dev\<lparr>rp := a\<rparr>, h)" using assms r(2) by (simp add: client_ok_def)
    moreover have "pipe_content dev h = take ?m (pipe_content dev h) @ pipe_content (dev\<lparr>rp := a\<rparr>) h"
      by (simp add: r(3))
    moreover have "length (take ?m (pipe_content dev h)) \<le> n" by (simp add: uc)
    moreover have "take ?m (pipe_content dev h) \<noteq> []" if "0 < n"
      using that False read_run_pos [OF ok] pipe_content_empty [OF ok] by (simp add: uc)
    ultimately show ?thesis by blast
  qed
qed

interpretation pipe_fifo: byte_fifo client_ok client_content client_cap pipe_put pipe_get
proof
  fix s xs assume ok: "client_ok s"
  obtain k dev h where s: "s = (k, dev, h)" by (cases s)
  from pipe_put_step [of k dev h xs] ok
  show "client_ok (snd (pipe_put xs s))" "fst (pipe_put xs s) \<le> length xs"
    "client_content (snd (pipe_put xs s)) = client_content s @ take (fst (pipe_put xs s)) xs"
    "xs \<noteq> [] \<Longrightarrow> length (client_content s) < client_cap s \<Longrightarrow> 0 < fst (pipe_put xs s)"
    unfolding s by (auto simp: client_content_def client_cap_def)
next
  fix s and n :: nat assume ok: "client_ok s"
  obtain k dev h where s: "s = (k, dev, h)" by (cases s)
  from pipe_get_step [of k dev h n] ok
  show "client_ok (snd (pipe_get n s))" "length (fst (pipe_get n s)) \<le> n"
    "client_content s = fst (pipe_get n s) @ client_content (snd (pipe_get n s))"
    "0 < n \<Longrightarrow> client_content s \<noteq> [] \<Longrightarrow> fst (pipe_get n s) \<noteq> []"
    unfolding s by (auto simp: client_content_def)
next
  fix s assume "client_ok s"
  then show "0 < client_cap s" by (auto simp: client_ok_def client_cap_def pipe_cap_def)
qed

end
