(* ===== verification/Scull_Pipe_Props.thy ===== *)
theory Scull_Pipe_Props
  imports Scull_Pipe_Fifo Scull_Ioctl
begin

text \<open>
  The properties of single calls on the scull pipe and of sequences of non-blocking calls, each
  with a witness on a pipe of four bytes, and what the size command of the ioctl interface does
  to a pipe that is already open.
\<close>

section \<open>A pipe for the witnesses\<close>

definition demo_pk :: pipe_kernel where
  "demo_pk = \<lparr>k_kmalloc = (\<lambda>h n. if h 4096 = None \<and> n = 4 then Some (4096, [0, 0, 0, 0]) else None),
     kp_copy_to_user = (\<lambda>bs. (bs, 0)),
     kp_copy_from_user = (\<lambda>src n. (take (unat n) src, 0)),
     k_nonseekable_open = 0, k_fasync_helper = (\<lambda>fd mode q. (0, q))\<rparr>"

text \<open>A pipe with the bytes 1 and 2 across the end of its buffer.\<close>

definition demo_pipe :: scull_pipe where
  "demo_pipe = \<lparr>idx = 0, p_buf = 4096, p_end = 4100, buf_len = 4, rp = 4099, wp = 4097,
     readers = 1, writers = 1, async_q = False, p_lock = mutex_init\<rparr>"

definition demo_pheap :: slab_map where
  "demo_pheap = [4096 \<mapsto> [2, 0, 0, 1]]"

lemma demo_pk_ok: "pipe_copy_ok demo_pk" "kmalloc_ok demo_pk" "pipe_kernel_ok demo_pk"
  by (auto simp: demo_pk_def pipe_copy_ok_def kmalloc_ok_def pipe_kernel_ok_def split: if_splits)

lemma demo_pipe_ok: "ring_ok demo_pipe demo_pheap" "\<not> held (p_lock demo_pipe)"
  by (simp_all add: ring_ok_def demo_pipe_def demo_pheap_def mutex_init_def)

lemma demo_pipe_content: "pipe_content demo_pipe demo_pheap = [1, 2]" "pipe_cap demo_pipe = 3"
  by (simp_all add: pipe_content_def demo_pipe_def demo_pheap_def ring_content_def pipe_cap_def)

lemma demo_client_ok: "client_ok (demo_pk, demo_pipe, demo_pheap)"
  using demo_pk_ok demo_pipe_ok by (simp add: client_ok_def) (simp add: demo_pk_def demo_pipe_def)

section \<open>Poll\<close>

lemma scull_p_poll_value:
  assumes "ring_ok dev h" and "\<not> held (p_lock dev)"
  shows "scull_p_poll dev =
    Inr (if idx dev = PROPER_FIFO_BEH_IDX \<and> writers dev = 0 then POLLERR OR POLLHUP
         else (if pipe_content dev h \<noteq> [] then POLLIN OR POLLRDNORM else 0) OR
              (if length (pipe_content dev h) < pipe_cap dev then POLLOUT OR POLLWRNORM else 0), dev)"
proof -
  let ?d = "dev\<lparr>p_lock := (acquire_ctx (p_lock dev))\<lparr>held := True\<rparr>\<rparr>"
  have ul: "unlocked ?d = dev" using assms(2) by (simp add: unlocked_def acquire_ctx_def release_ctx_def)
  obtain n where n: "spacefree ?d = Inr ([], n)" "unat n = pipe_cap dev - length (pipe_content dev h)"
    using spacefree_value [of ?d h] assms(1) by auto
  have "n \<noteq> 0 \<longleftrightarrow> length (pipe_content dev h) < pipe_cap dev" using n(2) by (auto simp: word_eq_0_unat)
  then show ?thesis
    using assms n(1) ul
    by (simp add: scull_p_poll_def mutex_lock_sparse_def Let_def pipe_content_empty)
qed

section \<open>Properties\<close>

text \<open>
  C10: The circular buffer is a first-in first-out queue. For any sequence of non-blocking writes
  and reads on an open pipe, the bytes that were in it followed by the bytes the writes accepted
  are the bytes the reads delivered followed by the bytes that are in it afterwards.
\<close>

theorem scull_p_fifo_order:
  assumes "client_ok (k, dev, h)"
    and "fifo_run pipe_put pipe_get ops (k, dev, h) = (accepted, delivered, k', dev', h')"
  shows "pipe_content dev h @ accepted = delivered @ pipe_content dev' h' \<and> ring_ok dev' h'"
  using pipe_fifo.run_order [OF assms(2,1)] by (simp add: client_content_def client_ok_def)

text \<open>
  C15: A message of any length gets across. A writer and a reader that take turns with
  non-blocking calls, the reader with any positive count, transfer what is in the pipe and the
  whole message, in order, in at most one round per byte and one more.
\<close>

theorem scull_p_message_delivered:
  assumes "client_ok (k, dev, h)" and "0 < m"
  shows "fifo_pump pipe_put pipe_get m (length (pipe_content dev h) + length msg + 1) msg (k, dev, h)
    = Some (pipe_content dev h @ msg)"
  using pipe_fifo.pump_delivers [OF assms, of msg "length (pipe_content dev h) + length msg + 1"]
  by (simp add: client_content_def del: fifo_pump.simps)

text \<open>
  C18: A read of a pipe takes exactly the front of its contents. With the lock free it never
  faults; an empty pipe gives end of file (proper behaviour without writers), \<open>-EAGAIN\<close> or
  a sleep on the input queue; a failing user copy removes nothing; otherwise the bytes up to the
  count or the end of the buffer are delivered and removed and the writers are woken.
\<close>

theorem scull_p_read_exact:
  assumes "ring_ok dev h" and "\<not> held (p_lock dev)" and "pipe_copy_ok k"
    and "bs = take (min (unat count) (read_run dev)) (pipe_content dev h)"
  shows "\<exists>res out evs dev'. scull_p_read k 0 f_flags count dev h = Inr (res, out, evs, dev') \<and>
    (if pipe_content dev h = [] then
       dev' = dev \<and> out = [] \<and> evs = [] \<and>
       res = (if idx dev = PROPER_FIFO_BEH_IDX \<and> writers dev = 0 then Returned 0
              else if f_flags AND O_NONBLOCK \<noteq> 0 then Returned (- EAGAIN) else Sleeping Inq)
     else if snd (kp_copy_to_user k bs) \<noteq> 0 then dev' = dev \<and> res = Returned (- EFAULT) \<and> evs = []
     else res = Returned (int (length bs)) \<and> out = bs \<and> evs = [Wake Outq] \<and> ring_ok dev' h \<and>
          dev' = dev\<lparr>rp := rp dev'\<rparr> \<and> pipe_content dev h = bs @ pipe_content dev' h)"
proof -
  define n where "n = min (unat count) (read_run dev)"
  have bs: "bs = take n (pipe_content dev h)" using assms(4) by (simp add: n_def)
  show ?thesis
  proof (cases "pipe_content dev h = []")
    case True
    then show ?thesis using scull_p_read_empty [OF assms(1,2)] by simp
  next
    case False
    note data = scull_p_read_data [OF assms(1,2) False assms(3) n_def, of f_flags]
    have len: "length bs = n"
      using read_run_le [OF assms(1)] False pipe_content_empty [OF assms(1)] by (simp add: bs n_def)
    show ?thesis
    proof (cases "snd (kp_copy_to_user k bs) = 0")
      case True
      with data(2) obtain a where "scull_p_read k 0 f_flags count dev h =
            Inr (Returned (int n), bs, [Wake Outq], dev\<lparr>rp := a\<rparr>)"
          "ring_ok (dev\<lparr>rp := a\<rparr>) h" "pipe_content (dev\<lparr>rp := a\<rparr>) h = drop n (pipe_content dev h)"
        unfolding bs by blast
      with True False len show ?thesis by (simp add: bs)
    next
      case copy: False
      then show ?thesis using data(1) False by (simp add: bs)
    qed
  qed
qed

text \<open>
  C19: A write to a pipe appends exactly. With the lock free it never faults; a full pipe gives
  \<open>-EAGAIN\<close> or a sleep on the output queue; a failing user copy leaves the contents as they
  were; otherwise the bytes up to the count, the free space or the end of the buffer are
  appended, the readers are woken and the asynchronous listeners, if any, get a signal.
\<close>

theorem scull_p_write_exact:
  assumes "ring_ok dev h" and "\<not> held (p_lock dev)" and "pipe_copy_ok k" and "unat count \<le> length buf"
    and "n = min (unat count) (write_run dev)"
  shows "\<exists>res evs dev' h'. scull_p_write k 0 f_flags buf count dev h = Inr (res, evs, dev', h') \<and>
    (if length (pipe_content dev h) = pipe_cap dev then
       evs = [] \<and> h' = h \<and>
       (if f_flags AND O_NONBLOCK \<noteq> 0 then res = Returned (- EAGAIN) \<and> dev' = dev
        else res = Sleeping Outq \<and> dev' = dev\<lparr>p_lock := acquire_ctx (p_lock dev)\<rparr>)
     else ring_ok dev' h' \<and> (\<forall>a. a \<noteq> p_buf dev \<longrightarrow> h' a = h a) \<and> dev' = dev\<lparr>wp := wp dev'\<rparr> \<and>
       (if snd (kp_copy_from_user k buf (of_nat n)) \<noteq> 0
        then res = Returned (- EFAULT) \<and> evs = [] \<and> pipe_content dev' h' = pipe_content dev h
        else res = Returned (int n) \<and> evs = Wake Inq # (if async_q dev then [SigIO] else []) \<and>
             pipe_content dev' h' = pipe_content dev h @ take n buf))"
proof (cases "length (pipe_content dev h) = pipe_cap dev")
  case True
  then show ?thesis
    using scull_p_write_full [OF assms(1,2) True, of f_flags] by (cases "f_flags AND O_NONBLOCK = 0") simp_all
next
  case False
  then have sp: "length (pipe_content dev h) < pipe_cap dev" using length_pipe_content [OF assms(1)] by simp
  note w = scull_p_write_space [OF assms(1,2) sp assms(3-5), of f_flags]
  show ?thesis
  proof (cases "snd (kp_copy_from_user k buf (of_nat n)) = 0")
    case True
    with w(2) obtain a b where "scull_p_write k 0 f_flags buf count dev h =
            Inr (Returned (int n), Wake Inq # (if async_q dev then [SigIO] else []),
                 dev\<lparr>wp := a\<rparr>, h(p_buf dev \<mapsto> b))"
          "ring_ok (dev\<lparr>wp := a\<rparr>) (h(p_buf dev \<mapsto> b))"
          "pipe_content (dev\<lparr>wp := a\<rparr>) (h(p_buf dev \<mapsto> b)) = pipe_content dev h @ take n buf"
      by blast
    with True sp show ?thesis by simp
  next
    case copy: False
    with w(1) obtain b where "scull_p_write k 0 f_flags buf count dev h =
            Inr (Returned (- EFAULT), [], dev, h(p_buf dev \<mapsto> b))"
          "ring_ok dev (h(p_buf dev \<mapsto> b))" "pipe_content dev (h(p_buf dev \<mapsto> b)) = pipe_content dev h"
      by blast
    with copy sp show ?thesis by simp
  qed
qed

text \<open>
  C20: Poll tells the truth. On an open pipe that is not a proper one without writers, poll
  reports readable exactly when a non-blocking read would not be turned away with
  \<open>-EAGAIN\<close>, and writable exactly when a non-blocking write would not; it changes nothing.
\<close>

theorem scull_p_poll_exact:
  assumes "ring_ok dev h" and "\<not> held (p_lock dev)" and "pipe_copy_ok k" and "unat count \<le> length buf"
    and "\<not> (idx dev = PROPER_FIFO_BEH_IDX \<and> writers dev = 0)"
  shows "\<exists>mask. scull_p_poll dev = Inr (mask, dev) \<and>
    (mask AND POLLIN = 0 \<longleftrightarrow> (\<exists>x. scull_p_read k 0 O_NONBLOCK c dev h = Inr (Returned (- EAGAIN), x))) \<and>
    (mask AND POLLOUT = 0 \<longleftrightarrow> (\<exists>x. scull_p_write k 0 O_NONBLOCK buf count dev h = Inr (Returned (- EAGAIN), x)))"
proof -
  obtain mask where mask: "scull_p_poll dev = Inr (mask, dev)"
    and v: "mask = (if pipe_content dev h \<noteq> [] then POLLIN OR POLLRDNORM else 0) OR
              (if length (pipe_content dev h) < pipe_cap dev then POLLOUT OR POLLWRNORM else 0)"
    using scull_p_poll_value [OF assms(1,2)] assms(5) by simp
  have rd: "(\<exists>x. scull_p_read k 0 O_NONBLOCK c dev h = Inr (Returned (- EAGAIN), x))
      \<longleftrightarrow> pipe_content dev h = []"
  proof (cases "pipe_content dev h = []")
    case True
    then show ?thesis using scull_p_read_empty [OF assms(1,2)] assms(5) by simp
  next
    case False
    then show ?thesis
      using scull_p_read_data [OF assms(1,2) False assms(3) refl, of c O_NONBLOCK]
      by (cases "snd (kp_copy_to_user k (take (min (unat c) (read_run dev)) (pipe_content dev h))) = 0") auto
  qed
  have wr: "(\<exists>x. scull_p_write k 0 O_NONBLOCK buf count dev h = Inr (Returned (- EAGAIN), x))
      \<longleftrightarrow> \<not> length (pipe_content dev h) < pipe_cap dev"
  proof (cases "length (pipe_content dev h) < pipe_cap dev")
    case True
    then show ?thesis
      using scull_p_write_space [OF assms(1,2) True assms(3,4) refl, of O_NONBLOCK]
      by (cases "snd (kp_copy_from_user k buf (of_nat (min (unat count) (write_run dev)))) = 0") auto
  next
    case False
    then have "length (pipe_content dev h) = pipe_cap dev" using length_pipe_content [OF assms(1)] by simp
    then show ?thesis using scull_p_write_full(1) [OF assms(1,2), of O_NONBLOCK] by simp
  qed
  show ?thesis unfolding rd wr using mask by (simp add: v)
qed

text \<open>
  C21: Enlarging the pipe while it is open breaks it. The size command needs no privilege; when
  the module length has been raised above the size of the buffer an open pipe has, the next
  open succeeds, keeps the old buffer but takes over the new length, and a write of more bytes
  than the buffer holds runs past its end.
\<close>

theorem scull_p_resize_overflow:
  assumes "ring_ok dev h" and "\<not> held (p_lock dev)" and "pipe_copy_ok k" and "k_nonseekable_open k = 0"
    and "idx dev \<noteq> PROPER_FIFO_BEH_IDX" and "\<forall>a n. k_access_ok ik a n"
    and "buf_len dev < count" and "count < n" and "unat count \<le> length buf"
  shows "\<exists>g' dev'. scull_ioctl ik g m SCULL_P_IOCTSIZE n = (0, g', m) \<and>
    scull_p_open k g' 0 f_mode f_flags dev h = Inr (Returned 0, [], dev', h) \<and>
    scull_p_write k 0 f_flags buf count dev' h = Inl OutOfBounds"
proof -
  let ?g = "g\<lparr>scull_p_len := n\<rparr>"
  define d where "d = p_reset_buf ?g dev"
  define dev' where "dev' = (let d = (if f_mode AND FMODE_READ \<noteq> 0 then d\<lparr>readers := readers d + 1\<rparr> else d)
      in if f_mode AND FMODE_WRITE \<noteq> 0 then d\<lparr>writers := writers d + 1\<rparr> else d)"
  have buf: "p_buf dev \<noteq> 0" using assms(1) by (simp add: ring_ok_def)
  have op: "scull_p_open k ?g 0 f_mode f_flags dev h = Inr (Returned 0, [], dev', h)"
    using assms(2,4,5) buf
    by (simp add: scull_p_open_def p_alloc_buf_def p_reset_buf_def dev'_def d_def Let_def unlocked_def)
  have dev': "p_buf dev' = p_buf dev" "rp dev' = p_buf dev" "wp dev' = p_buf dev" "buf_len dev' = n"
      "p_end dev' = p_buf dev + n" "p_lock dev' = p_lock dev"
    by (simp_all add: dev'_def d_def p_reset_buf_def Let_def)
  have cn: "count \<le> n - 1" "n - 1 \<noteq> 0" "count \<le> n"
    using assms(7,8) by (auto simp: word_le_nat_alt word_less_nat_alt unat_minus_one word_eq_0_unat)
  let ?l = "acquire_ctx (locked (p_lock dev))"
  have sf: "spacefree (dev'\<lparr>p_lock := l\<rparr>) = Inr ([], n - 1)" if "held l" for l
    using that by (simp add: spacefree_def dev' Let_def)
  have len: "length (fst (kp_copy_from_user k buf count)) = unat count"
    using assms(3,9) by (simp add: pipe_copy_ok_def)
  have "slab_store h (p_buf dev) 0 (fst (kp_copy_from_user k buf count)) = Inl OutOfBounds"
    unfolding slab_store_def
    by (subst ring_okD(1) [OF assms(1)]) (use ring_okD(2) [OF assms(1)] assms(7) len in \<open>simp add: word_less_nat_alt\<close>)
  then have "scull_p_write k 0 f_flags buf count dev' h = Inl OutOfBounds"
    using assms(2) cn
    by (simp add: scull_p_write_def lockdep_assert_held_def p_write_loop_def getwritespace_loop_def
        p_write_section_def sf dev' Let_def case_prod_unfold min_absorb1)
  with op scull_ioctl_cmds(8) [OF assms(6), of g m n] show ?thesis by blast
qed

section \<open>Witnesses\<close>

lemmas pipe_run_defs = pipe_put_def pipe_get_def scull_p_write_def scull_p_read_def p_write_loop_def
  getwritespace_loop_def p_write_section_def p_read_section_def spacefree_def p_unlock_def
  slab_load_def slab_store_def mutex_defs Let_def blit_def sub_block_def PROPER_FIFO_BEH_IDX_def

theorem scull_p_fifo_order_witness:
  "\<exists>dev' h'. fifo_run pipe_put pipe_get [Put [3, 4], Get 5, Get 5] (demo_pk, demo_pipe, demo_pheap) =
     ([3], [1, 2, 3], demo_pk, dev', h') \<and> pipe_content dev' h' = [] \<and> ring_ok dev' h'"
proof -
  have "fifo_run pipe_put pipe_get [Put [3, 4], Get 5, Get 5] (demo_pk, demo_pipe, demo_pheap) =
     ([3], [1, 2, 3], demo_pk, demo_pipe\<lparr>rp := 4098, wp := 4098\<rparr>, [4096 \<mapsto> [2, 3, 0, 1]])"
    by (simp add: pipe_run_defs demo_pk_def demo_pipe_def demo_pheap_def)
  with scull_p_fifo_order [OF demo_client_ok this] show ?thesis
    unfolding demo_pipe_content by auto
qed

theorem scull_p_message_delivered_witness:
  "fifo_pump pipe_put pipe_get 2 8 [3, 4, 5, 6, 7] (demo_pk, demo_pipe, demo_pheap) = Some [1, 2, 3, 4, 5, 6, 7]"
  using scull_p_message_delivered [OF demo_client_ok, of 2 "[3, 4, 5, 6, 7]"]
  unfolding demo_pipe_content by (simp add: eval_nat_numeral del: fifo_pump.simps)

lemma demo_runs: "read_run demo_pipe = 1" "write_run demo_pipe = 1" "\<not> async_q demo_pipe"
    "snd (kp_copy_to_user demo_pk bs) = 0" "snd (kp_copy_from_user demo_pk src n) = 0"
  by (simp_all add: read_run_def write_run_def demo_pipe_def demo_pk_def)

theorem scull_p_read_exact_witness:
  "\<exists>dev'. scull_p_read demo_pk 0 0 10 demo_pipe demo_pheap = Inr (Returned 1, [1], [Wake Outq], dev') \<and>
     pipe_content dev' demo_pheap = [2]"
  using scull_p_read_exact [OF demo_pipe_ok demo_pk_ok(1), of "[1]" 10 0]
  by (auto simp: demo_pipe_content demo_runs)

theorem scull_p_write_exact_witness:
  "\<exists>dev' h'. scull_p_write demo_pk 0 0 [3, 4] 2 demo_pipe demo_pheap = Inr (Returned 1, [Wake Inq], dev', h') \<and>
     pipe_content dev' h' = [1, 2, 3]"
  using scull_p_write_exact [OF demo_pipe_ok demo_pk_ok(1), of 2 "[3, 4]" 1 0]
  by (auto simp: demo_pipe_content demo_runs)

theorem scull_p_poll_exact_witness:
  "\<exists>mask. scull_p_poll demo_pipe = Inr (mask, demo_pipe) \<and> mask AND POLLIN \<noteq> 0 \<and> mask AND POLLOUT \<noteq> 0"
proof -
  have "\<not> (idx demo_pipe = PROPER_FIFO_BEH_IDX \<and> writers demo_pipe = 0)" by (simp add: demo_pipe_def)
  then obtain mask where m: "scull_p_poll demo_pipe = Inr (mask, demo_pipe)"
    "mask AND POLLIN = 0 \<longleftrightarrow> (\<exists>x. scull_p_read demo_pk 0 O_NONBLOCK 1 demo_pipe demo_pheap = Inr (Returned (- EAGAIN), x))"
    "mask AND POLLOUT = 0 \<longleftrightarrow> (\<exists>x. scull_p_write demo_pk 0 O_NONBLOCK [3] 1 demo_pipe demo_pheap = Inr (Returned (- EAGAIN), x))"
    using scull_p_poll_exact [OF demo_pipe_ok demo_pk_ok(1), of 1 "[3]" 1] by auto
  have "\<nexists>x. scull_p_read demo_pk 0 O_NONBLOCK 1 demo_pipe demo_pheap = Inr (Returned (- EAGAIN), x)"
    "\<nexists>x. scull_p_write demo_pk 0 O_NONBLOCK [3] 1 demo_pipe demo_pheap = Inr (Returned (- EAGAIN), x)"
    by (simp_all add: pipe_run_defs demo_pk_def demo_pipe_def demo_pheap_def)
  with m show ?thesis by blast
qed

theorem scull_p_resize_overflow_witness:
  "\<exists>g' dev'. scull_ioctl demo_ioctl scull_globals_init Map.empty SCULL_P_IOCTSIZE 16 = (0, g', Map.empty) \<and>
    scull_p_open demo_pk g' 0 FMODE_WRITE 0 demo_pipe demo_pheap = Inr (Returned 0, [], dev', demo_pheap) \<and>
    scull_p_write demo_pk 0 0 [1, 2, 3, 4, 5, 6] 6 dev' demo_pheap = Inl OutOfBounds"
  by (rule scull_p_resize_overflow [OF demo_pipe_ok demo_pk_ok(1)])
    (simp_all add: demo_pk_def demo_pipe_def demo_ioctl_ok PROPER_FIFO_BEH_IDX_def)

end
