(* ===== verification/Scull_Pipe_Threads.thy ===== *)
theory Scull_Pipe_Threads
  imports Scull_Pipe_Props
begin

text \<open>
  Threads that share one scull pipe. A thread is between calls or somewhere in a call that
  sleeps; a step of the system is one part of a call of one thread (\<^verbatim>\<open>Scull_Pipe\<close>), with
  the wake-ups it issues delivered to the sleepers, the evaluation of a sleeper's condition, or
  a signal. The invariant of all reachable states gives memory safety, the order of the bytes
  for every interleaving, and which wake-ups cannot be lost.
\<close>

section \<open>States\<close>

text \<open>
  \<open>Checking\<close> is after \<^verbatim>\<open>prepare_to_wait\<close>, before the condition is looked at;
  \<open>Asleep\<close> is in \<^verbatim>\<open>schedule\<close>; \<open>Ready\<close> is about to take the lock again. A call
  keeps its \<^verbatim>\<open>f_mode\<close>, \<^verbatim>\<open>f_flags\<close> and arguments.
\<close>

datatype p_phase = Checking | Asleep | Ready

datatype p_thread =
    NoFile
  | Idle u32 u32
  | Opening p_phase u32 u32
  | Reading p_phase u32 u32 size_t
  | Writing p_phase u32 u32 "byte list"

text \<open>The bytes accepted and delivered since the pipe was last reset are kept for the statements.\<close>

record p_sys =
  sys_dev :: scull_pipe
  sys_heap :: slab_map
  sys_thr :: "p_thread list"
  sys_in :: "byte list"
  sys_out :: "byte list"

datatype p_action =
    AOpen nat u32 u32 int
  | ARelease nat int
  | ARead nat size_t int
  | AWrite nat "byte list" int
  | ACheck nat
  | AGo nat int
  | ASignal nat

section \<open>Wake-ups\<close>

text \<open>
  A woken thread looks at its condition again in \<^verbatim>\<open>wait_event_interruptible\<close> and goes
  straight on in \<^verbatim>\<open>scull_getwritespace\<close>.
\<close>

fun wake_thread :: "p_queue \<Rightarrow> p_thread \<Rightarrow> p_thread" where
  "wake_thread Openq (Opening Asleep m f) = Opening Checking m f"
| "wake_thread Inq (Reading Asleep m f c) = Reading Checking m f c"
| "wake_thread Outq (Writing Asleep m f b) = Writing Ready m f b"
| "wake_thread _ th = th"

fun deliver :: "p_event list \<Rightarrow> p_thread list \<Rightarrow> p_thread list" where
  "deliver [] thr = thr"
| "deliver (Wake q # evs) thr = deliver evs (map (wake_thread q) thr)"
| "deliver (_ # evs) thr = deliver evs thr"

section \<open>Steps\<close>

definition p_count :: "byte list \<Rightarrow> size_t" where
  "p_count buf = of_nat (min (length buf) MAX_RW_COUNT)"

text \<open>Where a thread is after a part of an open, a read or a write.\<close>

definition after_open :: "u32 \<Rightarrow> u32 \<Rightarrow> p_result \<Rightarrow> p_thread" where
  "after_open m f res =
     (case res of Sleeping _ \<Rightarrow> Opening Checking m f
      | Returned r \<Rightarrow> if r = 0 then Idle m f else NoFile)"

definition after_read :: "u32 \<Rightarrow> u32 \<Rightarrow> size_t \<Rightarrow> p_result \<Rightarrow> p_thread" where
  "after_read m f c res = (case res of Sleeping _ \<Rightarrow> Reading Checking m f c | Returned _ \<Rightarrow> Idle m f)"

definition after_write :: "u32 \<Rightarrow> u32 \<Rightarrow> byte list \<Rightarrow> p_result \<Rightarrow> p_thread" where
  "after_write m f b res = (case res of Sleeping _ \<Rightarrow> Writing Checking m f b | Returned _ \<Rightarrow> Idle m f)"

text \<open>A successful open resets the pipe, unless it is the reading side of a proper one.\<close>

definition open_resets :: "scull_pipe \<Rightarrow> u32 \<Rightarrow> p_result \<Rightarrow> bool" where
  "open_resets dev m res \<longleftrightarrow> res = Returned 0 \<and> \<not> (idx dev = PROPER_FIFO_BEH_IDX \<and> m AND FMODE_READ \<noteq> 0)"

definition sys_opened ::
    "nat \<Rightarrow> u32 \<Rightarrow> u32 \<Rightarrow> p_sys \<Rightarrow> p_result \<times> p_event list \<times> scull_pipe \<times> slab_map \<Rightarrow> p_sys" where
  "sys_opened t m f s = (\<lambda>(res, evs, dev, h).
     s\<lparr>sys_dev := dev, sys_heap := h, sys_thr := deliver evs ((sys_thr s)[t := after_open m f res]),
       sys_in := if open_resets dev m res then [] else sys_in s,
       sys_out := if open_resets dev m res then [] else sys_out s\<rparr>)"

definition sys_read ::
    "nat \<Rightarrow> u32 \<Rightarrow> u32 \<Rightarrow> size_t \<Rightarrow> p_sys \<Rightarrow> p_result \<times> byte list \<times> p_event list \<times> scull_pipe \<Rightarrow> p_sys" where
  "sys_read t m f c s = (\<lambda>(res, out, evs, dev).
     s\<lparr>sys_dev := dev, sys_thr := deliver evs ((sys_thr s)[t := after_read m f c res]),
       sys_out := (case res of Returned r \<Rightarrow> if 0 \<le> r then sys_out s @ out else sys_out s
                   | Sleeping _ \<Rightarrow> sys_out s)\<rparr>)"

definition sys_written ::
    "nat \<Rightarrow> u32 \<Rightarrow> u32 \<Rightarrow> byte list \<Rightarrow> p_sys \<Rightarrow> p_result \<times> p_event list \<times> scull_pipe \<times> slab_map \<Rightarrow> p_sys" where
  "sys_written t m f b s = (\<lambda>(res, evs, dev, h).
     s\<lparr>sys_dev := dev, sys_heap := h, sys_thr := deliver evs ((sys_thr s)[t := after_write m f b res]),
       sys_in := (case res of Returned r \<Rightarrow> if 0 \<le> r then sys_in s @ take (nat r) b else sys_in s
                  | Sleeping _ \<Rightarrow> sys_in s)\<rparr>)"

text \<open>Closing the last file frees the buffer and with it whatever was in the pipe.\<close>

definition sys_released :: "nat \<Rightarrow> p_sys \<Rightarrow> int \<times> scull_pipe \<times> slab_map \<Rightarrow> p_sys" where
  "sys_released t s = (\<lambda>(_, dev, h).
     s\<lparr>sys_dev := dev, sys_heap := h, sys_thr := (sys_thr s)[t := NoFile],
       sys_in := if p_buf dev = 0 then [] else sys_in s,
       sys_out := if p_buf dev = 0 then [] else sys_out s\<rparr>)"

definition set_phase :: "p_phase \<Rightarrow> p_thread \<Rightarrow> p_thread" where
  "set_phase ph th = (case th of Opening _ m f \<Rightarrow> Opening ph m f | Reading _ m f c \<Rightarrow> Reading ph m f c
     | Writing _ m f b \<Rightarrow> Writing ph m f b | _ \<Rightarrow> th)"

text \<open>The condition of a sleeper that is looked at without the lock: whether it need not sleep.\<close>

definition can_go :: "scull_pipe \<Rightarrow> p_thread \<Rightarrow> (fault + bool) option" where
  "can_go dev th =
     (case th of
        Opening Checking _ _ \<Rightarrow> Some (Inr (writers dev > 0))
      | Reading Checking _ _ _ \<Rightarrow> Some (Inr (rp dev \<noteq> wp dev))
      | Writing Checking _ _ _ \<Rightarrow> Some (bindS (getwritespace_check dev) (\<lambda>(_, full). Inr (\<not> full)))
      | _ \<Rightarrow> None)"

text \<open>
  One step of the system: \<open>None\<close> when the action is not possible in the state, a fault, or the
  next state. Reads and writes need a file opened for them, as the system call layer sees to.
\<close>

definition p_exec :: "pipe_kernel \<Rightarrow> scull_globals \<Rightarrow> p_action \<Rightarrow> p_sys \<Rightarrow> (fault + p_sys) option" where
  "p_exec k g a s =
     (let dev = sys_dev s; h = sys_heap s; thr = sys_thr s in
      case a of
        AOpen t m f lk \<Rightarrow>
          if t < length thr \<and> thr ! t = NoFile
          then Some (bindS (scull_p_open k g lk m f dev h) (\<lambda>x. Inr (sys_opened t m f s x)))
          else None
      | ARelease t lk \<Rightarrow>
          if t < length thr
          then (case thr ! t of
                  Idle m f \<Rightarrow> Some (bindS (scull_p_release k lk m dev h) (\<lambda>x. Inr (sys_released t s x)))
                | _ \<Rightarrow> None)
          else None
      | ARead t c lk \<Rightarrow>
          if t < length thr
          then (case thr ! t of
                  Idle m f \<Rightarrow>
                    if m AND FMODE_READ \<noteq> 0
                    then Some (bindS (scull_p_read k lk f c dev h) (\<lambda>x. Inr (sys_read t m f c s x)))
                    else None
                | _ \<Rightarrow> None)
          else None
      | AWrite t b lk \<Rightarrow>
          if t < length thr
          then (case thr ! t of
                  Idle m f \<Rightarrow>
                    if m AND FMODE_WRITE \<noteq> 0
                    then Some (bindS (scull_p_write k lk f b (p_count b) dev h)
                                 (\<lambda>x. Inr (sys_written t m f b s x)))
                    else None
                | _ \<Rightarrow> None)
          else None
      | ACheck t \<Rightarrow>
          if t < length thr
          then map_option (\<lambda>r. bindS r (\<lambda>go.
                 Inr (s\<lparr>sys_thr := thr[t := set_phase (if go then Ready else Asleep) (thr ! t)]\<rparr>)))
                 (can_go dev (thr ! t))
          else None
      | AGo t lk \<Rightarrow>
          if t < length thr
          then (case thr ! t of
                  Opening Ready m f \<Rightarrow>
                    Some (bindS (proper_open_resume k 0 lk dev)
                            (\<lambda>(res, dev). Inr (sys_opened t m f s (res, [], dev, h))))
                | Reading Ready m f c \<Rightarrow>
                    Some (bindS (scull_p_read_resume k 0 lk f c dev h) (\<lambda>x. Inr (sys_read t m f c s x)))
                | Writing Ready m f b \<Rightarrow>
                    Some (bindS (scull_p_write_resume k False lk f b (p_count b) dev h)
                            (\<lambda>x. Inr (sys_written t m f b s x)))
                | _ \<Rightarrow> None)
          else None
      | ASignal t \<Rightarrow>
          if t < length thr
          then (case thr ! t of
                  Opening ph m f \<Rightarrow>
                    if ph = Ready then None
                    else Some (bindS (proper_open_resume k (- ERESTARTSYS) 0 dev)
                                 (\<lambda>(res, dev). Inr (sys_opened t m f s (res, [], dev, h))))
                | Reading ph m f c \<Rightarrow>
                    if ph = Ready then None
                    else Some (bindS (scull_p_read_resume k (- ERESTARTSYS) 0 f c dev h)
                                 (\<lambda>x. Inr (sys_read t m f c s x)))
                | Writing ph m f b \<Rightarrow>
                    Some (bindS (scull_p_write_resume k True 0 f b (p_count b) dev h)
                            (\<lambda>x. Inr (sys_written t m f b s x)))
                | _ \<Rightarrow> None)
          else None)"

text \<open>
  A condition on actions, the premise of the properties that name it: the counters are far from
  wrapping around, and on the proper pipe no open is for both directions and no open fails to
  allocate the buffer. The other pipes are under no such restriction. Runs that break one of the
  last two conditions are shown in \<^verbatim>\<open>Scull_Pipe_Safe\<close>. The length \<^verbatim>\<open>scull_p_len\<close> of new buffers is
  a parameter of the system, so that it is the same for all steps.
\<close>

definition p_admissible :: "pipe_kernel \<Rightarrow> scull_globals \<Rightarrow> p_sys \<Rightarrow> p_action \<Rightarrow> bool" where
  "p_admissible k g s a =
     (case a of
        AOpen t m f lk \<Rightarrow>
          unat (readers (sys_dev s)) + 1 < 2 ^ 63 \<and> unat (writers (sys_dev s)) + 1 < 2 ^ 63 \<and>
          (idx (sys_dev s) = PROPER_FIFO_BEH_IDX \<longrightarrow>
             (m AND FMODE_READ = 0 \<or> m AND FMODE_WRITE = 0) \<and>
             (p_buf (sys_dev s) = 0 \<longrightarrow> k_kmalloc k (sys_heap s) (scull_p_len g) \<noteq> None))
      | _ \<Rightarrow> True)"

text \<open>A step by an action that satisfies the condition \<open>ok\<close>.\<close>

inductive p_step :: "(p_sys \<Rightarrow> p_action \<Rightarrow> bool) \<Rightarrow> pipe_kernel \<Rightarrow> scull_globals \<Rightarrow> p_sys \<Rightarrow> p_sys \<Rightarrow> bool"
  for ok :: "p_sys \<Rightarrow> p_action \<Rightarrow> bool" and k :: pipe_kernel and g :: scull_globals where
  p_step_exec: "ok s a \<Longrightarrow> p_exec k g a s = Some (Inr s') \<Longrightarrow> p_step ok k g s s'"

inductive_cases p_stepE: "p_step ok k g s s'"

text \<open>
  A schedule, for concrete runs: \<open>None\<close> if an action is not possible, breaks the condition or
  faults.
\<close>

fun p_schedule :: "(p_sys \<Rightarrow> p_action \<Rightarrow> bool) \<Rightarrow> pipe_kernel \<Rightarrow> scull_globals \<Rightarrow> p_action list \<Rightarrow> p_sys \<Rightarrow> p_sys option" where
  "p_schedule ok k g [] s = Some s"
| "p_schedule ok k g (a # as) s =
     (if ok s a
      then (case p_exec k g a s of Some (Inr s') \<Rightarrow> p_schedule ok k g as s' | _ \<Rightarrow> None)
      else None)"

text \<open>The device as the module sets it up, with no file open.\<close>

definition p_initial :: "pipe_kernel \<Rightarrow> scull_globals \<Rightarrow> p_sys \<Rightarrow> bool" where
  "p_initial k g s \<longleftrightarrow> pipe_kernel_ok k \<and> scull_p_len g \<noteq> 0 \<and>
     (\<exists>i h n. h 0 = None \<and>
        s = \<lparr>sys_dev = pipe_zero i, sys_heap = h, sys_thr = replicate n NoFile, sys_in = [], sys_out = []\<rparr>)"

section \<open>The invariant\<close>

fun th_mode :: "p_thread \<Rightarrow> u32" where
  "th_mode NoFile = 0"
| "th_mode (Idle m f) = m"
| "th_mode (Opening ph m f) = m"
| "th_mode (Reading ph m f c) = m"
| "th_mode (Writing ph m f b) = m"

definition th_reads :: "p_thread \<Rightarrow> bool" where "th_reads th \<longleftrightarrow> th_mode th AND FMODE_READ \<noteq> 0"
definition th_writes :: "p_thread \<Rightarrow> bool" where "th_writes th \<longleftrightarrow> th_mode th AND FMODE_WRITE \<noteq> 0"

definition is_writing :: "p_thread \<Rightarrow> bool" where
  "is_writing th = (case th of Writing _ _ _ _ \<Rightarrow> True | _ \<Rightarrow> False)"

definition count_th :: "(p_thread \<Rightarrow> bool) \<Rightarrow> p_thread list \<Rightarrow> nat" where
  "count_th P thr = length (filter P thr)"

text \<open>
  A thread with a file open for reading or writing relies on the buffer; one that is asleep in
  \<^verbatim>\<open>wait_event_interruptible\<close> has a false condition, unless its queue is in \<open>pend\<close>
  (its wake-up is on the way).
\<close>

definition th_ok :: "p_queue set \<Rightarrow> scull_pipe \<Rightarrow> p_thread \<Rightarrow> bool" where
  "th_ok pend dev th \<longleftrightarrow>
     (idx dev = PROPER_FIFO_BEH_IDX \<longrightarrow> \<not> (th_reads th \<and> th_writes th)) \<and>
     (case th of
        NoFile \<Rightarrow> True
      | Idle m f \<Rightarrow> th_reads th \<or> th_writes th \<longrightarrow> p_buf dev \<noteq> 0
      | Opening ph m f \<Rightarrow> idx dev = PROPER_FIFO_BEH_IDX \<and> th_reads th \<and>
          (ph = Asleep \<longrightarrow> Openq \<in> pend \<or> writers dev = 0)
      | Reading ph m f c \<Rightarrow> th_reads th \<and> p_buf dev \<noteq> 0 \<and> (ph = Asleep \<longrightarrow> Inq \<in> pend \<or> rp dev = wp dev)
      | Writing ph m f b \<Rightarrow> th_writes th \<and> p_buf dev \<noteq> 0)"

definition dev_inv :: "scull_globals \<Rightarrow> scull_pipe \<Rightarrow> slab_map \<Rightarrow> bool" where
  "dev_inv g dev h \<longleftrightarrow> h 0 = None \<and> \<not> held (p_lock dev) \<and>
     (p_buf dev \<noteq> 0 \<longrightarrow> ring_ok dev h \<and> buf_len dev = scull_p_len g) \<and>
     (idx dev = PROPER_FIFO_BEH_IDX \<longrightarrow> writers dev \<noteq> 0 \<longrightarrow> p_buf dev \<noteq> 0) \<and>
     unat (readers dev) < 2 ^ 63 \<and> unat (writers dev) < 2 ^ 63"

definition p_inv :: "pipe_kernel \<Rightarrow> scull_globals \<Rightarrow> p_sys \<Rightarrow> bool" where
  "p_inv k g s \<longleftrightarrow> pipe_kernel_ok k \<and> scull_p_len g \<noteq> 0 \<and> dev_inv g (sys_dev s) (sys_heap s) \<and>
     ctx (p_lock (sys_dev s)) = int (count_th is_writing (sys_thr s)) \<and>
     count_th th_reads (sys_thr s) \<le> unat (readers (sys_dev s)) \<and>
     count_th th_writes (sys_thr s) \<le> unat (writers (sys_dev s)) \<and>
     list_all (th_ok {} (sys_dev s)) (sys_thr s) \<and>
     sys_in s = sys_out s @ pipe_content (sys_dev s) (sys_heap s)"

section \<open>Delivery of wake-ups and counting\<close>

lemma wake_thread_keeps [simp]:
  "th_mode (wake_thread q th) = th_mode th" "is_writing (wake_thread q th) = is_writing th"
  by (cases "(q, th)" rule: wake_thread.cases; simp add: is_writing_def)+

lemma wake_thread_modes [simp]:
  "th_reads (wake_thread q th) = th_reads th" "th_writes (wake_thread q th) = th_writes th"
  by (simp_all add: th_reads_def th_writes_def)

lemma th_ok_wake: "th_ok (insert q pend) dev th \<Longrightarrow> th_ok pend dev (wake_thread q th)"
  by (cases "(q, th)" rule: wake_thread.cases) (auto simp: th_ok_def th_reads_def th_writes_def)

lemma th_ok_mono: "th_ok pend dev th \<Longrightarrow> pend \<subseteq> pend' \<Longrightarrow> th_ok pend' dev th"
  by (auto simp: th_ok_def split: p_thread.splits)

definition woken :: "p_event list \<Rightarrow> p_queue set" where
  "woken evs = {q. Wake q \<in> set evs}"

lemma woken_Cons: "woken (Wake q # evs) = insert q (woken evs)" "woken (SigIO # evs) = woken evs"
    "woken (LockdepWarn # evs) = woken evs" "woken [] = {}"
  by (auto simp: woken_def)

lemma deliver_ok: "list_all (th_ok (woken evs) dev) thr \<Longrightarrow> list_all (th_ok {} dev) (deliver evs thr)"
proof (induction evs arbitrary: thr)
  case (Cons e evs)
  show ?case
  proof (cases e)
    case (Wake q)
    then have "list_all (th_ok (woken evs) dev) (map (wake_thread q) thr)"
      using Cons.prems by (auto simp: woken_Cons list_all_iff intro: th_ok_wake)
    from Cons.IH [OF this] show ?thesis using Wake by simp
  qed (use Cons in \<open>simp_all add: woken_Cons\<close>)
qed (simp add: woken_Cons)

lemma count_deliver [simp]:
  assumes "\<And>q th. P (wake_thread q th) = P th"
  shows "count_th P (deliver evs thr) = count_th P thr"
proof (induction evs arbitrary: thr)
  case (Cons e evs)
  then show ?case by (cases e) (simp_all add: count_th_def filter_map o_def assms)
qed simp

lemma count_update:
  "t < length thr \<Longrightarrow> count_th P (thr[t := th]) + of_bool (P (thr ! t)) = count_th P thr + of_bool (P th)"
proof (induction thr arbitrary: t)
  case (Cons x xs)
  then show ?case by (cases t) (auto simp: count_th_def)
qed simp

lemma count_ge: "u < length thr \<Longrightarrow> P (thr ! u) \<Longrightarrow> 0 < count_th P thr"
  by (auto simp: count_th_def filter_empty_conv)

text \<open>The one lemma the preservation proofs go through.\<close>

lemma p_inv_step:
  assumes inv: "p_inv k g s" and t: "t < length (sys_thr s)"
    and thr: "sys_thr s' = deliver evs ((sys_thr s)[t := th])"
    and dev: "dev_inv g (sys_dev s') (sys_heap s')"
    and ctx: "ctx (p_lock (sys_dev s')) + of_bool (is_writing (sys_thr s ! t))
                = ctx (p_lock (sys_dev s)) + of_bool (is_writing th)"
    and rd: "unat (readers (sys_dev s)) + of_bool (th_reads th)
                \<le> unat (readers (sys_dev s')) + of_bool (th_reads (sys_thr s ! t))"
    and wr: "unat (writers (sys_dev s)) + of_bool (th_writes th)
                \<le> unat (writers (sys_dev s')) + of_bool (th_writes (sys_thr s ! t))"
    and th: "th_ok (woken evs) (sys_dev s') th"
    and others: "\<And>u. u < length (sys_thr s) \<Longrightarrow> u \<noteq> t \<Longrightarrow> th_ok {} (sys_dev s) (sys_thr s ! u) \<Longrightarrow>
        th_ok (woken evs) (sys_dev s') (sys_thr s ! u)"
    and fifo: "sys_in s' = sys_out s' @ pipe_content (sys_dev s') (sys_heap s')"
  shows "p_inv k g s'"
proof -
  note I = inv [unfolded p_inv_def]
  have cnt: "count_th P (sys_thr s') + of_bool (P (sys_thr s ! t)) = count_th P (sys_thr s) + of_bool (P th)"
    if "\<And>q th. P (wake_thread q th) = P th" for P
    unfolding thr using count_update [OF t] that by simp
  have "list_all (th_ok (woken evs) (sys_dev s')) ((sys_thr s)[t := th])"
    unfolding list_all_length
  proof (intro allI impI)
    fix u assume u: "u < length ((sys_thr s)[t := th])"
    show "th_ok (woken evs) (sys_dev s') ((sys_thr s)[t := th] ! u)"
    proof (cases "u = t")
      case False
      moreover have "th_ok {} (sys_dev s) (sys_thr s ! u)" using I u by (simp add: list_all_length)
      ultimately show ?thesis using others u by simp
    qed (use t th in simp)
  qed
  then have "list_all (th_ok {} (sys_dev s')) (sys_thr s')" unfolding thr by (rule deliver_ok)
  moreover have "ctx (p_lock (sys_dev s')) = int (count_th is_writing (sys_thr s'))"
    using cnt [of is_writing] ctx I by (auto simp: of_bool_def split: if_splits)
  moreover have "count_th th_reads (sys_thr s') \<le> unat (readers (sys_dev s'))"
    "count_th th_writes (sys_thr s') \<le> unat (writers (sys_dev s'))"
    using cnt [of th_reads] cnt [of th_writes] rd wr I by simp_all
  ultimately show ?thesis using I dev fifo by (simp add: p_inv_def)
qed

end
