(* ===== verification/Scull_Pipe_Safe.thy ===== *)
theory Scull_Pipe_Safe
  imports Scull_Pipe_Threads
begin

text \<open>
  The invariant \<open>p_inv\<close> holds in every reachable state of the threads of a scull pipe. First
  what each call does to the device and the heap, whatever the branch; then preservation, and
  the properties of all interleavings: no faults, order of the bytes, wake-ups. Concrete runs
  show where the code sleeps forever or uses a freed buffer.
\<close>

section \<open>Outcomes of read and write\<close>

definition same_files :: "scull_pipe \<Rightarrow> scull_pipe \<Rightarrow> bool" where
  "same_files dev dev' \<longleftrightarrow> idx dev' = idx dev \<and> p_buf dev' = p_buf dev \<and> buf_len dev' = buf_len dev \<and>
     readers dev' = readers dev \<and> writers dev' = writers dev"

lemma same_files_refl [simp]: "same_files dev dev" "same_files dev (dev\<lparr>p_lock := m\<rparr>)"
  "same_files dev (dev\<lparr>rp := a\<rparr>)" "same_files dev (dev\<lparr>wp := a\<rparr>)"
  by (simp_all add: same_files_def)

definition read_post ::
    "scull_pipe \<Rightarrow> slab_map \<Rightarrow> p_result \<times> byte list \<times> p_event list \<times> scull_pipe \<Rightarrow> bool" where
  "read_post dev h = (\<lambda>(res, out, evs, dev').
     same_files dev dev' \<and> ring_ok dev' h \<and> p_lock dev' = p_lock dev \<and>
     (rp dev = wp dev \<longrightarrow> rp dev' = wp dev') \<and>
     (case res of
        Sleeping _ \<Rightarrow> dev' = dev \<and> pipe_content dev h = []
      | Returned r \<Rightarrow> pipe_content dev h = (if 0 \<le> r then out else []) @ pipe_content dev' h))"

lemma read_post_same: "ring_ok dev h \<Longrightarrow> read_post dev h (Returned r, [], evs, dev)"
  "ring_ok dev h \<Longrightarrow> r < 0 \<Longrightarrow> read_post dev h (Returned r, out, evs, dev)"
  "ring_ok dev h \<Longrightarrow> pipe_content dev h = [] \<Longrightarrow> read_post dev h (Sleeping q, [], evs, dev)"
  by (simp_all add: read_post_def)

lemma scull_p_read_post:
  assumes "ring_ok dev h" and "\<not> held (p_lock dev)" and "pipe_copy_ok k"
  shows "\<exists>x. scull_p_read k lk f c dev h = Inr x \<and> read_post dev h x"
proof (cases "lk = 0")
  case True
  show ?thesis
  proof (cases "pipe_content dev h = []")
    case True
    then show ?thesis
      using scull_p_read_empty [OF assms(1,2) True, of k f c] assms(1) \<open>lk = 0\<close>
      by (simp add: read_post_same)
  next
    case False
    define n where "n = min (unat c) (read_run dev)"
    note data = scull_p_read_data [OF assms(1,2) False assms(3) n_def, of f]
    have ne: "rp dev \<noteq> wp dev" using False pipe_content_empty [OF assms(1)] by simp
    show ?thesis
    proof (cases "snd (kp_copy_to_user k (take n (pipe_content dev h))) = 0")
      case True
      with data(2) obtain a where "scull_p_read k 0 f c dev h =
            Inr (Returned (int n), take n (pipe_content dev h), [Wake Outq], dev\<lparr>rp := a\<rparr>)"
          "ring_ok (dev\<lparr>rp := a\<rparr>) h" "pipe_content (dev\<lparr>rp := a\<rparr>) h = drop n (pipe_content dev h)"
        by blast
      with ne \<open>lk = 0\<close> show ?thesis by (simp add: read_post_def)
    next
      case False
      then show ?thesis using data(1) assms(1) \<open>lk = 0\<close> by (simp add: read_post_same)
    qed
  qed
next
  case False
  then show ?thesis using assms(1) by (simp add: scull_p_read_def read_post_same)
qed

text \<open>
  A resumed read is a read without the end of file test: it is the read of a pipe that has a
  writer.
\<close>

lemma scull_p_read_resume_eq:
  assumes "\<not> held (p_lock dev)" and "rp dev \<noteq> wp dev \<or> idx dev \<noteq> PROPER_FIFO_BEH_IDX \<or> writers dev \<noteq> 0"
  shows "scull_p_read_resume k 0 lk f c dev h = scull_p_read k lk f c dev h"
  using assms by (cases "lk = 0") (auto simp: scull_p_read_resume_def scull_p_read_def Let_def)

lemma scull_p_read_resume_post:
  assumes "ring_ok dev h" and "\<not> held (p_lock dev)" and "pipe_copy_ok k"
  shows "\<exists>x. scull_p_read_resume k w lk f c dev h = Inr x \<and> read_post dev h x"
proof (cases "w = 0")
  case True
  show ?thesis
  proof (cases "rp dev = wp dev \<and> lk = 0")
    case True
    then have "pipe_content dev h = []" using pipe_content_empty [OF assms(1)] by simp
    then show ?thesis
      using assms(1,2) \<open>w = 0\<close> True
      by (simp add: scull_p_read_resume_def p_read_section_empty read_post_same)
  next
    case False
    then show ?thesis
    proof (cases "lk = 0")
      case True
      with False have "rp dev \<noteq> wp dev" by simp
      then show ?thesis
        using scull_p_read_resume_eq [OF assms(2), of k lk f c h] scull_p_read_post [OF assms] \<open>w = 0\<close> by simp
    qed (use assms(1) \<open>w = 0\<close> in \<open>simp add: scull_p_read_resume_def read_post_same\<close>)
  qed
next
  case False
  then show ?thesis using assms(1) by (simp add: scull_p_read_resume_def read_post_same)
qed

text \<open>
  For a write, \<open>c\<close> is the context count without the caller: a caller that sleeps leaves one
  more behind.
\<close>

definition write_post ::
    "int \<Rightarrow> byte list \<Rightarrow> scull_pipe \<Rightarrow> slab_map \<Rightarrow> p_result \<times> p_event list \<times> scull_pipe \<times> slab_map \<Rightarrow> bool" where
  "write_post c b dev h = (\<lambda>(res, evs, dev', h').
     same_files dev dev' \<and> ring_ok dev' h' \<and> \<not> held (p_lock dev') \<and> rp dev' = rp dev \<and>
     (\<forall>a. a \<noteq> p_buf dev \<longrightarrow> h' a = h a) \<and>
     (wp dev' = wp dev \<or> Inq \<in> woken evs) \<and>
     (case res of
        Sleeping _ \<Rightarrow> ctx (p_lock dev') = c + 1 \<and> pipe_content dev' h' = pipe_content dev h
      | Returned r \<Rightarrow> ctx (p_lock dev') = c \<and>
          pipe_content dev' h' = pipe_content dev h @ (if 0 \<le> r then take (nat r) b else [])))"

lemma p_write_loop_post:
  assumes "ring_ok dev h" and "held (p_lock dev)" and "pipe_copy_ok k" and "unat count \<le> length b"
  shows "\<exists>x. p_write_loop k f b count dev h = Inr x \<and> write_post (ctx (p_lock dev) - 2) b dev h x"
proof (cases "length (pipe_content dev h) = pipe_cap dev")
  case True
  have *: "ring_ok (unlocked dev) h = ring_ok dev h" by (rule ring_ok_cong) simp_all
  have **: "pipe_content (unlocked dev) h = pipe_content dev h" by (rule pipe_content_cong) simp_all
  show ?thesis
    using p_write_loop_full [OF assms(1,2) True, of k f b count] assms(1)
    by (cases "f AND O_NONBLOCK = 0")
      (simp_all add: write_post_def same_files_def * ** release_ctx_def)
next
  case False
  then have sp: "length (pipe_content dev h) < pipe_cap dev" using length_pipe_content [OF assms(1)] by simp
  define d where "d = dev\<lparr>p_lock := release_ctx (p_lock dev)\<rparr>"
  have eq: "p_write_loop k f b count dev h = p_write_section k b count d h"
    unfolding d_def by (rule p_write_loop_space [OF assms(1,2) sp])
  define n where "n = min (unat count) (write_run d)"
  have d: "ring_ok d h" "held (p_lock d)" using assms(1,2) by (simp_all add: d_def)
  note sec = p_write_section_spec [OF d assms(3,4) n_def]
  have fr: "same_files dev (unlocked (d\<lparr>wp := a\<rparr>))" "same_files dev (unlocked d)" "async_q d = async_q dev"
      "p_buf d = p_buf dev" "rp d = rp dev" "wp d = wp dev" "ctx (p_lock d) = ctx (p_lock dev) - 1" for a
    by (simp_all add: d_def same_files_def release_ctx_def)
  have cg: "ring_ok (unlocked e) h' = ring_ok e h'" "pipe_content (unlocked e) h' = pipe_content e h'" for e h'
    by (rule ring_ok_cong pipe_content_cong; simp)+
  have pd: "pipe_content d h = pipe_content dev h" by (simp add: d_def)
  show ?thesis
  proof (cases "snd (kp_copy_from_user k b (of_nat n)) = 0")
    case True
    with sec(2) obtain a bb where "p_write_section k b count d h =
            Inr (Returned (int n), Wake Inq # (if async_q d then [SigIO] else []),
                 unlocked (d\<lparr>wp := a\<rparr>), h(p_buf d \<mapsto> bb))"
          "ring_ok (d\<lparr>wp := a\<rparr>) (h(p_buf d \<mapsto> bb))"
          "pipe_content (d\<lparr>wp := a\<rparr>) (h(p_buf d \<mapsto> bb)) = pipe_content d h @ take n b"
      by blast
    then show ?thesis unfolding eq by (simp add: write_post_def fr cg pd woken_Cons)
  next
    case False
    with sec(1) obtain bb where "p_write_section k b count d h =
            Inr (Returned (- EFAULT), [], unlocked d, h(p_buf d \<mapsto> bb))"
          "ring_ok d (h(p_buf d \<mapsto> bb))" "pipe_content d (h(p_buf d \<mapsto> bb)) = pipe_content d h"
      by blast
    then show ?thesis unfolding eq by (simp add: write_post_def fr cg pd)
  qed
qed

lemma write_post_lock: "write_post c b (dev\<lparr>p_lock := m\<rparr>) h x = write_post c b dev h x"
  by (cases x) (simp add: write_post_def same_files_def split: p_result.split)

lemma write_post_same:
  "ring_ok dev h \<Longrightarrow> \<not> held (p_lock dev') \<Longrightarrow> ctx (p_lock dev') = c \<Longrightarrow> dev' = dev\<lparr>p_lock := p_lock dev'\<rparr> \<Longrightarrow>
   r < 0 \<Longrightarrow> write_post c b dev h (Returned r, [], dev', h)"
  by (cases dev') (auto simp: write_post_def same_files_def ring_ok_def pipe_content_def)

lemma unat_p_count: "unat (p_count b) \<le> length b"
  unfolding p_count_def unat_rw_count by simp

lemma scull_p_write_post:
  assumes "ring_ok dev h" and "\<not> held (p_lock dev)" and "pipe_copy_ok k"
  shows "\<exists>x. scull_p_write k lk f b (p_count b) dev h = Inr x \<and> write_post (ctx (p_lock dev)) b dev h x"
proof (cases "lk = 0")
  case True
  let ?d = "dev\<lparr>p_lock := acquire_ctx (locked (p_lock dev))\<rparr>"
  have "ctx (p_lock ?d) - 2 = ctx (p_lock dev)" by (simp add: acquire_ctx_def)
  moreover have "ring_ok ?d h" "held (p_lock ?d)" using assms(1) by simp_all
  ultimately show ?thesis
    using p_write_loop_post [of ?d h k "p_count b" b f] assms(2,3) True unat_p_count
    by (simp add: scull_p_write_def lockdep_assert_held_def write_post_lock)
next
  case False
  then show ?thesis using assms(1,2) by (simp add: scull_p_write_def write_post_same)
qed

lemma scull_p_write_resume_post:
  assumes "ring_ok dev h" and "\<not> held (p_lock dev)" and "pipe_copy_ok k"
  shows "\<exists>x. scull_p_write_resume k sig lk f b (p_count b) dev h = Inr x \<and>
    write_post (ctx (p_lock dev) - 1) b dev h x"
proof (cases "sig \<or> lk \<noteq> 0")
  case True
  then show ?thesis
    using assms(1,2) by (auto simp: scull_p_write_resume_def Let_def write_post_same release_ctx_def)
next
  case False
  let ?d = "dev\<lparr>p_lock := locked (p_lock dev)\<rparr>"
  have "ctx (p_lock ?d) - 2 = ctx (p_lock dev) - 1" by (simp add: acquire_ctx_def)
  moreover have "ring_ok ?d h" "held (p_lock ?d)" using assms(1) by simp_all
  ultimately show ?thesis
    using p_write_loop_post [of ?d h k "p_count b" b f] assms(2,3) False unat_p_count
    by (simp add: scull_p_write_resume_def write_post_lock)
qed

section \<open>Outcomes of open and release\<close>

lemma p_alloc_reset:
  assumes "kmalloc_ok k" and "scull_p_len g \<noteq> 0" and "h 0 = None"
    and "p_buf dev \<noteq> 0 \<longrightarrow> ring_ok dev h \<and> buf_len dev = scull_p_len g"
    and "p_alloc_buf k g dev h = Some (d, h')"
  shows "ring_ok (p_reset_buf g d) h'" "pipe_content (p_reset_buf g d) h' = []" "h' 0 = None"
    "d = dev\<lparr>p_buf := p_buf d\<rparr>" "p_buf dev \<noteq> 0 \<Longrightarrow> p_buf d = p_buf dev" "p_buf d \<noteq> 0"
proof -
  have pos: "0 < scull_p_len g" using assms(2) by (simp add: word_neq_0_conv)
  have *: "p_buf d \<noteq> 0 \<and> map_option length (h' (p_buf d)) = Some (unat (scull_p_len g)) \<and>
      unat (p_buf d) + unat (scull_p_len g) < 2 ^ 64 \<and> unat (scull_p_len g) < 2 ^ 63 \<and> h' 0 = None \<and>
      d = dev\<lparr>p_buf := p_buf d\<rparr> \<and> (p_buf dev \<noteq> 0 \<longrightarrow> p_buf d = p_buf dev)"
  proof (cases "p_buf dev = 0")
    case True
    then obtain a b where kb: "k_kmalloc k h (scull_p_len g) = Some (a, b)"
      and d: "d = dev\<lparr>p_buf := a\<rparr>" "h' = h(a \<mapsto> b)"
      using assms(5) by (auto simp: p_alloc_buf_def split: option.splits)
    have "a \<noteq> 0 \<and> h a = None \<and> length b = unat (scull_p_len g) \<and> unat a + unat (scull_p_len g) < 2 ^ 64 \<and>
        unat (scull_p_len g) < 2 ^ 63"
      using assms(1,2) kb unfolding kmalloc_ok_def by blast
    with True assms(3) show ?thesis unfolding d by simp
  next
    case False
    then have "d = dev" "h' = h" using assms(5) by (simp_all add: p_alloc_buf_def)
    with False assms(3,4) show ?thesis by (auto simp: ring_ok_def)
  qed
  then show "h' 0 = None" "d = dev\<lparr>p_buf := p_buf d\<rparr>" "p_buf dev \<noteq> 0 \<Longrightarrow> p_buf d = p_buf dev" "p_buf d \<noteq> 0"
    by blast+
  show ok: "ring_ok (p_reset_buf g d) h'" using * pos by (simp add: ring_ok_def p_reset_buf_def)
  show "pipe_content (p_reset_buf g d) h' = []"
    unfolding pipe_content_empty [OF ok] by (simp add: p_reset_buf_def)
qed

definition opened :: "p_result \<Rightarrow> bool" where
  "opened res = (case res of Returned r \<Rightarrow> r = 0 | Sleeping _ \<Rightarrow> True)"

definition open_post ::
    "scull_globals \<Rightarrow> u32 \<Rightarrow> scull_pipe \<Rightarrow> slab_map \<Rightarrow> p_result \<times> p_event list \<times> scull_pipe \<times> slab_map \<Rightarrow> bool" where
  "open_post g m dev h = (\<lambda>(res, evs, dev', h').
     dev_inv g dev' h' \<and> idx dev' = idx dev \<and> p_lock dev' = p_lock dev \<and>
     (p_buf dev \<noteq> 0 \<longrightarrow> p_buf dev' \<noteq> 0) \<and> (rp dev = wp dev \<longrightarrow> rp dev' = wp dev') \<and>
     unat (readers dev) + of_bool (opened res \<and> m AND FMODE_READ \<noteq> 0) \<le> unat (readers dev') \<and>
     unat (writers dev) + of_bool (opened res \<and> m AND FMODE_WRITE \<noteq> 0) \<le> unat (writers dev') \<and>
     (res = Returned 0 \<longrightarrow> p_buf dev' \<noteq> 0) \<and>
     (\<forall>q. res = Sleeping q \<longrightarrow> idx dev = PROPER_FIFO_BEH_IDX \<and> m AND FMODE_READ \<noteq> 0) \<and>
     (idx dev = PROPER_FIFO_BEH_IDX \<longrightarrow> writers dev = 0 \<longrightarrow>
        writers dev' = 0 \<or> Openq \<in> woken evs \<or> readers dev = 0) \<and>
     pipe_content dev' h' = (if open_resets dev' m res then [] else pipe_content dev h))"

lemma unat_inc: "unat (x :: size_t) + 1 < 2 ^ 63 \<Longrightarrow> unat (x + 1) = unat x + 1"
  by (subst unat_add_lem [THEN iffD1]) simp_all

lemma unat_dec: "0 < unat (x :: size_t) \<Longrightarrow> unat (x - 1) = unat x - 1"
  by (rule unat_minus_one) (simp add: word_eq_0_unat)

lemma unlocked_other [simp]:
  "\<not> held (p_lock dev) \<Longrightarrow> unlocked (dev\<lparr>p_lock := locked (p_lock dev), readers := x\<rparr>) = dev\<lparr>readers := x\<rparr>"
  "\<not> held (p_lock dev) \<Longrightarrow> unlocked (dev\<lparr>readers := x, p_lock := locked (p_lock dev)\<rparr>) = dev\<lparr>readers := x\<rparr>"
  by (simp_all add: unlocked_def)

lemma dev_inv_cong:
  assumes "dev_inv g dev h" and "same_files dev dev'" and "p_end dev' = p_end dev" and "rp dev' = rp dev" and "wp dev' = wp dev"
    and "\<not> held (p_lock dev')"
  shows "dev_inv g dev' h"
  using assms ring_ok_cong [of dev' dev h] by (auto simp: dev_inv_def same_files_def)

lemma open_post_error:
  "dev_inv g dev h \<Longrightarrow> r \<noteq> 0 \<Longrightarrow> open_post g m dev h (Returned r, [], dev, h)"
  by (simp add: open_post_def opened_def open_resets_def)

text \<open>The allocation only looks at and only changes the buffer pointer.\<close>

lemma p_alloc_buf_frame:
  assumes "p_buf e = p_buf dev" and "p_alloc_buf k g dev h = Some (d, h')"
  shows "p_alloc_buf k g e h = Some (e\<lparr>p_buf := p_buf d\<rparr>, h')"
  using assms by (auto simp: p_alloc_buf_def split: option.splits if_splits)

lemma p_alloc_buf_None:
  assumes "p_buf e = p_buf dev" and "p_alloc_buf k g dev h = None"
  shows "p_alloc_buf k g e h = None"
  using assms by (auto simp: p_alloc_buf_def split: option.splits if_splits)

text \<open>A device that was reset by an open, with its counters and its lock.\<close>

lemma open_post_reset:
  assumes inv: "dev_inv g dev h" and k: "kmalloc_ok k" and g: "scull_p_len g \<noteq> 0"
    and al: "p_alloc_buf k g dev h = Some (d, h')"
    and dev': "dev' = (p_reset_buf g d)\<lparr>readers := x, writers := y\<rparr>"
    and res: "\<not> (idx dev = PROPER_FIFO_BEH_IDX \<and> m AND FMODE_READ \<noteq> 0)"
    and x: "unat (readers dev) + of_bool (m AND FMODE_READ \<noteq> 0) \<le> unat x" "unat x < 2 ^ 63"
    and y: "unat (writers dev) + of_bool (m AND FMODE_WRITE \<noteq> 0) \<le> unat y" "unat y < 2 ^ 63"
    and wk: "idx dev = PROPER_FIFO_BEH_IDX \<Longrightarrow> Openq \<in> woken evs \<or> readers dev = 0"
  shows "open_post g m dev h (Returned 0, evs, dev', h')"
proof -
  have b: "h 0 = None" "p_buf dev \<noteq> 0 \<longrightarrow> ring_ok dev h \<and> buf_len dev = scull_p_len g"
    "\<not> held (p_lock dev)" using inv by (simp_all add: dev_inv_def)
  note R = p_alloc_reset [OF k g b(1,2) al]
  have f: "p_buf dev' = p_buf d" "rp dev' = p_buf d" "wp dev' = p_buf d" "readers dev' = x" "writers dev' = y"
    "buf_len dev' = scull_p_len g" by (simp_all add: dev' p_reset_buf_def)
  have e: "idx dev' = idx dev" "p_lock dev' = p_lock dev"
    by (simp_all add: dev' p_reset_buf_def) (subst R(4), simp)+
  have "ring_ok dev' h' = ring_ok (p_reset_buf g d) h'" by (rule ring_ok_cong) (simp_all add: dev')
  then have ok: "ring_ok dev' h'" using R(1) by simp
  have ct: "pipe_content dev' h' = []" unfolding pipe_content_empty [OF ok] by (simp add: f)
  have "dev_inv g dev' h'" using R(3,6) ok b(3) x(2) y(2) by (simp add: dev_inv_def f e)
  with e res x(1) y(1) wk R(6) ct show ?thesis
    by (auto simp: open_post_def opened_def open_resets_def f)
qed

lemma scull_p_open_post:
  assumes inv: "dev_inv g dev h" and k: "pipe_kernel_ok k" and g: "scull_p_len g \<noteq> 0"
    and bound: "unat (readers dev) + 1 < 2 ^ 63" "unat (writers dev) + 1 < 2 ^ 63"
    and idx: "idx dev \<noteq> PROPER_FIFO_BEH_IDX"
  shows "\<exists>x. scull_p_open k g lk m f dev h = Inr x \<and> open_post g m dev h x"
proof (cases "lk = 0")
  case False
  then show ?thesis using inv idx by (simp add: scull_p_open_def open_post_error)
next
  case True
  have lk: "\<not> held (p_lock dev)" using inv by (simp add: dev_inv_def)
  let ?l = "dev\<lparr>p_lock := locked (p_lock dev)\<rparr>"
  have ko: "kmalloc_ok k" "k_nonseekable_open k = 0" using k by (simp_all add: pipe_kernel_ok_def)
  show ?thesis
  proof (cases "p_alloc_buf k g dev h")
    case None
    then have "p_alloc_buf k g ?l h = None" by (rule p_alloc_buf_None [rotated]) simp
    then show ?thesis
      using True idx lk inv by (simp add: scull_p_open_def Let_def open_post_error)
  next
    case (Some p)
    obtain d h' where p: "p_alloc_buf k g dev h = Some (d, h')" using Some by (cases p) simp
    have al: "p_alloc_buf k g ?l h = Some (?l\<lparr>p_buf := p_buf d\<rparr>, h')"
      by (rule p_alloc_buf_frame [OF _ p]) simp
    have d: "d = dev\<lparr>p_buf := p_buf d\<rparr>"
      using p_alloc_reset(4) [OF ko(1) g _ _ p] inv by (simp add: dev_inv_def)
    define x where "x = (if m AND FMODE_READ \<noteq> 0 then readers dev + 1 else readers dev)"
    define y where "y = (if m AND FMODE_WRITE \<noteq> 0 then writers dev + 1 else writers dev)"
    have u: "unat x = unat (readers dev) + of_bool (m AND FMODE_READ \<noteq> 0)"
        "unat y = unat (writers dev) + of_bool (m AND FMODE_WRITE \<noteq> 0)"
      using unat_inc [OF bound(1)] unat_inc [OF bound(2)] by (simp_all add: x_def y_def)
    have "scull_p_open k g lk m f dev h =
        Inr (Returned 0, [], (p_reset_buf g d)\<lparr>readers := x, writers := y\<rparr>, h')"
      using True idx lk ko(2)
      by (subst d) (simp add: scull_p_open_def al Let_def p_reset_buf_def unlocked_def x_def y_def)
    moreover have "open_post g m dev h (Returned 0, [], (p_reset_buf g d)\<lparr>readers := x, writers := y\<rparr>, h')"
      by (rule open_post_reset [OF inv ko(1) g p refl]) (use u bound idx in auto)
    ultimately show ?thesis by blast
  qed
qed

lemma open_post_reader:
  assumes inv: "dev_inv g dev h" and idx: "idx dev = PROPER_FIFO_BEH_IDX" and m: "m AND FMODE_READ \<noteq> 0"
    "m AND FMODE_WRITE = 0" and bound: "unat (readers dev) + 1 < 2 ^ 63"
    and res: "res = (if writers dev = 0 then Sleeping Openq else Returned 0)"
  shows "open_post g m dev h (res, [], dev\<lparr>readers := readers dev + 1\<rparr>, h)"
proof -
  let ?d = "dev\<lparr>readers := readers dev + 1\<rparr>"
  have "ring_ok ?d h = ring_ok dev h" by (rule ring_ok_cong) simp_all
  then have "dev_inv g ?d h" using inv unat_inc [OF bound] bound by (simp add: dev_inv_def)
  moreover have "pipe_content ?d h = pipe_content dev h" by (rule pipe_content_cong) simp_all
  ultimately show ?thesis
    using inv idx m unat_inc [OF bound] res
    by (auto simp: open_post_def open_resets_def opened_def dev_inv_def)
qed

lemma scull_p_proper_open_post:
  assumes inv: "dev_inv g dev h" and k: "pipe_kernel_ok k" and g: "scull_p_len g \<noteq> 0"
    and bound: "unat (readers dev) + 1 < 2 ^ 63" "unat (writers dev) + 1 < 2 ^ 63"
    and idx: "idx dev = PROPER_FIFO_BEH_IDX"
    and m: "m AND FMODE_READ = 0 \<or> m AND FMODE_WRITE = 0"
    and km: "p_buf dev = 0 \<longrightarrow> k_kmalloc k h (scull_p_len g) \<noteq> None"
  shows "\<exists>x. scull_p_open k g lk m f dev h = Inr x \<and> open_post g m dev h x"
proof (cases "lk = 0")
  case False
  then show ?thesis
    using inv idx by (simp add: scull_p_open_def scull_p_proper_open_def open_post_error)
next
  case True
  have lk: "\<not> held (p_lock dev)" using inv by (simp add: dev_inv_def)
  have ko: "kmalloc_ok k" "k_nonseekable_open k = 0" using k by (simp_all add: pipe_kernel_ok_def)
  show ?thesis
  proof (cases "m AND FMODE_READ = 0")
    case False
    show ?thesis
    proof (cases "f AND O_NONBLOCK \<noteq> 0 \<and> writers dev = 0")
      case ag: True
      then show ?thesis
        using True idx False lk inv
        by (simp add: scull_p_open_def scull_p_proper_open_def Let_def open_post_error)
    next
      case ag: False
      have "scull_p_open k g lk m f dev h =
          Inr (if writers dev = 0 then Sleeping Openq else Returned 0, [], dev\<lparr>readers := readers dev + 1\<rparr>, h)"
        using True idx False lk ag ko(2)
        by (simp add: scull_p_open_def scull_p_proper_open_def Let_def proper_open_wait_def)
      with open_post_reader [OF inv idx False _ bound(1) refl] m False show ?thesis by simp
    qed
  next
    case wr: True
    let ?l = "dev\<lparr>p_lock := locked (p_lock dev), writers := writers dev + 1\<rparr>"
    obtain d h' where p: "p_alloc_buf k g dev h = Some (d, h')"
      using km that by (cases "p_alloc_buf k g dev h") (auto simp: p_alloc_buf_def split: option.splits if_splits)
    have al: "p_alloc_buf k g ?l h = Some (?l\<lparr>p_buf := p_buf d\<rparr>, h')"
      by (rule p_alloc_buf_frame [OF _ p]) simp
    have d: "d = dev\<lparr>p_buf := p_buf d\<rparr>"
      using p_alloc_reset(4) [OF ko(1) g _ _ p] inv by (simp add: dev_inv_def)
    let ?e = "(p_reset_buf g d)\<lparr>readers := readers dev, writers := writers dev + 1\<rparr>"
    let ?evs = "if readers dev \<noteq> 0 then [Wake Openq] else []"
    have "scull_p_open k g lk m f dev h = Inr (Returned 0, ?evs, ?e, h')"
      using True idx wr lk ko(2)
      by (subst d) (simp add: scull_p_open_def scull_p_proper_open_def al Let_def p_reset_buf_def unlocked_def)
    moreover have "open_post g m dev h (Returned 0, ?evs, ?e, h')"
      by (rule open_post_reset [OF inv ko(1) g p refl])
        (use unat_inc [OF bound(2)] bound wr in \<open>auto simp: woken_Cons\<close>)
    ultimately show ?thesis by blast
  qed
qed

text \<open>A waiting opener that is resumed or interrupted changes nothing.\<close>

lemma proper_open_resume_post:
  assumes "\<not> held (p_lock dev)" and "k_nonseekable_open k = 0"
  shows "\<exists>res. proper_open_resume k w lk dev = Inr (res, dev) \<and> (res = Returned 0 \<longrightarrow> writers dev \<noteq> 0)"
  using assms
  by (cases "lk = 0") (auto simp: proper_open_resume_def proper_open_wait_def)

definition release_post ::
    "scull_globals \<Rightarrow> u32 \<Rightarrow> scull_pipe \<Rightarrow> slab_map \<Rightarrow> int \<times> scull_pipe \<times> slab_map \<Rightarrow> bool" where
  "release_post g m dev h = (\<lambda>(r, dev', h').
     dev_inv g dev' h' \<and> idx dev' = idx dev \<and> p_lock dev' = p_lock dev \<and>
     rp dev' = rp dev \<and> wp dev' = wp dev \<and>
     unat (readers dev) \<le> unat (readers dev') + of_bool (m AND FMODE_READ \<noteq> 0) \<and>
     unat (writers dev) \<le> unat (writers dev') + of_bool (m AND FMODE_WRITE \<noteq> 0) \<and>
     (writers dev = 0 \<longrightarrow> writers dev' = 0) \<and>
     (p_buf dev' = p_buf dev \<and> pipe_content dev' h' = pipe_content dev h \<or>
      p_buf dev' = 0 \<and> readers dev' = 0 \<and> writers dev' = 0))"

lemma scull_p_release_post:
  assumes inv: "dev_inv g dev h"
    and rd: "m AND FMODE_READ \<noteq> 0 \<Longrightarrow> 0 < unat (readers dev)"
    and wr: "m AND FMODE_WRITE \<noteq> 0 \<Longrightarrow> 0 < unat (writers dev)"
  shows "\<exists>x. scull_p_release k lk m dev h = Inr x \<and> release_post g m dev h x"
proof -
  define q where "q = snd (k_fasync_helper k (-1) 0 (async_q dev))"
  define e where "e = dev\<lparr>async_q := q\<rparr>"
  have lk: "\<not> held (p_lock dev)" and D: "unat (readers dev) < 2 ^ 63" "unat (writers dev) < 2 ^ 63"
    using inv by (simp_all add: dev_inv_def)
  have cg: "ring_ok e' h = ring_ok dev h" "pipe_content e' h = pipe_content dev h"
    if "e' = dev\<lparr>async_q := q, readers := x, writers := y\<rparr>" for e' x y
    by (rule ring_ok_cong pipe_content_cong; simp add: that)+
  define x where "x = (if m AND FMODE_READ \<noteq> 0 then readers dev - 1 else readers dev)"
  define y where "y = (if m AND FMODE_WRITE \<noteq> 0 then writers dev - 1 else writers dev)"
  have u: "unat (readers dev) = unat x + of_bool (m AND FMODE_READ \<noteq> 0)"
      "unat (writers dev) = unat y + of_bool (m AND FMODE_WRITE \<noteq> 0)"
    using unat_dec [OF rd] unat_dec [OF wr] rd wr by (simp_all add: x_def y_def)
  then have yz: "writers dev = 0 \<longrightarrow> y = 0" by (auto simp: word_eq_0_unat)
  show ?thesis
  proof (cases "lk = 0")
    case False
    then show ?thesis
      using inv cg [where e' = e and x = "readers dev" and y = "writers dev"]
      by (simp add: scull_p_release_def scull_p_fasync_def case_prod_unfold release_post_def
          dev_inv_def e_def flip: q_def)
  next
    case True
    have step: "scull_p_release k lk m dev h =
        (if x + y = 0 then bindS (p_kfree h (p_buf dev)) (\<lambda>h'. Inr (0, e\<lparr>readers := x, writers := y, p_buf := 0\<rparr>, h'))
         else Inr (0, e\<lparr>readers := x, writers := y\<rparr>, h))"
      using True lk
      by (simp add: scull_p_release_def scull_p_fasync_def case_prod_unfold Let_def x_def y_def e_def
          unlocked_def flip: q_def)
    show ?thesis
    proof (cases "x + y = 0")
      case True
      have "unat (x + y) = unat x + unat y" by (rule unat_add_lem [THEN iffD1]) (use u D in simp)
      with True have z: "x = 0" "y = 0" by (simp_all add: word_eq_0_unat)
      have "\<exists>h'. p_kfree h (p_buf dev) = Inr h' \<and> h' 0 = None"
        using inv by (auto simp: p_kfree_def dev_inv_def ring_ok_def)
      then obtain h' where h': "p_kfree h (p_buf dev) = Inr h'" "h' 0 = None" by blast
      have "release_post g m dev h (0, e\<lparr>readers := x, writers := y, p_buf := 0\<rparr>, h')"
        using u z h' lk by (simp add: release_post_def dev_inv_def e_def)
      then show ?thesis using True h' by (simp add: step)
    next
      case False
      have "release_post g m dev h (0, e\<lparr>readers := x, writers := y\<rparr>, h)"
        using u inv yz cg [where e' = "e\<lparr>readers := x, writers := y\<rparr>" and x = x and y = y]
        by (auto simp: release_post_def dev_inv_def e_def word_eq_0_unat)
      then show ?thesis using False by (simp add: step)
    qed
  qed
qed

section \<open>Every step keeps the invariant\<close>

lemma th_ok_frame:
  assumes "th_ok {} dev th" and "idx dev' = idx dev" and "p_buf dev \<noteq> 0 \<longrightarrow> p_buf dev' \<noteq> 0"
    and "rp dev = wp dev \<longrightarrow> rp dev' = wp dev' \<or> Inq \<in> pend"
    and "writers dev = 0 \<longrightarrow> writers dev' = 0 \<or> Openq \<in> pend \<or> \<not> (idx dev = PROPER_FIFO_BEH_IDX \<and> th_reads th)"
  shows "th_ok pend dev' th"
  using assms by (auto simp: th_ok_def split: p_thread.splits)

lemma p_inv_nth: "p_inv k g s \<Longrightarrow> t < length (sys_thr s) \<Longrightarrow> th_ok {} (sys_dev s) (sys_thr s ! t)"
  by (simp add: p_inv_def list_all_length)

lemma p_inv_buf:
  assumes "p_inv k g s" and "p_buf (sys_dev s) \<noteq> 0"
  shows "ring_ok (sys_dev s) (sys_heap s)" "\<not> held (p_lock (sys_dev s))" "pipe_copy_ok k"
    "buf_len (sys_dev s) = scull_p_len g"
  using assms by (simp_all add: p_inv_def dev_inv_def pipe_kernel_ok_def)

lemma dev_inv_same:
  assumes "dev_inv g dev h" and "p_buf dev \<noteq> 0" and "same_files dev dev'" and "ring_ok dev' h'"
    and "\<not> held (p_lock dev')" and "h' 0 = None"
  shows "dev_inv g dev' h'"
  using assms by (simp add: dev_inv_def same_files_def)

lemma p_inv_dev: "p_inv k g s \<Longrightarrow> dev_inv g (sys_dev s) (sys_heap s)" "p_inv k g s \<Longrightarrow> sys_heap s 0 = None"
  by (simp_all add: p_inv_def dev_inv_def)

text \<open>Reading and writing, entered or resumed.\<close>

lemma p_inv_read:
  assumes inv: "p_inv k g s" and t: "t < length (sys_thr s)" and b: "p_buf (sys_dev s) \<noteq> 0"
    and m: "m AND FMODE_READ \<noteq> 0" and old: "th_mode (sys_thr s ! t) = m" "\<not> is_writing (sys_thr s ! t)"
    and x: "read_post (sys_dev s) (sys_heap s) x"
  shows "p_inv k g (sys_read t m f c s x)"
proof -
  obtain res out evs dev' where xs: "x = (res, out, evs, dev')" by (cases x)
  note P = x [unfolded xs read_post_def, simplified]
  let ?dev = "sys_dev s" and ?h = "sys_heap s" and ?th = "after_read m f c res"
  have sf: "same_files ?dev dev'" using P by blast
  have th: "th_mode ?th = m" "\<not> is_writing ?th"
    by (simp_all add: after_read_def is_writing_def split: p_result.splits)
  have ok: "th_ok {} ?dev (sys_thr s ! t)" by (rule p_inv_nth [OF inv t])
  have nw: "idx ?dev = PROPER_FIFO_BEH_IDX \<longrightarrow> m AND FMODE_WRITE = 0"
    using ok old(1) m by (simp add: th_ok_def th_reads_def th_writes_def)
  show ?thesis
  proof (rule p_inv_step [OF inv t])
    show "sys_thr (sys_read t m f c s x) = deliver evs ((sys_thr s)[t := ?th])"
      by (simp add: xs sys_read_def)
    have "\<not> held (p_lock dev')" "ring_ok dev' ?h" using P p_inv_buf(2) [OF inv b] by simp_all
    then show "dev_inv g (sys_dev (sys_read t m f c s x)) (sys_heap (sys_read t m f c s x))"
      using dev_inv_same [OF p_inv_dev(1) [OF inv] b sf, of ?h] p_inv_dev(2) [OF inv]
      by (simp add: xs sys_read_def)
    show "th_ok (woken evs) (sys_dev (sys_read t m f c s x)) ?th"
      using sf b m nw
      by (simp add: xs sys_read_def th_ok_def after_read_def same_files_def th_reads_def th_writes_def
          split: p_result.splits)
    show "th_ok (woken evs) (sys_dev (sys_read t m f c s x)) (sys_thr s ! u)"
      if "th_ok {} ?dev (sys_thr s ! u)" for u
      by (rule th_ok_frame [OF that]) (use sf P in \<open>auto simp: xs sys_read_def same_files_def\<close>)
    show "sys_in (sys_read t m f c s x) = sys_out (sys_read t m f c s x) @
        pipe_content (sys_dev (sys_read t m f c s x)) (sys_heap (sys_read t m f c s x))"
      using P inv by (auto simp: xs sys_read_def p_inv_def split: p_result.splits)
  qed (use P old th sf in \<open>simp_all add: xs sys_read_def same_files_def th_reads_def th_writes_def\<close>)
qed

lemma p_inv_write:
  assumes inv: "p_inv k g s" and t: "t < length (sys_thr s)" and b: "p_buf (sys_dev s) \<noteq> 0"
    and m: "m AND FMODE_WRITE \<noteq> 0" and old: "th_mode (sys_thr s ! t) = m"
    and x: "write_post (ctx (p_lock (sys_dev s)) - of_bool (is_writing (sys_thr s ! t))) buf (sys_dev s) (sys_heap s) x"
  shows "p_inv k g (sys_written t m f buf s x)"
proof -
  obtain res evs dev' h' where xs: "x = (res, evs, dev', h')" by (cases x)
  note P = x [unfolded xs write_post_def, simplified]
  let ?dev = "sys_dev s" and ?h = "sys_heap s" and ?th = "after_write m f buf res"
  have sf: "same_files ?dev dev'" using P by blast
  have th: "th_mode ?th = m" "is_writing ?th = (case res of Sleeping _ \<Rightarrow> True | Returned _ \<Rightarrow> False)"
    by (simp_all add: after_write_def is_writing_def split: p_result.splits)
  have ok: "th_ok {} ?dev (sys_thr s ! t)" by (rule p_inv_nth [OF inv t])
  have nr: "idx ?dev = PROPER_FIFO_BEH_IDX \<longrightarrow> m AND FMODE_READ = 0"
    using ok old(1) m by (simp add: th_ok_def th_reads_def th_writes_def)
  show ?thesis
  proof (rule p_inv_step [OF inv t])
    show "sys_thr (sys_written t m f buf s x) = deliver evs ((sys_thr s)[t := ?th])"
      by (simp add: xs sys_written_def)
    have "h' 0 = None" using P b inv by (auto simp: p_inv_def dev_inv_def)
    then show "dev_inv g (sys_dev (sys_written t m f buf s x)) (sys_heap (sys_written t m f buf s x))"
      using dev_inv_same [OF p_inv_dev(1) [OF inv] b sf] P by (simp add: xs sys_written_def)
    show "th_ok (woken evs) (sys_dev (sys_written t m f buf s x)) ?th"
      using sf b m nr
      by (simp add: xs sys_written_def th_ok_def after_write_def same_files_def th_reads_def th_writes_def
          split: p_result.splits)
    show "th_ok (woken evs) (sys_dev (sys_written t m f buf s x)) (sys_thr s ! u)"
      if "th_ok {} ?dev (sys_thr s ! u)" for u
      by (rule th_ok_frame [OF that]) (use sf P in \<open>auto simp: xs sys_written_def same_files_def\<close>)
    show "sys_in (sys_written t m f buf s x) = sys_out (sys_written t m f buf s x) @
        pipe_content (sys_dev (sys_written t m f buf s x)) (sys_heap (sys_written t m f buf s x))"
      using P inv by (auto simp: xs sys_written_def p_inv_def split: p_result.splits)
    show "ctx (p_lock (sys_dev (sys_written t m f buf s x))) + of_bool (is_writing (sys_thr s ! t))
        = ctx (p_lock (sys_dev s)) + of_bool (is_writing ?th)"
      using P th by (auto simp: xs sys_written_def split: p_result.splits)
  qed (use P old th sf in \<open>simp_all add: xs sys_written_def same_files_def th_reads_def th_writes_def\<close>)
qed

lemma p_inv_counts:
  assumes "p_inv k g s" and "t < length (sys_thr s)"
  shows "th_reads (sys_thr s ! t) \<Longrightarrow> 0 < unat (readers (sys_dev s))"
    "th_writes (sys_thr s ! t) \<Longrightarrow> 0 < unat (writers (sys_dev s))"
  using assms count_ge [of t "sys_thr s" th_reads] count_ge [of t "sys_thr s" th_writes]
  by (auto simp: p_inv_def)

lemma p_inv_open:
  assumes inv: "p_inv k g s" and t: "t < length (sys_thr s)" and old: "sys_thr s ! t = NoFile"
    and m: "idx (sys_dev s) = PROPER_FIFO_BEH_IDX \<longrightarrow> m AND FMODE_READ = 0 \<or> m AND FMODE_WRITE = 0"
    and x: "open_post g m (sys_dev s) (sys_heap s) x"
  shows "p_inv k g (sys_opened t m f s x)"
proof -
  obtain res evs dev' h' where xs: "x = (res, evs, dev', h')" by (cases x)
  note P = x [unfolded xs open_post_def, simplified]
  let ?dev = "sys_dev s" and ?h = "sys_heap s" and ?th = "after_open m f res"
  have th: "th_reads ?th = (opened res \<and> m AND FMODE_READ \<noteq> 0)"
    "th_writes ?th = (opened res \<and> m AND FMODE_WRITE \<noteq> 0)" "\<not> is_writing ?th"
    by (simp_all add: after_open_def is_writing_def opened_def th_reads_def th_writes_def split: p_result.splits)
  have no: "\<not> th_reads NoFile" "\<not> th_writes NoFile" "\<not> is_writing NoFile"
    by (simp_all add: th_reads_def th_writes_def is_writing_def)
  show ?thesis
  proof (rule p_inv_step [OF inv t])
    show "sys_thr (sys_opened t m f s x) = deliver evs ((sys_thr s)[t := ?th])"
      by (simp add: xs sys_opened_def)
    show "dev_inv g (sys_dev (sys_opened t m f s x)) (sys_heap (sys_opened t m f s x))"
      using P by (simp add: xs sys_opened_def)
    show "th_ok (woken evs) (sys_dev (sys_opened t m f s x)) ?th"
      using P m
      by (auto simp: xs sys_opened_def th_ok_def after_open_def th_reads_def th_writes_def split: p_result.splits)
    show "th_ok (woken evs) (sys_dev (sys_opened t m f s x)) (sys_thr s ! u)"
      if "u < length (sys_thr s)" "th_ok {} ?dev (sys_thr s ! u)" for u
    proof (rule th_ok_frame [OF that(2)])
      have "th_reads (sys_thr s ! u) \<Longrightarrow> readers ?dev \<noteq> 0"
        using p_inv_counts(1) [OF inv that(1)] by (auto simp: word_eq_0_unat)
      then show "writers ?dev = 0 \<longrightarrow> writers (sys_dev (sys_opened t m f s x)) = 0 \<or> Openq \<in> woken evs \<or>
          \<not> (idx ?dev = PROPER_FIFO_BEH_IDX \<and> th_reads (sys_thr s ! u))"
        using P by (auto simp: xs sys_opened_def)
    qed (use P in \<open>auto simp: xs sys_opened_def\<close>)
    show "sys_in (sys_opened t m f s x) = sys_out (sys_opened t m f s x) @
        pipe_content (sys_dev (sys_opened t m f s x)) (sys_heap (sys_opened t m f s x))"
      using P inv by (auto simp: xs sys_opened_def p_inv_def)
  qed (use P th no old in \<open>simp_all add: xs sys_opened_def\<close>)
qed

lemma p_inv_open_resume:
  assumes inv: "p_inv k g s" and t: "t < length (sys_thr s)" and old: "sys_thr s ! t = Opening ph m f"
    and w: "res = Returned 0 \<longrightarrow> writers (sys_dev s) \<noteq> 0"
  shows "p_inv k g (sys_opened t m f s (res, [], sys_dev s, sys_heap s))"
proof -
  let ?dev = "sys_dev s" and ?th = "after_open m f res"
  have ok: "idx ?dev = PROPER_FIFO_BEH_IDX" "m AND FMODE_READ \<noteq> 0" "m AND FMODE_WRITE = 0"
    using p_inv_nth [OF inv t] old by (auto simp: th_ok_def th_reads_def th_writes_def)
  have nr: "\<not> open_resets ?dev m res" using ok by (simp add: open_resets_def)
  have buf: "res = Returned 0 \<longrightarrow> p_buf ?dev \<noteq> 0" using w inv ok(1) by (auto simp: p_inv_def dev_inv_def)
  show ?thesis
  proof (rule p_inv_step [OF inv t])
    show "sys_thr (sys_opened t m f s (res, [], sys_dev s, sys_heap s)) = deliver [] ((sys_thr s)[t := ?th])"
      by (simp add: sys_opened_def)
    show "th_ok (woken []) (sys_dev (sys_opened t m f s (res, [], sys_dev s, sys_heap s))) ?th"
      using ok buf
      by (auto simp: sys_opened_def th_ok_def after_open_def th_reads_def th_writes_def split: p_result.splits)
    show "sys_in (sys_opened t m f s (res, [], sys_dev s, sys_heap s)) =
        sys_out (sys_opened t m f s (res, [], sys_dev s, sys_heap s)) @
        pipe_content (sys_dev (sys_opened t m f s (res, [], sys_dev s, sys_heap s)))
          (sys_heap (sys_opened t m f s (res, [], sys_dev s, sys_heap s)))"
      using inv nr by (simp add: sys_opened_def p_inv_def)
  qed (use inv old ok p_inv_dev [OF inv] in \<open>auto simp: sys_opened_def after_open_def is_writing_def woken_Cons
        th_reads_def th_writes_def split: p_result.splits\<close>)
qed

lemma p_inv_release:
  assumes inv: "p_inv k g s" and t: "t < length (sys_thr s)" and old: "sys_thr s ! t = Idle m f"
    and x: "release_post g m (sys_dev s) (sys_heap s) x"
  shows "p_inv k g (sys_released t s x)"
proof -
  obtain r dev' h' where xs: "x = (r, dev', h')" by (cases x)
  note P = x [unfolded xs release_post_def, simplified]
  let ?dev = "sys_dev s"
  have no: "\<not> th_reads NoFile" "\<not> th_writes NoFile" "\<not> is_writing NoFile" "\<not> is_writing (Idle m f)"
    "th_reads (Idle m f) = (m AND FMODE_READ \<noteq> 0)" "th_writes (Idle m f) = (m AND FMODE_WRITE \<noteq> 0)"
    by (simp_all add: th_reads_def th_writes_def is_writing_def)
  have le: "count_th th_reads ((sys_thr s)[t := NoFile]) \<le> unat (readers dev')"
    "count_th th_writes ((sys_thr s)[t := NoFile]) \<le> unat (writers dev')"
    using count_update [OF t, of th_reads NoFile] count_update [OF t, of th_writes NoFile] P inv no old
    by (auto simp: p_inv_def)
  show ?thesis
  proof (rule p_inv_step [OF inv t])
    show "sys_thr (sys_released t s x) = deliver [] ((sys_thr s)[t := NoFile])"
      by (simp add: xs sys_released_def)
    show "dev_inv g (sys_dev (sys_released t s x)) (sys_heap (sys_released t s x))"
      using P by (simp add: xs sys_released_def)
    show "th_ok (woken []) (sys_dev (sys_released t s x)) NoFile" by (simp add: th_ok_def no)
    show "th_ok (woken []) (sys_dev (sys_released t s x)) (sys_thr s ! u)"
      if u: "u < length (sys_thr s)" "u \<noteq> t" "th_ok {} ?dev (sys_thr s ! u)" for u
    proof (cases "p_buf dev' = p_buf ?dev")
      case True
      then show ?thesis
        by (intro th_ok_frame [OF u(3)]) (use P in \<open>auto simp: xs sys_released_def\<close>)
    next
      case False
      then have "readers dev' = 0" "writers dev' = 0" using P by auto
      then have "\<not> th_reads (sys_thr s ! u)" "\<not> th_writes (sys_thr s ! u)"
        using le u(1,2) count_ge [of u "(sys_thr s)[t := NoFile]"] by fastforce+
      then show ?thesis using u(3) by (auto simp: th_ok_def split: p_thread.splits)
    qed
    show "sys_in (sys_released t s x) = sys_out (sys_released t s x) @
        pipe_content (sys_dev (sys_released t s x)) (sys_heap (sys_released t s x))"
      using P inv by (auto simp: xs sys_released_def p_inv_def dev_inv_def pipe_content_def)
  qed (use P no old in \<open>simp_all add: xs sys_released_def\<close>)
qed

lemma p_inv_check:
  assumes inv: "p_inv k g s" and t: "t < length (sys_thr s)"
    and go: "can_go (sys_dev s) (sys_thr s ! t) = Some (Inr b)"
  shows "p_inv k g (s\<lparr>sys_thr := (sys_thr s)[t := set_phase (if b then Ready else Asleep) (sys_thr s ! t)]\<rparr>)"
proof -
  let ?th = "set_phase (if b then Ready else Asleep) (sys_thr s ! t)"
  have ok: "th_ok {} (sys_dev s) (sys_thr s ! t)" by (rule p_inv_nth [OF inv t])
  have keep: "th_mode ?th = th_mode (sys_thr s ! t)" "is_writing ?th = is_writing (sys_thr s ! t)"
    by (simp_all add: set_phase_def is_writing_def split: p_thread.splits)
  have "th_ok {} (sys_dev s) ?th"
    using ok go by (auto simp: th_ok_def set_phase_def can_go_def th_reads_def th_writes_def word_gt_0
        split: p_thread.splits p_phase.splits)
  then show ?thesis
    by (intro p_inv_step [OF inv t, where evs = "[]"])
      (use inv keep p_inv_dev [OF inv] in \<open>simp_all add: woken_Cons th_reads_def th_writes_def p_inv_def\<close>)
qed

lemma can_go_no_fault:
  assumes inv: "p_inv k g s" and t: "t < length (sys_thr s)" and go: "can_go (sys_dev s) (sys_thr s ! t) = Some r"
  shows "\<exists>b. r = Inr b"
proof (cases "is_writing (sys_thr s ! t)")
  case True
  then have "p_buf (sys_dev s) \<noteq> 0"
    using p_inv_nth [OF inv t] by (auto simp: is_writing_def th_ok_def split: p_thread.splits)
  from spacefree_value [OF p_inv_buf(1) [OF inv this]] obtain e n where "spacefree (sys_dev s) = Inr (e, n)" by blast
  then show ?thesis
    using go True by (auto simp: can_go_def is_writing_def getwritespace_check_def
        split: p_thread.splits p_phase.splits)
qed (use go in \<open>auto simp: can_go_def is_writing_def split: p_thread.splits p_phase.splits\<close>)

lemma p_exec_open:
  assumes inv: "p_inv k g s" and ad: "p_admissible k g s (AOpen t m f lk)"
    and ex: "p_exec k g (AOpen t m f lk) s = Some r"
  shows "\<exists>s'. r = Inr s' \<and> p_inv k g s'"
proof -
  have t: "t < length (sys_thr s)" "sys_thr s ! t = NoFile"
    and r: "r = bindS (scull_p_open k g lk m f (sys_dev s) (sys_heap s)) (\<lambda>x. Inr (sys_opened t m f s x))"
    using ex by (simp_all add: p_exec_def Let_def split: if_splits)
  have k: "pipe_kernel_ok k" "scull_p_len g \<noteq> 0" using inv by (simp_all add: p_inv_def)
  have A: "unat (readers (sys_dev s)) + 1 < 2 ^ 63" "unat (writers (sys_dev s)) + 1 < 2 ^ 63"
    "idx (sys_dev s) = PROPER_FIFO_BEH_IDX \<Longrightarrow> m AND FMODE_READ = 0 \<or> m AND FMODE_WRITE = 0"
    "idx (sys_dev s) = PROPER_FIFO_BEH_IDX \<Longrightarrow>
       p_buf (sys_dev s) = 0 \<longrightarrow> k_kmalloc k (sys_heap s) (scull_p_len g) \<noteq> None"
    using ad by (simp_all add: p_admissible_def)
  obtain x where "scull_p_open k g lk m f (sys_dev s) (sys_heap s) = Inr x"
    "open_post g m (sys_dev s) (sys_heap s) x"
    using scull_p_open_post [OF p_inv_dev(1) [OF inv] k A(1,2)]
      scull_p_proper_open_post [OF p_inv_dev(1) [OF inv] k A(1,2) _ A(3,4)] by blast
  with p_inv_open [OF inv t] A(3) show ?thesis by (simp add: r)
qed

lemma bindS_safe:
  assumes "\<exists>x. r = Inr x \<and> Q x" and "\<And>x. Q x \<Longrightarrow> P (F x)"
  shows "\<exists>y. bindS r (\<lambda>x. Inr (F x)) = Inr y \<and> P y"
  using assms by auto

text \<open>A thread in a read or a write has its file open for it and the buffer is there.\<close>

lemma in_call:
  assumes "p_inv k g s" and "t < length (sys_thr s)"
  shows "sys_thr s ! t = Reading ph m f c \<Longrightarrow> p_buf (sys_dev s) \<noteq> 0 \<and> m AND FMODE_READ \<noteq> 0"
    "sys_thr s ! t = Writing ph m f b \<Longrightarrow> p_buf (sys_dev s) \<noteq> 0 \<and> m AND FMODE_WRITE \<noteq> 0"
    "sys_thr s ! t = Idle m f \<Longrightarrow> m AND FMODE_READ \<noteq> 0 \<or> m AND FMODE_WRITE \<noteq> 0 \<Longrightarrow> p_buf (sys_dev s) \<noteq> 0"
  using p_inv_nth [OF assms] by (auto simp: th_ok_def th_reads_def th_writes_def)

lemma p_exec_idle:
  assumes inv: "p_inv k g s" and t: "t < length (sys_thr s)" and th: "sys_thr s ! t = Idle m f"
  shows "\<exists>s'. bindS (scull_p_release k lk m (sys_dev s) (sys_heap s)) (\<lambda>x. Inr (sys_released t s x)) = Inr s' \<and> p_inv k g s'"
    "m AND FMODE_READ \<noteq> 0 \<Longrightarrow>
      \<exists>s'. bindS (scull_p_read k lk f c (sys_dev s) (sys_heap s)) (\<lambda>x. Inr (sys_read t m f c s x)) = Inr s' \<and> p_inv k g s'"
    "m AND FMODE_WRITE \<noteq> 0 \<Longrightarrow>
      \<exists>s'. bindS (scull_p_write k lk f b (p_count b) (sys_dev s) (sys_heap s)) (\<lambda>x. Inr (sys_written t m f b s x)) = Inr s' \<and> p_inv k g s'"
proof -
  have "m AND FMODE_READ \<noteq> 0 \<Longrightarrow> 0 < unat (readers (sys_dev s))" "m AND FMODE_WRITE \<noteq> 0 \<Longrightarrow> 0 < unat (writers (sys_dev s))"
    using p_inv_counts [OF inv t] th by (simp_all add: th_reads_def th_writes_def)
  from scull_p_release_post [OF p_inv_dev(1) [OF inv] this]
  show "\<exists>s'. bindS (scull_p_release k lk m (sys_dev s) (sys_heap s)) (\<lambda>x. Inr (sys_released t s x)) = Inr s' \<and> p_inv k g s'"
    by (rule bindS_safe) (assumption | rule p_inv_release [OF inv t th])+
next
  assume m: "m AND FMODE_READ \<noteq> 0"
  then have b: "p_buf (sys_dev s) \<noteq> 0" using in_call(3) [OF inv t th] by blast
  show "\<exists>s'. bindS (scull_p_read k lk f c (sys_dev s) (sys_heap s)) (\<lambda>x. Inr (sys_read t m f c s x)) = Inr s' \<and> p_inv k g s'"
    by (rule bindS_safe [OF scull_p_read_post [OF p_inv_buf(1-3) [OF inv b]]])
      (rule p_inv_read [OF inv t b m], simp_all add: th is_writing_def)
next
  assume m: "m AND FMODE_WRITE \<noteq> 0"
  then have b: "p_buf (sys_dev s) \<noteq> 0" using in_call(3) [OF inv t th] by blast
  show "\<exists>s'. bindS (scull_p_write k lk f b (p_count b) (sys_dev s) (sys_heap s)) (\<lambda>x. Inr (sys_written t m f b s x)) = Inr s' \<and> p_inv k g s'"
    by (rule bindS_safe [OF scull_p_write_post [OF p_inv_buf(1-3) [OF inv b]]])
      (rule p_inv_write [OF inv t b m], simp_all add: th is_writing_def)
qed

lemma p_exec_resume:
  assumes inv: "p_inv k g s" and t: "t < length (sys_thr s)"
  shows "sys_thr s ! t = Opening ph m f \<Longrightarrow>
      \<exists>s'. bindS (proper_open_resume k w lk (sys_dev s))
            (\<lambda>(res, dev). Inr (sys_opened t m f s (res, [], dev, sys_heap s))) = Inr s' \<and> p_inv k g s'"
    "sys_thr s ! t = Reading ph m f c \<Longrightarrow>
      \<exists>s'. bindS (scull_p_read_resume k w lk f c (sys_dev s) (sys_heap s)) (\<lambda>x. Inr (sys_read t m f c s x)) = Inr s' \<and> p_inv k g s'"
    "sys_thr s ! t = Writing ph m f b \<Longrightarrow>
      \<exists>s'. bindS (scull_p_write_resume k sig lk f b (p_count b) (sys_dev s) (sys_heap s)) (\<lambda>x. Inr (sys_written t m f b s x)) = Inr s' \<and> p_inv k g s'"
proof -
  assume th: "sys_thr s ! t = Opening ph m f"
  have "\<not> held (p_lock (sys_dev s))" "k_nonseekable_open k = 0"
    using inv by (simp_all add: p_inv_def dev_inv_def pipe_kernel_ok_def)
  from proper_open_resume_post [OF this, of w lk] p_inv_open_resume [OF inv t th]
  show "\<exists>s'. bindS (proper_open_resume k w lk (sys_dev s))
            (\<lambda>(res, dev). Inr (sys_opened t m f s (res, [], dev, sys_heap s))) = Inr s' \<and> p_inv k g s'"
    by auto
next
  assume th: "sys_thr s ! t = Reading ph m f c"
  then have b: "p_buf (sys_dev s) \<noteq> 0" and m: "m AND FMODE_READ \<noteq> 0" using in_call(1) [OF inv t] by blast+
  show "\<exists>s'. bindS (scull_p_read_resume k w lk f c (sys_dev s) (sys_heap s)) (\<lambda>x. Inr (sys_read t m f c s x)) = Inr s' \<and> p_inv k g s'"
    by (rule bindS_safe [OF scull_p_read_resume_post [OF p_inv_buf(1-3) [OF inv b]]])
      (rule p_inv_read [OF inv t b m], simp_all add: th is_writing_def)
next
  assume th: "sys_thr s ! t = Writing ph m f b"
  then have bf: "p_buf (sys_dev s) \<noteq> 0" and m: "m AND FMODE_WRITE \<noteq> 0" using in_call(2) [OF inv t] by blast+
  show "\<exists>s'. bindS (scull_p_write_resume k sig lk f b (p_count b) (sys_dev s) (sys_heap s)) (\<lambda>x. Inr (sys_written t m f b s x)) = Inr s' \<and> p_inv k g s'"
    by (rule bindS_safe [OF scull_p_write_resume_post [OF p_inv_buf(1-3) [OF inv bf]]])
      (rule p_inv_write [OF inv t bf m], simp_all add: th is_writing_def)
qed

lemma p_exec_safe:
  assumes inv: "p_inv k g s" and ad: "p_admissible k g s a" and ex: "p_exec k g a s = Some r"
  shows "\<exists>s'. r = Inr s' \<and> p_inv k g s'"
proof (cases a)
  case (AOpen t m f lk)
  then show ?thesis using p_exec_open inv ad ex by blast
next
  case (ARelease t lk)
  then show ?thesis
    using ex p_exec_idle(1) [OF inv]
    by (auto simp: p_exec_def Let_def split: if_splits p_thread.splits)
next
  case (ARead t c lk)
  then show ?thesis
    using ex p_exec_idle(2) [OF inv]
    by (auto simp: p_exec_def Let_def split: if_splits p_thread.splits)
next
  case (AWrite t buf lk)
  then show ?thesis
    using ex p_exec_idle(3) [OF inv]
    by (auto simp: p_exec_def Let_def split: if_splits p_thread.splits)
next
  case (ACheck t)
  then obtain r0 where t: "t < length (sys_thr s)" and go: "can_go (sys_dev s) (sys_thr s ! t) = Some r0"
    and r: "r = bindS r0 (\<lambda>go. Inr (s\<lparr>sys_thr := (sys_thr s)[t := set_phase (if go then Ready else Asleep) (sys_thr s ! t)]\<rparr>))"
    using ex by (auto simp: p_exec_def Let_def split: if_splits)
  with can_go_no_fault [OF inv t go] p_inv_check [OF inv t] show ?thesis by auto
next
  case (AGo t lk)
  then show ?thesis
    using ex p_exec_resume [OF inv]
    by (auto simp: p_exec_def Let_def split: if_splits p_thread.splits p_phase.splits)
next
  case (ASignal t)
  then show ?thesis
    using ex p_exec_resume [OF inv]
    by (auto simp: p_exec_def Let_def split: if_splits p_thread.splits p_phase.splits)
qed

lemma p_initial_inv: "p_initial k g s \<Longrightarrow> p_inv k g s"
  by (auto simp: p_initial_def p_inv_def dev_inv_def pipe_zero_def mutex_init_def count_th_def list_all_iff
      th_ok_def is_writing_def th_reads_def th_writes_def pipe_content_def)

interpretation pipe_threads: transition_system "p_initial k g" "p_step (p_admissible k g) k g" "p_inv k g" for k g
proof
  show "p_inv k g s" if "p_initial k g s" for s using that by (rule p_initial_inv)
  show "p_inv k g t" if "p_inv k g s" "p_step (p_admissible k g) k g s t" for s t
    using that p_exec_safe by (fastforce elim: p_stepE)
qed

lemma schedule_steps: "p_schedule ok k g as s = Some s' \<Longrightarrow> (p_step ok k g)\<^sup>*\<^sup>* s s'"
proof (induction as arbitrary: s)
  case (Cons a as)
  then obtain s1 where "ok s a" "p_exec k g a s = Some (Inr s1)" "p_schedule ok k g as s1 = Some s'"
    by (auto split: if_splits option.splits sum.splits)
  with Cons.IH show ?case by (blast intro: converse_rtranclp_into_rtranclp p_step_exec)
qed simp

lemma schedule_reachable:
  "p_schedule ok k g as s = Some s' \<Longrightarrow> reachable (p_initial k g) (p_step ok k g) s \<Longrightarrow>
     reachable (p_initial k g) (p_step ok k g) s'"
proof (induction as arbitrary: s)
  case (Cons a as)
  then obtain s1 where "ok s a" "p_exec k g a s = Some (Inr s1)" "p_schedule ok k g as s1 = Some s'"
    by (auto split: if_splits option.splits sum.splits)
  with Cons show ?case by (blast intro: reachable_step p_step_exec)
qed simp

section \<open>Properties\<close>

text \<open>
  No interleaving of opens, closes, reads, writes, sleeps, wake-ups and signals goes wrong under the
  condition on actions. In every reachable state the lock is free between the parts of the calls, and no part of any
  call runs into a fault: no access outside the buffer or to a freed one, no double free, no
  division by zero, no lock taken twice or given back without being held.
\<close>

theorem scull_p_interleavings_safe:
  assumes "reachable (p_initial k g) (p_step (p_admissible k g) k g) s" and "p_admissible k g s a"
  shows "\<not> held (p_lock (sys_dev s)) \<and> p_exec k g a s \<noteq> Some (Inl e)"
  using pipe_threads.reachable_inv [OF assms(1)] p_exec_safe [OF _ assms(2)]
  by (auto simp: p_inv_def dev_inv_def)

text \<open>
  The bytes arrive in order under every interleaving: since the last reset of the pipe, the
  bytes accepted from all writers are the bytes delivered to all readers followed by what is in
  the pipe.
\<close>

theorem scull_p_interleavings_fifo:
  assumes "reachable (p_initial k g) (p_step (p_admissible k g) k g) s"
  shows "sys_in s = sys_out s @ pipe_content (sys_dev s) (sys_heap s)"
  using pipe_threads.reachable_inv [OF assms] by (simp add: p_inv_def)

text \<open>
  C16: The counters do not undercount, as long as the proper pipe is never opened for both
  directions, the buffer of the proper pipe can be allocated, the counters stay below \<open>2 ^ 63\<close> and the
  buffer length is not changed. In every state that such steps reach, the numbers of readers and
  writers are at least the numbers of files open for reading and for writing, the buffer is there as
  long as such a file is open, and the context count of the static checker is the number of
  writers that sleep with it (calls that return have balanced it).
\<close>

theorem scull_p_counters:
  assumes "reachable (p_initial k g) (p_step (p_admissible k g) k g) s"
  shows "count_th th_reads (sys_thr s) \<le> unat (readers (sys_dev s)) \<and>
    count_th th_writes (sys_thr s) \<le> unat (writers (sys_dev s)) \<and>
    ctx (p_lock (sys_dev s)) = int (count_th is_writing (sys_thr s)) \<and>
    (\<forall>t < length (sys_thr s). \<forall>m f. sys_thr s ! t = Idle m f \<longrightarrow>
       (m AND FMODE_READ \<noteq> 0 \<or> m AND FMODE_WRITE \<noteq> 0) \<longrightarrow> ring_ok (sys_dev s) (sys_heap s))"
proof -
  have inv: "p_inv k g s" by (rule pipe_threads.reachable_inv [OF assms])
  then show ?thesis
    using in_call(3) [OF inv] p_inv_buf(1) [OF inv] by (auto simp: p_inv_def)
qed


section \<open>Runs that go wrong\<close>

definition demo_pg :: scull_globals where
  "demo_pg = scull_globals_init\<lparr>scull_p_len := 4\<rparr>"

definition demo_sys :: "size_t \<Rightarrow> p_sys" where
  "demo_sys i = \<lparr>sys_dev = pipe_zero i, sys_heap = Map.empty, sys_thr = [NoFile, NoFile], sys_in = [], sys_out = []\<rparr>"

lemma demo_sys_initial: "p_initial demo_pk demo_pg (demo_sys i)"
proof -
  have "[NoFile, NoFile] = replicate 2 NoFile" by (simp add: numeral_2_eq_2)
  then have "\<exists>j h n. h 0 = None \<and> demo_sys i =
      \<lparr>sys_dev = pipe_zero j, sys_heap = h, sys_thr = replicate n NoFile, sys_in = [], sys_out = []\<rparr>"
    unfolding demo_sys_def by (intro exI [of _ i] exI [of _ "Map.empty"] exI [of _ 2]) simp
  then show ?thesis using demo_pk_ok(3) by (simp add: p_initial_def demo_pg_def)
qed

lemma demo_reachable: "reachable (p_initial demo_pk demo_pg) (p_step ok demo_pk demo_pg) (demo_sys i)"
  by (rule reachable_init) (rule demo_sys_initial)

lemmas p_schedule_defs = p_exec_def p_admissible_def Let_def scull_p_open_def scull_p_proper_open_def
  proper_open_wait_def p_alloc_buf_def p_reset_buf_def scull_p_release_def scull_p_fasync_def p_kfree_def
  pipe_run_defs p_count_def sys_opened_def sys_read_def sys_written_def sys_released_def after_open_def
  after_read_def after_write_def open_resets_def set_phase_def can_go_def getwritespace_check_def

text \<open>The writer fills the pipe and sleeps, the reader opens the pipe, reads and sleeps.\<close>

definition deadlock_schedule :: "p_action list" where
  "deadlock_schedule = [AOpen 0 FMODE_WRITE 0 0, AWrite 0 [1, 2, 3] 0, AWrite 0 [4] 0, ACheck 0,
     AOpen 1 FMODE_READ 0 0, ARead 1 8 0, ACheck 1]"

definition deadlock_state :: p_sys where
  "deadlock_state = \<lparr>sys_dev = \<lparr>idx = 0, p_buf = 4096, p_end = 4100, buf_len = 4, rp = 4096, wp = 4096,
       readers = 1, writers = 1, async_q = False, p_lock = \<lparr>held = False, ctx = 1\<rparr>\<rparr>,
     sys_heap = [4096 \<mapsto> [1, 2, 3, 0]],
     sys_thr = [Writing Asleep FMODE_WRITE 0 [4], Reading Asleep FMODE_READ 0 8], sys_in = [], sys_out = []\<rparr>"

lemma deadlock_run: "p_schedule (p_admissible demo_pk demo_pg) demo_pk demo_pg deadlock_schedule (demo_sys 0) = Some deadlock_state"
  by (simp add: p_schedule_defs deadlock_schedule_def deadlock_state_def demo_sys_def demo_pg_def
      scull_globals_init_def demo_pk_def pipe_zero_def)

text \<open>
  The proper pipe: a writer opens, a reader opens, reads, sleeps, and the writer closes.
\<close>

definition eof_schedule :: "p_action list" where
  "eof_schedule = [AOpen 0 FMODE_WRITE 0 0, AOpen 1 FMODE_READ 0 0, ARead 1 8 0, ACheck 1, ARelease 0 0]"

definition eof_state :: p_sys where
  "eof_state = \<lparr>sys_dev = \<lparr>idx = 3, p_buf = 4096, p_end = 4100, buf_len = 4, rp = 4096, wp = 4096,
       readers = 1, writers = 0, async_q = False, p_lock = mutex_init\<rparr>,
     sys_heap = [4096 \<mapsto> [0, 0, 0, 0]], sys_thr = [NoFile, Reading Asleep FMODE_READ 0 8],
     sys_in = [], sys_out = []\<rparr>"

lemma eof_run: "p_schedule (p_admissible demo_pk demo_pg) demo_pk demo_pg eof_schedule (demo_sys 3) = Some eof_state"
  by (simp add: p_schedule_defs eof_schedule_def eof_state_def demo_sys_def demo_pg_def
      scull_globals_init_def demo_pk_def pipe_zero_def)

lemma spacefree_frame:
  "spacefree dev = Inr (ev, n) \<Longrightarrow> rp e = rp dev \<Longrightarrow> wp e = wp dev \<Longrightarrow> buf_len e = buf_len dev \<Longrightarrow>
     held (p_lock e) \<Longrightarrow> spacefree e = Inr ([], n)"
  by (auto simp: spacefree_def Let_def split: if_splits)

lemma nth_two: "t < Suc (Suc 0) \<Longrightarrow> [x, y] ! t = (if t = 0 then x else y)"
  by (cases t) simp_all

text \<open>
  C22: An open can put everybody to sleep for good. A writer that fills the pipe and sleeps, then
  a reader that opens the pipe and reads: the open empties the pipe without waking the writer,
  the read finds nothing, and in the state reached both sleep on an empty pipe, the writer with
  a byte to write; nothing but a signal can move either.
\<close>

theorem scull_p_open_deadlock:
  "reachable (p_initial demo_pk demo_pg) (p_step (p_admissible demo_pk demo_pg) demo_pk demo_pg) deadlock_state \<and>
   sys_thr deadlock_state = [Writing Asleep FMODE_WRITE 0 [4], Reading Asleep FMODE_READ 0 8] \<and>
   pipe_content (sys_dev deadlock_state) (sys_heap deadlock_state) = [] \<and>
   {a. p_exec demo_pk demo_pg a deadlock_state \<noteq> None} = {ASignal 0, ASignal 1}"
proof -
  have "reachable (p_initial demo_pk demo_pg) (p_step (p_admissible demo_pk demo_pg) demo_pk demo_pg) deadlock_state"
    by (rule schedule_reachable [OF deadlock_run demo_reachable])
  moreover have "p_exec demo_pk demo_pg a deadlock_state \<noteq> None \<longleftrightarrow> a \<in> {ASignal 0, ASignal 1}" for a
    by (cases a) (auto simp: p_exec_def Let_def deadlock_state_def can_go_def nth_two)
  ultimately show ?thesis
    by (auto simp: deadlock_state_def pipe_content_def ring_content_def sub_block_def)
qed

text \<open>
  C23: A reader misses the end of file on the proper pipe. When the last writer closes while a
  reader sleeps in a read, the reader is not woken, and would not leave its loop if it were: in
  the state reached only a signal moves it, although a read that starts now returns 0.
\<close>

theorem scull_p_eof_missed:
  "reachable (p_initial demo_pk demo_pg) (p_step (p_admissible demo_pk demo_pg) demo_pk demo_pg) eof_state \<and>
   sys_thr eof_state = [NoFile, Reading Asleep FMODE_READ 0 8] \<and>
   {a. p_exec demo_pk demo_pg a eof_state \<noteq> None} = insert (ASignal 1) (range (\<lambda>(m, f, lk). AOpen 0 m f lk)) \<and>
   scull_p_read demo_pk 0 0 8 (sys_dev eof_state) (sys_heap eof_state) =
     Inr (Returned 0, [], [], sys_dev eof_state)"
proof -
  have "reachable (p_initial demo_pk demo_pg) (p_step (p_admissible demo_pk demo_pg) demo_pk demo_pg) eof_state"
    by (rule schedule_reachable [OF eof_run demo_reachable])
  moreover have "p_exec demo_pk demo_pg a eof_state \<noteq> None \<longleftrightarrow>
      a \<in> insert (ASignal 1) (range (\<lambda>(m, f, lk). AOpen 0 m f lk))" for a
    by (cases a) (auto simp: p_exec_def Let_def eof_state_def can_go_def nth_two image_iff)
  ultimately show ?thesis
    by (auto simp: eof_state_def pipe_run_defs)
qed

text \<open>
  C24: Opening the proper pipe for both directions frees the buffer under a writer. Such an open
  counts as a reader only, its close as a reader and a writer; with one writer and no reader the
  pair leaves both counters at zero and the buffer freed, and the next write of the writer that
  is still there goes through a null buffer.
\<close>

theorem scull_p_rdwr_use_after_free:
  assumes "ring_ok dev h" and "h 0 = None" and "\<not> held (p_lock dev)" and "k_nonseekable_open k = 0"
    and "idx dev = PROPER_FIFO_BEH_IDX" and "readers dev = 0" and "writers dev = 1"
    and "length (pipe_content dev h) < pipe_cap dev"
  shows "\<exists>dev1 dev2 h2.
    scull_p_open k g 0 (FMODE_READ OR FMODE_WRITE) 0 dev h = Inr (Returned 0, [], dev1, h) \<and>
    scull_p_release k 0 (FMODE_READ OR FMODE_WRITE) dev1 h = Inr (0, dev2, h2) \<and>
    p_buf dev2 = 0 \<and> h2 (p_buf dev) = None \<and>
    scull_p_write k 0 f_flags buf count dev2 h2 = Inl NullDeref"
proof -
  define q where "q = snd (k_fasync_helper k (-1) 0 (async_q dev))"
  let ?dev1 = "dev\<lparr>readers := 1\<rparr>" and ?h2 = "h(p_buf dev := None)"
  let ?dev2 = "dev\<lparr>async_q := q, readers := 0, writers := 0, p_buf := 0\<rparr>"
  have b: "p_buf dev \<noteq> 0" "h (p_buf dev) \<noteq> None" using assms(1) by (auto simp: ring_ok_def)
  have op: "scull_p_open k g 0 (FMODE_READ OR FMODE_WRITE) 0 dev h = Inr (Returned 0, [], ?dev1, h)"
    using assms(3-7) by (simp add: scull_p_open_def scull_p_proper_open_def proper_open_wait_def Let_def)
  have rl: "scull_p_release k 0 (FMODE_READ OR FMODE_WRITE) ?dev1 h = Inr (0, ?dev2, ?h2)"
    using assms(3,7) b
    by (simp add: scull_p_release_def scull_p_fasync_def case_prod_unfold p_kfree_def unlocked_def Let_def
        flip: q_def)
  obtain ev n where n: "spacefree dev = Inr (ev, n)" "n \<noteq> 0"
    using spacefree_value [OF assms(1)] assms(8) by (auto simp: word_eq_0_unat)
  have sf: "spacefree (?dev2\<lparr>p_lock := l\<rparr>) = Inr ([], n)" if "held l" for l
    by (rule spacefree_frame [OF n(1)]) (use that in simp_all)
  have wr: "scull_p_write k 0 f_flags buf count ?dev2 ?h2 = Inl NullDeref"
    using assms(2,3) n(2) sf
    by (simp add: scull_p_write_def lockdep_assert_held_def p_write_loop_def getwritespace_loop_def
        p_write_section_def slab_store_def Let_def case_prod_unfold)
  show ?thesis using op rl wr by auto
qed

text \<open>
  A failed open for writing lets a reader into a freed buffer. On the proper pipe, when the
  last file was closed with bytes left in the pipe and the next open for writing cannot
  allocate the buffer, that open fails but has counted its writer: an open for reading then
  succeeds at once, and its read goes through the null buffer with the stale pointers.
\<close>

theorem scull_p_enomem_use_after_free:
  assumes "ring_ok dev h" and "h 0 = None" and "\<not> held (p_lock dev)" and "k_nonseekable_open k = 0"
    and "idx dev = PROPER_FIFO_BEH_IDX" and "readers dev = 0" and "writers dev = 1"
    and "pipe_content dev h \<noteq> []" and "k_kmalloc k (h(p_buf dev := None)) (scull_p_len g) = None"
  shows "\<exists>dev1 h1 dev2 dev3.
    scull_p_release k 0 FMODE_WRITE dev h = Inr (0, dev1, h1) \<and>
    scull_p_open k g 0 FMODE_WRITE 0 dev1 h1 = Inr (Returned (- ENOMEM), [], dev2, h1) \<and>
    scull_p_open k g 0 FMODE_READ 0 dev2 h1 = Inr (Returned 0, [], dev3, h1) \<and>
    scull_p_read k 0 0 count dev3 h1 = Inl NullDeref"
proof -
  define q where "q = snd (k_fasync_helper k (-1) 0 (async_q dev))"
  let ?h1 = "h(p_buf dev := None)"
  let ?dev1 = "dev\<lparr>async_q := q, writers := 0, p_buf := 0\<rparr>"
  have b: "p_buf dev \<noteq> 0" "h (p_buf dev) \<noteq> None" using assms(1) by (auto simp: ring_ok_def)
  have ne: "rp dev \<noteq> wp dev" using assms(8) pipe_content_empty [OF assms(1)] by simp
  have "scull_p_release k 0 FMODE_WRITE dev h = Inr (0, ?dev1, ?h1)"
    using assms(3,6,7) b
    by (simp add: scull_p_release_def scull_p_fasync_def case_prod_unfold p_kfree_def unlocked_def Let_def
        flip: q_def)
  moreover have "scull_p_open k g 0 FMODE_WRITE 0 ?dev1 ?h1 =
      Inr (Returned (- ENOMEM), [], ?dev1\<lparr>writers := 1\<rparr>, ?h1)"
    using assms(3,5,9)
    by (simp add: scull_p_open_def scull_p_proper_open_def p_alloc_buf_def unlocked_def Let_def)
  moreover have "scull_p_open k g 0 FMODE_READ 0 (?dev1\<lparr>writers := 1\<rparr>) ?h1 =
      Inr (Returned 0, [], ?dev1\<lparr>writers := 1, readers := 1\<rparr>, ?h1)"
    using assms(3-6)
    by (simp add: scull_p_open_def scull_p_proper_open_def proper_open_wait_def unlocked_def Let_def)
  moreover have "scull_p_read k 0 0 count (?dev1\<lparr>writers := 1, readers := 1\<rparr>) ?h1 = Inl NullDeref"
    using assms(2,3) ne by (simp add: scull_p_read_def p_read_section_def slab_load_def Let_def)
  ultimately show ?thesis by blast
qed

text \<open>
  Why the condition on actions is asked for. An open of the proper pipe for both directions leaves
  more files open for writing than it counts writers; an open for writing that cannot allocate the
  buffer counts its writer without waking the thread that sleeps in an open for reading.
\<close>

definition rdwr_schedule :: "p_action list" where
  "rdwr_schedule = [AOpen 0 FMODE_WRITE 0 0, AOpen 1 (FMODE_READ OR FMODE_WRITE) 0 0]"

lemma scull_p_rdwr_undercounts:
  "\<exists>s. reachable (p_initial demo_pk demo_pg) (p_step (\<lambda>_ _. True) demo_pk demo_pg) s \<and>
     unat (writers (sys_dev s)) < count_th th_writes (sys_thr s)"
proof -
  have "map_option (\<lambda>s. (writers (sys_dev s), sys_thr s)) (p_schedule (\<lambda>_ _. True) demo_pk demo_pg rdwr_schedule (demo_sys 3)) =
      Some (1, [Idle FMODE_WRITE 0, Idle (FMODE_READ OR FMODE_WRITE) 0])"
    by (simp add: p_schedule_defs rdwr_schedule_def demo_sys_def demo_pg_def scull_globals_init_def demo_pk_def pipe_zero_def)
  then obtain s where s: "p_schedule (\<lambda>_ _. True) demo_pk demo_pg rdwr_schedule (demo_sys 3) = Some s"
      "writers (sys_dev s) = 1" "sys_thr s = [Idle FMODE_WRITE 0, Idle (FMODE_READ OR FMODE_WRITE) 0]" by auto
  have "reachable (p_initial demo_pk demo_pg) (p_step (\<lambda>_ _. True) demo_pk demo_pg) s"
    by (rule schedule_reachable [OF s(1) demo_reachable])
  moreover have "unat (writers (sys_dev s)) < count_th th_writes (sys_thr s)"
    by (simp add: s(2,3) count_th_def th_writes_def)
  ultimately show ?thesis by blast
qed

definition unwoken_schedule :: "p_action list" where
  "unwoken_schedule = [AOpen 1 FMODE_READ 0 0, ACheck 1, AOpen 0 FMODE_WRITE 0 0]"

lemma scull_p_enomem_unwoken:
  "\<exists>s. reachable (p_initial demo_pk scull_globals_init) (p_step (\<lambda>_ _. True) demo_pk scull_globals_init) s \<and>
     sys_thr s ! 1 = Opening Asleep FMODE_READ 0 \<and> writers (sys_dev s) \<noteq> 0"
proof -
  have "map_option (\<lambda>s. (writers (sys_dev s), sys_thr s)) (p_schedule (\<lambda>_ _. True) demo_pk scull_globals_init unwoken_schedule (demo_sys 3)) =
      Some (1, [NoFile, Opening Asleep FMODE_READ 0])"
    by (simp add: p_schedule_defs unwoken_schedule_def demo_sys_def scull_globals_init_def demo_pk_def pipe_zero_def SCULL_P_LEN_def)
  then obtain s where s: "p_schedule (\<lambda>_ _. True) demo_pk scull_globals_init unwoken_schedule (demo_sys 3) = Some s"
      "writers (sys_dev s) = 1" "sys_thr s = [NoFile, Opening Asleep FMODE_READ 0]" by auto
  have "p_initial demo_pk scull_globals_init (demo_sys 3)"
    using demo_sys_initial [of 3] by (simp add: p_initial_def scull_globals_init_def SCULL_P_LEN_def)
  then have "reachable (p_initial demo_pk scull_globals_init) (p_step (\<lambda>_ _. True) demo_pk scull_globals_init) s"
    by (rule schedule_reachable [OF s(1) reachable_init])
  then show ?thesis using s(2,3) by auto
qed

section \<open>Witnesses\<close>

theorem scull_p_interleavings_safe_witness:
  "p_exec demo_pk demo_pg (ASignal 1) deadlock_state \<noteq> Some (Inl NullDeref)"
  using scull_p_interleavings_safe [OF schedule_reachable [OF deadlock_run demo_reachable], of "ASignal 1" NullDeref]
  by (simp add: p_admissible_def)

text \<open>Three bytes go in and one comes out.\<close>

definition fifo_schedule :: "p_action list" where
  "fifo_schedule = [AOpen 0 FMODE_WRITE 0 0, AOpen 1 FMODE_READ 0 0, AWrite 0 [1, 2, 3] 0, ARead 1 1 0]"

definition fifo_state :: p_sys where
  "fifo_state = \<lparr>sys_dev = \<lparr>idx = 0, p_buf = 4096, p_end = 4100, buf_len = 4, rp = 4097, wp = 4099,
       readers = 1, writers = 1, async_q = False, p_lock = mutex_init\<rparr>,
     sys_heap = [4096 \<mapsto> [1, 2, 3, 0]], sys_thr = [Idle FMODE_WRITE 0, Idle FMODE_READ 0],
     sys_in = [1, 2, 3], sys_out = [1]\<rparr>"

lemma fifo_run: "p_schedule (p_admissible demo_pk demo_pg) demo_pk demo_pg fifo_schedule (demo_sys 0) = Some fifo_state"
  by (simp add: p_schedule_defs fifo_schedule_def fifo_state_def demo_sys_def demo_pg_def
      scull_globals_init_def demo_pk_def pipe_zero_def)

lemma fifo_state_reachable: "reachable (p_initial demo_pk demo_pg) (p_step (p_admissible demo_pk demo_pg) demo_pk demo_pg) fifo_state"
  by (rule schedule_reachable [OF fifo_run demo_reachable])

theorem scull_p_interleavings_fifo_witness:
  "[1, 2, 3] = [1] @ pipe_content (sys_dev fifo_state) (sys_heap fifo_state)"
  using scull_p_interleavings_fifo [OF fifo_state_reachable] by (simp add: fifo_state_def)

theorem scull_p_counters_witness:
  "count_th th_reads (sys_thr fifo_state) \<le> 1 \<and> ring_ok (sys_dev fifo_state) (sys_heap fifo_state)"
proof -
  have "sys_thr fifo_state ! 0 = Idle FMODE_WRITE 0" "0 < length (sys_thr fifo_state)"
      "unat (readers (sys_dev fifo_state)) = 1"
    by (simp_all add: fifo_state_def)
  moreover have "FMODE_WRITE AND FMODE_WRITE \<noteq> (0 :: u32)" by simp
  ultimately show ?thesis using scull_p_counters [OF fifo_state_reachable] by metis
qed


text \<open>The pipe of the other witnesses as a proper one with one writer.\<close>

definition demo_proper :: scull_pipe where
  "demo_proper = demo_pipe\<lparr>idx := 3, readers := 0\<rparr>"

lemma demo_proper_ok: "ring_ok demo_proper demo_pheap" "pipe_content demo_proper demo_pheap = [1, 2]"
  "pipe_cap demo_proper = 3" "\<not> held (p_lock demo_proper)" "idx demo_proper = PROPER_FIFO_BEH_IDX"
  "readers demo_proper = 0" "writers demo_proper = 1" "demo_pheap 0 = None" "k_nonseekable_open demo_pk = 0"
  by (simp_all add: ring_ok_def demo_proper_def demo_pipe_def demo_pheap_def mutex_init_def pipe_content_def
      ring_content_def pipe_cap_def PROPER_FIFO_BEH_IDX_def demo_pk_def)

theorem scull_p_rdwr_use_after_free_witness:
  "\<exists>dev1 dev2 h2.
    scull_p_open demo_pk demo_pg 0 (FMODE_READ OR FMODE_WRITE) 0 demo_proper demo_pheap
      = Inr (Returned 0, [], dev1, demo_pheap) \<and>
    scull_p_release demo_pk 0 (FMODE_READ OR FMODE_WRITE) dev1 demo_pheap = Inr (0, dev2, h2) \<and>
    scull_p_write demo_pk 0 0 [7] 1 dev2 h2 = Inl NullDeref"
  using scull_p_rdwr_use_after_free [OF demo_proper_ok(1,8,4,9,5,6,7), of demo_pg 0 "[7]" 1] demo_proper_ok(2,3)
  by auto

theorem scull_p_enomem_use_after_free_witness:
  "\<exists>dev1 h1 dev2 dev3.
    scull_p_release demo_pk 0 FMODE_WRITE demo_proper demo_pheap = Inr (0, dev1, h1) \<and>
    scull_p_open demo_pk scull_globals_init 0 FMODE_WRITE 0 dev1 h1 = Inr (Returned (- ENOMEM), [], dev2, h1) \<and>
    scull_p_open demo_pk scull_globals_init 0 FMODE_READ 0 dev2 h1 = Inr (Returned 0, [], dev3, h1) \<and>
    scull_p_read demo_pk 0 0 8 dev3 h1 = Inl NullDeref"
proof (rule scull_p_enomem_use_after_free [OF demo_proper_ok(1,8,4,9,5,6,7)])
  show "k_kmalloc demo_pk (demo_pheap(p_buf demo_proper := None)) (scull_p_len scull_globals_init) = None"
    by (simp add: demo_pk_def scull_globals_init_def SCULL_P_LEN_def)
qed (simp add: demo_proper_ok)

end
