(* ===== verification/Edu_Device.thy ===== *)
theory Edu_Device
  imports Kernel_Format
begin

text \<open>
  The driver of the edu device: registers and identification (\<^verbatim>\<open>src/edu/hw.h\<close>), the
  state bits (\<^verbatim>\<open>src/edu/state.h\<close>), interrupt handlers and timeout
  (\<^verbatim>\<open>src/edu/irq.c\<close>), and the attribute files (\<^verbatim>\<open>src/edu/sysfs.c\<close>). The device
  itself is not part of the repository: what a register read returns and what a write does are
  parameters (\<open>edu_io\<close>), and their documented behaviour is \<open>edu_hw_ok\<close>.
\<close>

unbundle bit_operations_syntax

section \<open>Registers\<close>

definition QEDU_DEFAULT_DMA_MASK :: u32 where "QEDU_DEFAULT_DMA_MASK = 28"
definition QEDU_MMIO_ID_REG :: u32 where "QEDU_MMIO_ID_REG = 0x00"
definition QEDU_INVERSE_REG :: u32 where "QEDU_INVERSE_REG = 0x04"
definition QEDU_STATUS_REG :: u32 where "QEDU_STATUS_REG = 0x20"
definition QEDU_INTR_STATUS_REG :: u32 where "QEDU_INTR_STATUS_REG = 0x24"
definition QEDU_INTR_RAISE_REG :: u32 where "QEDU_INTR_RAISE_REG = 0x60"
definition QEDU_INTR_ACK_REG :: u32 where "QEDU_INTR_ACK_REG = 0x64"
definition QEDU_DMA_CMD_REG :: u32 where "QEDU_DMA_CMD_REG = 0x98"

definition QEDU_STATUS_REG_BUSY :: u32 where "QEDU_STATUS_REG_BUSY = 0x01"
definition QEDU_STATUS_REG_IRQ_REQ :: u32 where "QEDU_STATUS_REG_IRQ_REQ = 0x80"
definition QEDU_DMA_CMD_IN_TRANSFER :: u32 where "QEDU_DMA_CMD_IN_TRANSFER = 0x01"
definition QEDU_DMA_CMD_IRQ_REQ :: u32 where "QEDU_DMA_CMD_IRQ_REQ = 0x04"

definition QEDU_MAJOR_VERSION :: "u32 \<Rightarrow> u32" where "QEDU_MAJOR_VERSION val = drop_bit 24 val"
definition QEDU_MINOR_VERSION :: "u32 \<Rightarrow> u32" where "QEDU_MINOR_VERSION val = drop_bit 24 (push_bit 8 val)"
definition QEDU_IS_ID :: "u32 \<Rightarrow> bool" where "QEDU_IS_ID val \<longleftrightarrow> val AND 0xFFFFF = 0x000ED"

definition QEDU_STATE_IRQ_WAIT :: nat where "QEDU_STATE_IRQ_WAIT = 0"
definition QEDU_STATE_IRQ_OK :: nat where "QEDU_STATE_IRQ_OK = 1"
definition QEDU_STATE_IRQ_TIMEDOUT :: nat where "QEDU_STATE_IRQ_TIMEDOUT = 2"
definition QEDU_STATE_SHUTDOWN :: nat where "QEDU_STATE_SHUTDOWN = 3"

record 'hw edu_io =
  io_readl :: "'hw \<Rightarrow> u32 \<Rightarrow> u32"
  io_writel :: "u32 \<Rightarrow> u32 \<Rightarrow> 'hw \<Rightarrow> 'hw"

section \<open>The device structure\<close>

text \<open>
  \<open>e_hw\<close> is the device behind \<^verbatim>\<open>io_base\<close>; \<open>e_timer\<close> is the expiry time while the
  timer is pending; the sleepers of \<^verbatim>\<open>irq_q\<close> are the threads of \<^verbatim>\<open>Edu_Threads\<close>.
\<close>

record 'hw qedu_device =
  e_locked :: bool
  e_hw :: 'hw
  e_id :: u32
  e_irq :: u32
  e_timeout :: u32
  e_state :: ulong
  e_use_msi :: bool
  e_timer :: "ulong option"

definition e_lock :: "'hw qedu_device \<Rightarrow> fault + 'hw qedu_device" where
  "e_lock edu = (if e_locked edu then Inl LockHeld else Inr (edu\<lparr>e_locked := True\<rparr>))"

definition e_unlock :: "'hw qedu_device \<Rightarrow> fault + 'hw qedu_device" where
  "e_unlock edu = (if e_locked edu then Inr (edu\<lparr>e_locked := False\<rparr>) else Inl LockNotHeld)"

definition e_assert_held :: "'hw qedu_device \<Rightarrow> fault + unit" where
  "e_assert_held edu = (if e_locked edu then Inr () else Inl LockNotHeld)"

text \<open>Adding a timer that is already pending is a \<^verbatim>\<open>BUG_ON\<close> of the timer code.\<close>

definition e_add_timer :: "ulong \<Rightarrow> 'hw qedu_device \<Rightarrow> fault + 'hw qedu_device" where
  "e_add_timer expires edu =
     (if e_timer edu \<noteq> None then Inl BugOn else Inr (edu\<lparr>e_timer := Some expires\<rparr>))"

section \<open>State bits\<close>

definition irq_done_nolock :: "'hw qedu_device \<Rightarrow> bool" where
  "irq_done_nolock edu \<longleftrightarrow> bit (e_state edu) QEDU_STATE_IRQ_OK \<or>
     bit (e_state edu) QEDU_STATE_IRQ_TIMEDOUT \<or> bit (e_state edu) QEDU_STATE_SHUTDOWN"

definition qedu_is_irq_done :: "'hw qedu_device \<Rightarrow> fault + bool" where
  "qedu_is_irq_done edu = bindS (e_assert_held edu) (\<lambda>_. Inr (irq_done_nolock edu))"

definition qedu_is_shutting_down :: "'hw qedu_device \<Rightarrow> fault + bool" where
  "qedu_is_shutting_down edu =
     bindS (e_assert_held edu) (\<lambda>_. Inr (bit (e_state edu) QEDU_STATE_SHUTDOWN))"

definition qedu_is_waiting_irq :: "'hw qedu_device \<Rightarrow> bool" where
  "qedu_is_waiting_irq edu = bit (e_state edu) QEDU_STATE_IRQ_WAIT"

text \<open>The current time is an argument; the timeout of 32 bits is widened to the jiffies.\<close>

definition qedu_set_waiting_irq :: "ulong \<Rightarrow> 'hw qedu_device \<Rightarrow> fault + 'hw qedu_device" where
  "qedu_set_waiting_irq jiffies edu =
     e_add_timer (jiffies + ucast (e_timeout edu))
       (edu\<lparr>e_state := set_bit QEDU_STATE_IRQ_WAIT (e_state edu)\<rparr>)"

definition qedu_clear_waiting_irq :: "'hw qedu_device \<Rightarrow> 'hw qedu_device" where
  "qedu_clear_waiting_irq edu =
     edu\<lparr>e_state := unset_bit QEDU_STATE_IRQ_TIMEDOUT (unset_bit QEDU_STATE_IRQ_OK
                      (unset_bit QEDU_STATE_IRQ_WAIT (e_state edu)))\<rparr>"

section \<open>Interrupts and timeout\<close>

definition irq_raised :: "u32 \<Rightarrow> bool" where
  "irq_raised intr_status \<longleftrightarrow> intr_status AND 7 \<noteq> 0"

datatype irqreturn = IRQ_NONE | IRQ_HANDLED | IRQ_WAKE_THREAD

text \<open>\<^verbatim>\<open>__qedu_handle_irq\<close>; it always wakes the sleepers.\<close>

definition handle_irq_locked :: "'hw edu_io \<Rightarrow> u32 \<Rightarrow> 'hw qedu_device \<Rightarrow> 'hw qedu_device" where
  "handle_irq_locked io intr_status edu =
     edu\<lparr>e_timer := None, e_state := set_bit QEDU_STATE_IRQ_OK (e_state edu),
         e_hw := io_writel io intr_status QEDU_INTR_ACK_REG (e_hw edu)\<rparr>"

text \<open>\<open>lk\<close> is the result of \<^verbatim>\<open>spin_trylock_irqsave\<close>; the last component is the wake-up.\<close>

definition qedu_handle_irq ::
    "'hw edu_io \<Rightarrow> bool \<Rightarrow> 'hw qedu_device \<Rightarrow> fault + (irqreturn \<times> 'hw qedu_device \<times> bool)" where
  "qedu_handle_irq io lk edu =
     (let intr_status = io_readl io (e_hw edu) QEDU_INTR_STATUS_REG in
      if \<not> irq_raised intr_status then Inr (IRQ_NONE, edu, False)
      else if lk
      then bindS (e_lock edu) (\<lambda>edu.
           bindS (e_unlock (handle_irq_locked io intr_status edu)) (\<lambda>edu. Inr (IRQ_HANDLED, edu, True)))
      else Inr (IRQ_WAKE_THREAD, edu, False))"

definition qedu_thr_handle_irq ::
    "'hw edu_io \<Rightarrow> 'hw qedu_device \<Rightarrow> fault + (irqreturn \<times> 'hw qedu_device \<times> bool)" where
  "qedu_thr_handle_irq io edu =
     (let intr_status = io_readl io (e_hw edu) QEDU_INTR_STATUS_REG in
      bindS (e_lock edu) (\<lambda>edu.
      bindS (e_unlock (handle_irq_locked io intr_status edu)) (\<lambda>edu. Inr (IRQ_HANDLED, edu, True))))"

definition irq_set :: "u32 \<Rightarrow> u32 \<Rightarrow> bool" where
  "irq_set status dma_status \<longleftrightarrow> status AND QEDU_STATUS_REG_IRQ_REQ \<noteq> 0 \<or> dma_status AND QEDU_DMA_CMD_IRQ_REQ \<noteq> 0"

definition busy_irq :: "u32 \<Rightarrow> u32 \<Rightarrow> bool" where
  "busy_irq status dma_status \<longleftrightarrow> status AND QEDU_STATUS_REG_BUSY \<noteq> 0 \<or> dma_status AND QEDU_DMA_CMD_IN_TRANSFER \<noteq> 0"

text \<open>The timer function; the timer is no longer pending when it runs.\<close>

definition qedu_timeout ::
    "'hw edu_io \<Rightarrow> ulong \<Rightarrow> 'hw qedu_device \<Rightarrow> fault + ('hw qedu_device \<times> bool)" where
  "qedu_timeout io jiffies edu =
     bindS (e_lock edu) (\<lambda>edu.
       let intr_status = io_readl io (e_hw edu) QEDU_INTR_STATUS_REG;
           status = io_readl io (e_hw edu) QEDU_STATUS_REG;
           dma_status = io_readl io (e_hw edu) QEDU_DMA_CMD_REG;
           timedout = edu\<lparr>e_state := set_bit QEDU_STATE_IRQ_TIMEDOUT (e_state edu)\<rparr>;
           (edu, wake) =
             (if irq_raised intr_status then (edu, False)
              else if \<not> irq_set status dma_status then (timedout, True)
              else if busy_irq status dma_status
              then (edu\<lparr>e_timer := Some (jiffies + ucast (e_timeout edu))\<rparr>, False)
              else (timedout, True))
       in bindS (e_unlock edu) (\<lambda>edu. Inr (edu, wake)))"

section \<open>Attribute files\<close>

text \<open>Hexadecimal text as \<^verbatim>\<open>sscanf\<close> reads it.\<close>

definition hex_value :: "char \<Rightarrow> nat option" where
  "hex_value c =
     (let n = of_char c :: nat in
      if 48 \<le> n \<and> n \<le> 57 then Some (n - 48)
      else if 97 \<le> n \<and> n \<le> 102 then Some (n - 87)
      else if 65 \<le> n \<and> n \<le> 70 then Some (n - 55)
      else None)"

text \<open>
  \<^verbatim>\<open>%llx\<close>: white space is skipped, a hexadecimal digit must follow, a prefix
  \<^verbatim>\<open>0x\<close> is skipped, and the digits are collected in an unsigned long long that wraps.
\<close>

definition is_space :: "char \<Rightarrow> bool" where
  "is_space c \<longleftrightarrow> (let n = of_char c :: nat in 9 \<le> n \<and> n \<le> 13 \<or> n = 32 \<or> n = 160)"

fun skip_0x :: "string \<Rightarrow> string" where
  "skip_0x (c # d # cs) = (if c = CHR ''0'' \<and> (d = CHR ''x'' \<or> d = CHR ''X'') then cs else c # d # cs)"
| "skip_0x s = s"

fun scan_digits :: "string \<Rightarrow> u64 \<Rightarrow> u64" where
  "scan_digits [] acc = acc"
| "scan_digits (c # cs) acc =
     (case hex_value c of None \<Rightarrow> acc | Some d \<Rightarrow> scan_digits cs (16 * acc + of_nat d))"

definition sscanf_llx :: "string \<Rightarrow> u64 option" where
  "sscanf_llx s =
     (case dropWhile is_space s of
        [] \<Rightarrow> None
      | c # cs \<Rightarrow> if hex_value c = None then None else Some (scan_digits (skip_0x (c # cs)) 0))"

definition version_show :: "'hw qedu_device \<Rightarrow> int \<times> string" where
  "version_show edu =
     (let page = ''major '' @ print_base 10 (unat (QEDU_MAJOR_VERSION (e_id edu))) @ '' minor '' @
                 print_base 10 (unat (QEDU_MINOR_VERSION (e_id edu))) @ [newline]
      in (int (length page), page))"

definition inverse_show ::
    "'hw edu_io \<Rightarrow> 'hw qedu_device \<Rightarrow> fault + (int \<times> string \<times> 'hw qedu_device)" where
  "inverse_show io edu =
     bindS (e_lock edu) (\<lambda>edu.
       let val = io_readl io (e_hw edu) QEDU_INVERSE_REG in
       bindS (e_unlock edu) (\<lambda>edu.
         let page = print_base 16 (unat val) @ [newline]
         in Inr (int (length page), page, edu)))"

text \<open>\<open>garbage\<close> is what the uninitialised variable holds; it stays when nothing is scanned.\<close>

definition inverse_store ::
    "'hw edu_io \<Rightarrow> u64 \<Rightarrow> string \<Rightarrow> size_t \<Rightarrow> 'hw qedu_device \<Rightarrow> fault + (int \<times> 'hw qedu_device)" where
  "inverse_store io garbage page count edu =
     (let val = (case sscanf_llx page of None \<Rightarrow> garbage | Some v \<Rightarrow> v) in
      if val > 0xFFFFFFFF then Inr (- EINVAL, edu)
      else bindS (e_lock edu) (\<lambda>edu.
           bindS (e_unlock (edu\<lparr>e_hw := io_writel io (ucast val) QEDU_INVERSE_REG (e_hw edu)\<rparr>)) (\<lambda>edu.
             Inr (sint count, edu))))"

text \<open>
  \<^verbatim>\<open>test_irq_show\<close> sleeps: the entry part runs to the first sleep or the return, the resume
  part from the wake-up on. \<open>ESleeping\<close> is a sleep on \<^verbatim>\<open>irq_q\<close> with the lock given up.
\<close>

datatype e_result = EReturned int string | ESleeping

definition test_irq_loop :: "'hw qedu_device \<Rightarrow> fault + (e_result \<times> 'hw qedu_device)" where
  "test_irq_loop edu =
     bindS (qedu_is_irq_done edu) (\<lambda>irq_done.
       if irq_done then
         let page = (if bit (e_state edu) QEDU_STATE_IRQ_OK then ''IRQ OK'' @ [newline]
                     else ''IRQ FAIL '' @ print_base 16 (unat (e_state edu)) @ [newline])
         in bindS (e_unlock (qedu_clear_waiting_irq edu)) (\<lambda>edu.
              Inr (EReturned (int (length page)) page, edu))
       else bindS (e_unlock edu) (\<lambda>edu. Inr (ESleeping, edu)))"

definition test_irq_show ::
    "'hw edu_io \<Rightarrow> ulong \<Rightarrow> 'hw qedu_device \<Rightarrow> fault + (e_result \<times> 'hw qedu_device)" where
  "test_irq_show io jiffies edu =
     bindS (e_lock edu) (\<lambda>edu.
     bindS (qedu_is_shutting_down edu) (\<lambda>shutting_down.
       if shutting_down
       then bindS (e_unlock edu) (\<lambda>edu. Inr (EReturned (- ECANCELED) [], edu))
       else if qedu_is_waiting_irq edu
       then bindS (e_unlock edu) (\<lambda>edu. Inr (EReturned (- EBUSY) [], edu))
       else bindS (qedu_set_waiting_irq jiffies
                     (edu\<lparr>e_hw := io_writel io 2 QEDU_INTR_RAISE_REG (e_hw edu)\<rparr>)) test_irq_loop))"

definition test_irq_resume :: "bool \<Rightarrow> 'hw qedu_device \<Rightarrow> fault + (e_result \<times> 'hw qedu_device)" where
  "test_irq_resume signal_pending edu =
     (if signal_pending then Inr (EReturned (- ERESTARTSYS) [], edu)
      else bindS (e_lock edu) test_irq_loop)"

section \<open>Documented behaviour of the device\<close>

text \<open>
  Writing the raise register sets bits of the interrupt status, writing the acknowledge register
  clears them, the inverse register reads back the complement of what was written, and these
  writes have no other visible effect on the registers the driver reads.
\<close>

definition edu_hw_ok :: "'hw edu_io \<Rightarrow> bool" where
  "edu_hw_ok io \<longleftrightarrow>
     (\<forall>v hw r. io_readl io (io_writel io v QEDU_INTR_RAISE_REG hw) r =
        (if r = QEDU_INTR_STATUS_REG then io_readl io hw r OR v else io_readl io hw r)) \<and>
     (\<forall>v hw r. io_readl io (io_writel io v QEDU_INTR_ACK_REG hw) r =
        (if r = QEDU_INTR_STATUS_REG then io_readl io hw r AND NOT v else io_readl io hw r)) \<and>
     (\<forall>v hw r. io_readl io (io_writel io v QEDU_INVERSE_REG hw) r =
        (if r = QEDU_INVERSE_REG then NOT v else io_readl io hw r))"

end
