(* ===== verification/Edu_Props.thy ===== *)
theory Edu_Props
  imports Edu_Device
begin

text \<open>
  Single-call properties of the edu driver: the identification macros, and that what is written
  to the inverse attribute comes back complemented.
\<close>

section \<open>Text of numbers\<close>

lemma hex_value_digit_char: "d < 16 \<Longrightarrow> hex_value (digit_char d) = Some d"
proof -
  assume "d < 16"
  then have "of_char (digit_char d) = (if d < 10 then 48 + d else 87 + d)"
    by (simp add: digit_char_def)
  with \<open>d < 16\<close> show ?thesis by (auto simp: hex_value_def Let_def)
qed

lemma print_base_digits: "set (print_base 16 n) \<subseteq> digit_char ` {..<16}"
proof (induction n rule: less_induct)
  case (less n)
  show ?case
  proof (cases "n < 16")
    case True
    then show ?thesis by (simp add: print_base.simps [of 16 n])
  next
    case False
    then have "set (print_base 16 (n div 16)) \<subseteq> digit_char ` {..<16}" by (intro less) simp
    with False show ?thesis by (simp add: print_base.simps [of 16 n])
  qed
qed

lemma print_base_nonempty: "print_base b n \<noteq> []"
  by (subst print_base.simps) simp

definition digits_value :: "u64 \<Rightarrow> string \<Rightarrow> u64" where
  "digits_value acc s = foldl (\<lambda>a c. 16 * a + of_nat (the (hex_value c))) acc s"

lemma scan_digits_value:
  "set s \<subseteq> digit_char ` {..<16} \<Longrightarrow> hex_value c = None \<Longrightarrow>
     scan_digits (s @ c # cs) acc = digits_value acc s"
  by (induction s arbitrary: acc) (auto simp: digits_value_def hex_value_digit_char)

lemma digits_value_print: "digits_value 0 (print_base 16 n) = of_nat n"
proof (induction n rule: less_induct)
  case (less n)
  show ?case
  proof (cases "n < 16")
    case True
    then show ?thesis by (simp add: print_base.simps [of 16 n] digits_value_def hex_value_digit_char)
  next
    case False
    then have "digits_value 0 (print_base 16 (n div 16)) = of_nat (n div 16)" by (intro less) simp
    moreover have "(of_nat n :: u64) = 16 * of_nat (n div 16) + of_nat (n mod 16)"
      by (metis mult_div_mod_eq of_nat_add of_nat_mult of_nat_numeral)
    ultimately show ?thesis
      using False by (simp add: print_base.simps [of 16 n] digits_value_def hex_value_digit_char)
  qed
qed

lemma digit_not_special:
  assumes "c \<in> digit_char ` {..<16}"
  shows "\<not> is_space c" "c \<noteq> CHR ''x''" "c \<noteq> CHR ''X''" "hex_value c \<noteq> None"
proof -
  obtain d where d: "c = digit_char d" "d < 16" using assms by auto
  then show "hex_value c \<noteq> None" by (simp add: hex_value_digit_char)
  have n: "of_char c = (if d < 10 then 48 + d else 87 + d)" using d by (simp add: digit_char_def)
  then show "\<not> is_space c" using d(2) by (auto simp: is_space_def Let_def)
  have "of_char c \<noteq> (120 :: nat)" "of_char c \<noteq> (88 :: nat)" using n d(2) by auto
  then show "c \<noteq> CHR ''x''" "c \<noteq> CHR ''X''" by auto
qed

lemma skip_0x_digits:
  assumes "s \<noteq> []" and "set s \<subseteq> digit_char ` {..<16}" and "c \<noteq> CHR ''x''" and "c \<noteq> CHR ''X''"
  shows "skip_0x (s @ c # cs) = s @ c # cs"
proof (cases s)
  case (Cons a t)
  then show ?thesis
    using assms digit_not_special(2,3) by (cases t) auto
qed (use assms in simp)

lemma hex_value_newline: "hex_value newline = None"
  by (simp add: hex_value_def)

text \<open>Scanning what was printed gives the number back.\<close>

lemma sscanf_print: "sscanf_llx (print_base 16 n @ [newline]) = Some (of_nat n)"
proof -
  obtain a t where at: "print_base 16 n = a # t" using print_base_nonempty [of 16 n] by (cases "print_base 16 n") auto
  have a: "a \<in> digit_char ` {..<16}" using print_base_digits [of n] at by auto
  have "skip_0x (print_base 16 n @ newline # []) = print_base 16 n @ newline # []"
    by (rule skip_0x_digits [OF print_base_nonempty print_base_digits]) simp_all
  moreover have "scan_digits (print_base 16 n @ newline # []) 0 = of_nat n"
    by (simp only: scan_digits_value [OF print_base_digits hex_value_newline] digits_value_print)
  ultimately show ?thesis
    using digit_not_special [OF a] by (simp add: sscanf_llx_def at)
qed

section \<open>A device for the witnesses\<close>

text \<open>The interrupt status, the inverse register and the identification.\<close>

record edu_regs =
  r_intr :: u32
  r_inverse :: u32
  r_id :: u32

definition demo_io :: "edu_regs edu_io" where
  "demo_io = \<lparr>
     io_readl = (\<lambda>hw r. if r = QEDU_MMIO_ID_REG then r_id hw
        else if r = QEDU_INTR_STATUS_REG then r_intr hw
        else if r = QEDU_INVERSE_REG then r_inverse hw else 0),
     io_writel = (\<lambda>v r hw. if r = QEDU_INTR_RAISE_REG then hw\<lparr>r_intr := r_intr hw OR v\<rparr>
        else if r = QEDU_INTR_ACK_REG then hw\<lparr>r_intr := r_intr hw AND NOT v\<rparr>
        else if r = QEDU_INVERSE_REG then hw\<lparr>r_inverse := NOT v\<rparr> else hw)\<rparr>"

lemmas edu_reg_defs = QEDU_MMIO_ID_REG_def QEDU_INVERSE_REG_def QEDU_STATUS_REG_def
  QEDU_INTR_STATUS_REG_def QEDU_INTR_RAISE_REG_def QEDU_INTR_ACK_REG_def QEDU_DMA_CMD_REG_def

lemma demo_io_ok: "edu_hw_ok demo_io"
  by (simp add: edu_hw_ok_def demo_io_def edu_reg_defs)

definition demo_edu :: "edu_regs qedu_device" where
  "demo_edu = \<lparr>e_locked = False, e_hw = \<lparr>r_intr = 0, r_inverse = 0, r_id = 0x010000ED\<rparr>, e_id = 0x010000ED,
     e_irq = 11, e_timeout = 750, e_state = 0, e_use_msi = True, e_timer = None\<rparr>"

section \<open>Properties\<close>

text \<open>
  C25: The inverse attribute works end to end. On a device that behaves as documented, storing
  the hexadecimal text of any 32 bit number succeeds, and showing afterwards gives the
  hexadecimal text of its complement; nothing else changes and the lock is free.
\<close>

theorem edu_inverse_roundtrip:
  fixes x :: u32
  assumes "edu_hw_ok io" and "\<not> e_locked edu"
  shows "\<exists>edu'. inverse_store io garbage (print_base 16 (unat x) @ [newline]) count edu = Inr (sint count, edu') \<and>
    inverse_show io edu' = Inr (int (length (print_base 16 (unat (NOT x)))) + 1,
                                print_base 16 (unat (NOT x)) @ [newline], edu') \<and>
    edu' = edu\<lparr>e_hw := e_hw edu'\<rparr>"
proof -
  have v: "(of_nat (unat x) :: u64) = ucast x" by (simp add: unsigned_ucast_eq)
  have x32: "unat x < 2 ^ 32" using unsigned_less [of x] by simp
  then have "unat x < 2 ^ 64" by (rule less_trans) simp
  then have "unat (ucast x :: u64) = unat x" unfolding v [symmetric] by (rule unat_of_nat_small)
  with x32 have lim: "\<not> ucast x > (0xFFFFFFFF :: u64)" by (simp add: word_less_nat_alt)
  have cut: "(ucast (ucast x :: u64) :: u32) = x" by (rule bit_word_eqI) (simp add: bit_simps)
  have rd: "io_readl io (io_writel io x QEDU_INVERSE_REG hw) QEDU_INVERSE_REG = NOT x" for hw
    using assms(1) by (simp add: edu_hw_ok_def)
  show ?thesis
    using assms(2) lim
    by (simp add: inverse_store_def inverse_show_def sscanf_print v cut Let_def e_lock_def e_unlock_def rd)
qed

theorem edu_inverse_roundtrip_witness:
  "\<exists>edu'. inverse_store demo_io 0 (print_base 16 (unat (0xFFFFFF00 :: u32)) @ [newline]) 9 demo_edu = Inr (9, edu') \<and>
     inverse_show demo_io edu' = Inr (3, ''ff'' @ [newline], edu')"
proof -
  have "print_base 16 255 = ''ff''" by code_simp
  then have "print_base 16 (unat (NOT (0xFFFFFF00 :: u32))) = ''ff''" by simp
  moreover have "\<not> e_locked demo_edu" by (simp add: demo_edu_def)
  ultimately show ?thesis
    using edu_inverse_roundtrip [OF demo_io_ok, of demo_edu 0 "0xFFFFFF00" 9] by auto
qed

text \<open>
  The identification macros. For an identification register with the documented layout
  (major and minor version in the upper two bytes, 0x00ed below) the version macros return the
  two bytes, but the check accepts the device only if the low four bits of the minor version
  are zero: its mask is four bits too wide.
\<close>

lemma edu_identification:
  fixes major minor :: "8 word"
  defines "reg \<equiv> push_bit 24 (ucast major) OR push_bit 16 (ucast minor) OR 0xED :: u32"
  shows "QEDU_MAJOR_VERSION reg = ucast major \<and> QEDU_MINOR_VERSION reg = ucast minor \<and>
    (QEDU_IS_ID reg \<longleftrightarrow> take_bit 4 minor = 0)"
proof -
  have ed: "bit (0xED :: u32) n \<Longrightarrow> n < 8" for n
    using bit_take_bit_iff [of 8 "0xED :: u32" n] by simp
  have byte: "bit (w :: 8 word) n \<Longrightarrow> n < 8" for w n
    using bit_imp_le_length by fastforce
  have "QEDU_MAJOR_VERSION reg = ucast major"
    unfolding QEDU_MAJOR_VERSION_def reg_def
    by (rule bit_word_eqI) (auto simp: bit_simps dest: ed byte)
  moreover have "QEDU_MINOR_VERSION reg = ucast minor"
    unfolding QEDU_MINOR_VERSION_def reg_def
    by (rule bit_word_eqI) (auto simp: bit_simps dest: ed byte)
  moreover have "QEDU_IS_ID reg \<longleftrightarrow> take_bit 4 minor = 0"
  proof
    assume "QEDU_IS_ID reg"
    then have eq: "take_bit 20 reg = 0xED" by (simp add: QEDU_IS_ID_def take_bit_eq_mask mask_eq_exp_minus_1)
    show "take_bit 4 minor = 0"
    proof (rule bit_word_eqI)
      fix n assume "n < LENGTH(8)"
      have hi: "\<not> bit (0xED :: u32) (n + 16)" using ed [of "n + 16"] by linarith
      have "bit (take_bit 20 reg) (n + 16) \<longleftrightarrow> n < 4 \<and> bit minor n"
        using hi by (auto simp: reg_def bit_simps dest: byte)
      then show "bit (take_bit 4 minor) n = bit 0 n"
        unfolding eq using hi by (simp add: bit_simps)
    qed
  next
    assume "take_bit 4 minor = 0"
    then have z: "\<not> (n < 4 \<and> bit minor n)" for n
      by (metis bit_take_bit_iff bit_0_eq bot_apply bot_bool_def)
    have "take_bit 20 reg = 0xED"
      by (rule bit_word_eqI) (use z in \<open>auto simp: reg_def bit_simps dest: ed byte\<close>)
    then show "QEDU_IS_ID reg" by (simp add: QEDU_IS_ID_def take_bit_eq_mask mask_eq_exp_minus_1)
  qed
  ultimately show ?thesis by blast
qed

end
