(* ===== verification/Edu_Threads.thy ===== *)
theory Edu_Threads
  imports Edu_Props
begin

text \<open>
  Readers of the interrupt test attribute of the edu driver, its interrupt handlers and its
  timer as a transition system. When the hard handler always gets the lock and the timer function
  gets it while a test still waits, every test ends with success and the timer is never armed
  twice. A threaded handler or a timer function that gets the lock late leaves a stale result
  behind.
\<close>

section \<open>States and steps\<close>

datatype e_phase = EChecking | EAsleep | EReady

datatype e_thread = EIdle | EWaiting e_phase

text \<open>
  The steps are what happens between taking and giving up the spin lock, and the places outside it
  where another party can come in between: a test that looks at the state bits before it sleeps or
  after its sleep, and a timer that has expired while its function does not have the lock yet. The
  hard handler reads the interrupt status before it tries the lock; the handler of one interrupt does
  not run on two processors at a time and only a handler acknowledges the interrupt, so nobody can
  change what it has read. \<open>es_thread\<close> says that the threaded handler has been woken and has not run, \<open>es_expired\<close> that
  the timer has expired and its function waits for the lock; \<open>es_log\<close> collects what finished
  tests returned.
\<close>

record 'hw e_sys =
  es_dev :: "'hw qedu_device"
  es_thr :: "e_thread list"
  es_thread :: bool
  es_expired :: bool
  es_log :: "e_result list"

datatype e_action =
    TStart nat ulong      \<comment> \<open>a thread reads the attribute\<close>
  | TCheck nat            \<comment> \<open>looks at the state bits before it sleeps\<close>
  | TGo nat               \<comment> \<open>goes on after the sleep\<close>
  | TSignal nat           \<comment> \<open>gets a signal\<close>
  | TIrq                  \<comment> \<open>the hard handler runs and gets the lock\<close>
  | TIrqBusy              \<comment> \<open>the hard handler runs and does not get the lock\<close>
  | TThread               \<comment> \<open>the threaded handler runs\<close>
  | TExpire               \<comment> \<open>the timer expires: it is no longer pending and its function is called\<close>
  | TTimeout ulong        \<comment> \<open>the timer function gets the lock\<close>

definition e_wake :: "bool \<Rightarrow> e_thread list \<Rightarrow> e_thread list" where
  "e_wake w thr = (if w then map (\<lambda>th. if th = EWaiting EAsleep then EWaiting EReady else th) thr else thr)"

definition e_finish :: "nat \<Rightarrow> 'hw e_sys \<Rightarrow> e_result \<times> 'hw qedu_device \<Rightarrow> 'hw e_sys" where
  "e_finish t s = (\<lambda>(res, edu).
     s\<lparr>es_dev := edu, es_thr := (es_thr s)[t := (if res = ESleeping then EWaiting EChecking else EIdle)],
       es_log := (if res = ESleeping then es_log s else es_log s @ [res])\<rparr>)"

definition e_exec :: "'hw edu_io \<Rightarrow> e_action \<Rightarrow> 'hw e_sys \<Rightarrow> (fault + 'hw e_sys) option" where
  "e_exec io a s =
     (let edu = es_dev s; thr = es_thr s in
      case a of
        TStart t j \<Rightarrow>
          if t < length thr \<and> thr ! t = EIdle
          then Some (bindS (test_irq_show io j edu) (\<lambda>x. Inr (e_finish t s x))) else None
      | TCheck t \<Rightarrow>
          if t < length thr \<and> thr ! t = EWaiting EChecking
          then Some (Inr (s\<lparr>es_thr := thr[t := EWaiting (if irq_done_nolock edu then EReady else EAsleep)]\<rparr>))
          else None
      | TGo t \<Rightarrow>
          if t < length thr \<and> thr ! t = EWaiting EReady
          then Some (bindS (test_irq_resume False edu) (\<lambda>x. Inr (e_finish t s x))) else None
      | TSignal t \<Rightarrow>
          if t < length thr \<and> (\<exists>ph \<in> {EChecking, EAsleep, EReady}. thr ! t = EWaiting ph)
          then Some (bindS (test_irq_resume True edu) (\<lambda>x. Inr (e_finish t s x))) else None
      | TIrq \<Rightarrow>
          Some (bindS (qedu_handle_irq io True edu) (\<lambda>(_, edu, w).
            Inr (s\<lparr>es_dev := edu, es_thr := e_wake w thr\<rparr>)))
      | TIrqBusy \<Rightarrow>
          Some (bindS (qedu_handle_irq io False edu) (\<lambda>(r, edu, w).
            Inr (s\<lparr>es_dev := edu, es_thr := e_wake w thr, es_thread := es_thread s \<or> r = IRQ_WAKE_THREAD\<rparr>)))
      | TThread \<Rightarrow>
          if es_thread s
          then Some (bindS (qedu_thr_handle_irq io edu) (\<lambda>(_, edu, w).
                 Inr (s\<lparr>es_dev := edu, es_thr := e_wake w thr, es_thread := False\<rparr>)))
          else None
      | TExpire \<Rightarrow>
          if e_timer edu \<noteq> None \<and> \<not> es_expired s
          then Some (Inr (s\<lparr>es_dev := edu\<lparr>e_timer := None\<rparr>, es_expired := True\<rparr>)) else None
      | TTimeout j \<Rightarrow>
          if es_expired s
          then Some (bindS (qedu_timeout io j edu) (\<lambda>(edu, w).
                 Inr (s\<lparr>es_dev := edu, es_thr := e_wake w thr, es_expired := False\<rparr>)))
          else None)"

text \<open>
  Nobody is late: the hard handler always gets the lock, and when the timer function gets it, a
  test is waiting and the interrupt is still raised or the device has no other request.
\<close>

definition e_in_time :: "'hw edu_io \<Rightarrow> e_action \<Rightarrow> 'hw e_sys \<Rightarrow> bool" where
  "e_in_time io a s =
     (let edu = es_dev s; reg = io_readl io (e_hw edu) in
      case a of
        TIrqBusy \<Rightarrow> False
      | TTimeout j \<Rightarrow> qedu_is_waiting_irq edu \<and>
          (irq_raised (reg QEDU_INTR_STATUS_REG) \<or> \<not> irq_set (reg QEDU_STATUS_REG) (reg QEDU_DMA_CMD_REG))
      | _ \<Rightarrow> True)"

text \<open>The steps in which nobody is late, and all steps.\<close>

inductive e_step :: "'hw edu_io \<Rightarrow> 'hw e_sys \<Rightarrow> 'hw e_sys \<Rightarrow> bool" for io :: "'hw edu_io" where
  e_step_exec: "e_in_time io a s \<Longrightarrow> e_exec io a s = Some (Inr s') \<Longrightarrow> e_step io s s'"

inductive e_step_all :: "'hw edu_io \<Rightarrow> 'hw e_sys \<Rightarrow> 'hw e_sys \<Rightarrow> bool" for io :: "'hw edu_io" where
  e_step_all_exec: "e_exec io a s = Some (Inr s') \<Longrightarrow> e_step_all io s s'"

inductive_cases e_stepE: "e_step io s s'"

fun e_schedule :: "'hw edu_io \<Rightarrow> e_action list \<Rightarrow> 'hw e_sys \<Rightarrow> 'hw e_sys option" where
  "e_schedule io [] s = Some s"
| "e_schedule io (a # as) s =
     (case e_exec io a s of Some (Inr s') \<Rightarrow> e_schedule io as s' | _ \<Rightarrow> None)"

abbreviation e_intr :: "'hw edu_io \<Rightarrow> 'hw qedu_device \<Rightarrow> u32" where
  "e_intr io edu \<equiv> io_readl io (e_hw edu) QEDU_INTR_STATUS_REG"

text \<open>The device after probe: no state bits, no timer, no interrupt.\<close>

definition e_initial :: "'hw edu_io \<Rightarrow> 'hw e_sys \<Rightarrow> bool" where
  "e_initial io s \<longleftrightarrow> edu_hw_ok io \<and> \<not> e_locked (es_dev s) \<and> e_state (es_dev s) = 0 \<and>
     e_timer (es_dev s) = None \<and> e_intr io (es_dev s) = 0 \<and>
     set (es_thr s) \<subseteq> {EIdle} \<and> \<not> es_thread s \<and> \<not> es_expired s \<and> es_log s = []"

section \<open>The invariant\<close>

abbreviation st_bit :: "'hw qedu_device \<Rightarrow> nat \<Rightarrow> bool" where
  "st_bit edu n \<equiv> bit (e_state edu) n"

lemmas edu_bit_defs = QEDU_STATE_IRQ_WAIT_def QEDU_STATE_IRQ_OK_def QEDU_STATE_IRQ_TIMEDOUT_def
  QEDU_STATE_SHUTDOWN_def

definition dev_idle :: "'hw edu_io \<Rightarrow> 'hw qedu_device \<Rightarrow> bool" where
  "dev_idle io edu \<longleftrightarrow> e_state edu = 0 \<and> e_timer edu = None \<and> e_intr io edu = 0"

text \<open>
  The interrupt has been raised and not handled: the timer may have run in between. When it has been
  handled, a timer function that was overtaken by the handler may have set its bit as well.
\<close>

definition dev_raised :: "'hw edu_io \<Rightarrow> 'hw qedu_device \<Rightarrow> bool" where
  "dev_raised io edu \<longleftrightarrow> e_state edu = 1 \<and> e_intr io edu = 2"

definition dev_handled :: "'hw edu_io \<Rightarrow> 'hw qedu_device \<Rightarrow> bool" where
  "dev_handled io edu \<longleftrightarrow> (e_state edu = 3 \<or> e_state edu = 7) \<and> e_timer edu = None \<and> e_intr io edu = 0"

definition waiting_count :: "e_thread list \<Rightarrow> nat" where
  "waiting_count thr = length (filter (\<lambda>th. th \<noteq> EIdle) thr)"

definition log_ok :: "e_result \<Rightarrow> bool" where
  "log_ok res \<longleftrightarrow> res \<in> {EReturned 7 (''IRQ OK'' @ [newline]), EReturned (- EBUSY) [], EReturned (- ERESTARTSYS) []}"

definition e_inv :: "'hw edu_io \<Rightarrow> 'hw e_sys \<Rightarrow> bool" where
  "e_inv io s \<longleftrightarrow> edu_hw_ok io \<and> \<not> e_locked (es_dev s) \<and> \<not> es_thread s \<and>
     (dev_idle io (es_dev s) \<and> waiting_count (es_thr s) = 0 \<or>
      dev_raised io (es_dev s) \<and> waiting_count (es_thr s) \<le> 1 \<or>
      dev_handled io (es_dev s) \<and> waiting_count (es_thr s) \<le> 1 \<and> EWaiting EAsleep \<notin> set (es_thr s)) \<and>
     list_all log_ok (es_log s)"

section \<open>The parts of the driver on the three kinds of device state\<close>

lemma edu_words:
  "set_bit 0 (0 :: ulong) = 1" "set_bit (Suc 0) (1 :: ulong) = 3"
  "unset_bit 0 (3 :: ulong) = 2" "unset_bit (Suc 0) (2 :: ulong) = 0" "unset_bit 2 (0 :: ulong) = 0"
  "set_bit 2 (3 :: ulong) = 7" "set_bit 2 (7 :: ulong) = 7"
  "unset_bit 0 (7 :: ulong) = 6" "unset_bit (Suc 0) (6 :: ulong) = 4" "unset_bit 2 (4 :: ulong) = 0"
  by (simp_all add: set_bit_eq_or unset_bit_eq_and_not)

lemma edu_bits:
  "bit (1 :: ulong) 0" "\<not> bit (1 :: ulong) (Suc 0)" "\<not> bit (1 :: ulong) 2" "\<not> bit (1 :: ulong) 3"
  "bit (3 :: ulong) 0" "bit (3 :: ulong) (Suc 0)" "\<not> bit (3 :: ulong) 2" "\<not> bit (3 :: ulong) 3"
  "bit (7 :: ulong) 0" "bit (7 :: ulong) (Suc 0)" "bit (7 :: ulong) 2" "\<not> bit (7 :: ulong) 3"
  by (simp_all add: bit_1_iff)

lemmas edu_defs = e_lock_def e_unlock_def e_assert_held_def irq_done_nolock_def qedu_is_irq_done_def
  qedu_is_shutting_down_def qedu_is_waiting_irq_def edu_bit_defs

lemma hw_raise: "edu_hw_ok io \<Longrightarrow>
    io_readl io (io_writel io v QEDU_INTR_RAISE_REG hw) QEDU_INTR_STATUS_REG
      = io_readl io hw QEDU_INTR_STATUS_REG OR v"
  and hw_ack: "edu_hw_ok io \<Longrightarrow>
    io_readl io (io_writel io v QEDU_INTR_ACK_REG hw) QEDU_INTR_STATUS_REG
      = io_readl io hw QEDU_INTR_STATUS_REG AND NOT v"
  by (simp_all add: edu_hw_ok_def)

lemma test_irq_show_idle:
  assumes "edu_hw_ok io" and "\<not> e_locked edu" and "dev_idle io edu"
  shows "\<exists>edu'. test_irq_show io j edu = Inr (ESleeping, edu') \<and> \<not> e_locked edu' \<and> dev_raised io edu' \<and>
    e_timer edu' = Some (j + ucast (e_timeout edu))"
  using assms
  by (simp add: test_irq_show_def test_irq_loop_def edu_defs qedu_set_waiting_irq_def e_add_timer_def
      dev_idle_def dev_raised_def hw_raise edu_words edu_bits)

lemma test_irq_show_busy:
  assumes "\<not> e_locked edu" and "dev_raised io edu \<or> dev_handled io edu"
  shows "test_irq_show io j edu = Inr (EReturned (- EBUSY) [], edu)"
  using assms
  by (auto simp: test_irq_show_def edu_defs dev_raised_def dev_handled_def edu_bits)

lemma test_irq_resume_raised:
  assumes "\<not> e_locked edu" and "dev_raised io edu"
  shows "test_irq_resume False edu = Inr (ESleeping, edu)"
  using assms by (simp add: test_irq_resume_def test_irq_loop_def edu_defs dev_raised_def edu_bits)

lemma test_irq_resume_handled:
  assumes "\<not> e_locked edu" and "dev_handled io edu"
  shows "\<exists>edu'. test_irq_resume False edu = Inr (EReturned 7 (''IRQ OK'' @ [newline]), edu') \<and>
    \<not> e_locked edu' \<and> dev_idle io edu'"
  using assms
  by (auto simp: test_irq_resume_def test_irq_loop_def edu_defs dev_handled_def dev_idle_def edu_bits
      qedu_clear_waiting_irq_def edu_words)

lemma handle_irq_quiet:
  assumes "dev_idle io edu \<or> dev_handled io edu"
  shows "qedu_handle_irq io lk edu = Inr (IRQ_NONE, edu, False)"
  using assms by (auto simp: qedu_handle_irq_def irq_raised_def dev_idle_def dev_handled_def Let_def)

lemma handle_irq_raised:
  assumes "edu_hw_ok io" and "\<not> e_locked edu" and "dev_raised io edu"
  shows "\<exists>edu'. qedu_handle_irq io True edu = Inr (IRQ_HANDLED, edu', True) \<and> \<not> e_locked edu' \<and> dev_handled io edu'"
  using assms
  by (simp add: qedu_handle_irq_def irq_raised_def handle_irq_locked_def edu_defs dev_raised_def
      dev_handled_def hw_ack edu_words Let_def)

lemma timeout_raised:
  assumes "\<not> e_locked edu" and "dev_raised io edu"
  shows "qedu_timeout io j edu = Inr (edu, False)"
  using assms by (simp add: qedu_timeout_def irq_raised_def edu_defs dev_raised_def Let_def)

lemma timeout_handled:
  assumes "\<not> e_locked edu" and "dev_handled io edu"
    and "\<not> irq_set (io_readl io (e_hw edu) QEDU_STATUS_REG) (io_readl io (e_hw edu) QEDU_DMA_CMD_REG)"
  shows "\<exists>edu'. qedu_timeout io j edu = Inr (edu', True) \<and> \<not> e_locked edu' \<and> dev_handled io edu'"
  using assms by (auto simp: qedu_timeout_def irq_raised_def edu_defs dev_handled_def edu_words Let_def)

section \<open>Every step keeps the invariant\<close>

lemma waiting_count_update:
  "t < length thr \<Longrightarrow>
     waiting_count (thr[t := th]) + of_bool (thr ! t \<noteq> EIdle) = waiting_count thr + of_bool (th \<noteq> EIdle)"
proof (induction thr arbitrary: t)
  case (Cons x xs)
  then show ?case by (cases t) (auto simp: waiting_count_def)
qed simp

lemma waiting_count_wake [simp]: "waiting_count (e_wake w thr) = waiting_count thr"
  by (induction thr) (auto simp: waiting_count_def e_wake_def)

lemma wake_no_sleeper: "EWaiting EAsleep \<notin> set (e_wake True thr)"
  by (auto simp: e_wake_def)

lemma waiting_pos: "t < length thr \<Longrightarrow> thr ! t \<noteq> EIdle \<Longrightarrow> 0 < waiting_count thr"
  by (auto simp: waiting_count_def filter_empty_conv)

lemma set_update_sleeper: "EWaiting EAsleep \<notin> set thr \<Longrightarrow> th \<noteq> EWaiting EAsleep \<Longrightarrow> EWaiting EAsleep \<notin> set (thr[t := th])"
  using set_update_subset_insert [of thr t th] by auto

lemma e_exec_start:
  assumes inv: "e_inv io s" and t: "t < length (es_thr s)" "es_thr s ! t = EIdle"
  shows "\<exists>s'. bindS (test_irq_show io j (es_dev s)) (\<lambda>x. Inr (e_finish t s x)) = Inr s' \<and> e_inv io s'"
proof (cases "dev_idle io (es_dev s)")
  case True
  have I: "edu_hw_ok io" "\<not> e_locked (es_dev s)" "waiting_count (es_thr s) = 0"
    using inv True by (auto simp: e_inv_def dev_idle_def dev_raised_def dev_handled_def)
  obtain edu' where "test_irq_show io j (es_dev s) = Inr (ESleeping, edu')" "\<not> e_locked edu'" "dev_raised io edu'"
    using test_irq_show_idle [OF I(1,2) True] by blast
  with inv I(3) waiting_count_update [OF t(1), of "EWaiting EChecking"] t(2) show ?thesis
    by (simp add: e_inv_def e_finish_def)
next
  case False
  then have "test_irq_show io j (es_dev s) = Inr (EReturned (- EBUSY) [], es_dev s)"
    using inv by (intro test_irq_show_busy [where io = io]) (auto simp: e_inv_def)
  moreover have "(es_thr s)[t := EIdle] = es_thr s" using t by (metis list_update_id)
  ultimately show ?thesis using inv by (simp add: e_inv_def e_finish_def log_ok_def)
qed

lemma e_exec_go:
  assumes inv: "e_inv io s" and t: "t < length (es_thr s)" "es_thr s ! t = EWaiting EReady"
  shows "\<exists>s'. bindS (test_irq_resume False (es_dev s)) (\<lambda>x. Inr (e_finish t s x)) = Inr s' \<and> e_inv io s'"
proof -
  have pos: "0 < waiting_count (es_thr s)" using waiting_pos t by simp
  note cnt = waiting_count_update [OF t(1)]
  show ?thesis
  proof (cases "dev_raised io (es_dev s)")
    case True
    then have "test_irq_resume False (es_dev s) = Inr (ESleeping, es_dev s)"
      using inv by (intro test_irq_resume_raised [where io = io]) (auto simp: e_inv_def)
    with inv True cnt [of "EWaiting EChecking"] t(2) show ?thesis
      by (auto simp: e_inv_def e_finish_def dev_raised_def dev_idle_def dev_handled_def)
  next
    case False
    then have h: "dev_handled io (es_dev s)" "waiting_count (es_thr s) = 1"
      using inv pos by (auto simp: e_inv_def)
    obtain edu' where "test_irq_resume False (es_dev s) = Inr (EReturned 7 (''IRQ OK'' @ [newline]), edu')"
        "\<not> e_locked edu'" "dev_idle io edu'"
      using test_irq_resume_handled [OF _ h(1)] inv by (auto simp: e_inv_def)
    with inv h(2) cnt [of EIdle] t(2) show ?thesis
      by (simp add: e_inv_def e_finish_def log_ok_def)
  qed
qed

lemma e_exec_signal:
  assumes inv: "e_inv io s" and t: "t < length (es_thr s)" "es_thr s ! t \<noteq> EIdle"
  shows "\<exists>s'. bindS (test_irq_resume True (es_dev s)) (\<lambda>x. Inr (e_finish t s x)) = Inr s' \<and> e_inv io s'"
  using inv waiting_count_update [OF t(1), of EIdle] t waiting_pos [OF t]
    set_update_sleeper [of "es_thr s" EIdle t]
  by (auto simp: test_irq_resume_def e_inv_def e_finish_def log_ok_def)

lemma e_exec_check:
  assumes inv: "e_inv io s" and t: "t < length (es_thr s)" "es_thr s ! t = EWaiting EChecking"
  shows "e_inv io (s\<lparr>es_thr := (es_thr s)[t := EWaiting (if irq_done_nolock (es_dev s) then EReady else EAsleep)]\<rparr>)"
proof -
  have "irq_done_nolock (es_dev s)" if "dev_handled io (es_dev s)"
    using that by (auto simp: edu_defs dev_handled_def edu_bits)
  moreover have "waiting_count ((es_thr s)[t := EWaiting ph]) = waiting_count (es_thr s)" for ph
    using waiting_count_update [OF t(1), of "EWaiting ph"] t(2) by simp
  ultimately show ?thesis
    using inv set_update_sleeper [of "es_thr s" "EWaiting EReady" t] by (auto simp: e_inv_def)
qed

lemma e_exec_irq:
  assumes inv: "e_inv io s"
  shows "\<exists>s'. bindS (qedu_handle_irq io True (es_dev s)) (\<lambda>(_, edu, w).
    Inr (s\<lparr>es_dev := edu, es_thr := e_wake w (es_thr s)\<rparr>)) = Inr s' \<and> e_inv io s'"
proof (cases "dev_raised io (es_dev s)")
  case True
  have I: "edu_hw_ok io" "\<not> e_locked (es_dev s)" "waiting_count (es_thr s) \<le> 1"
    using inv by (auto simp: e_inv_def)
  obtain edu' where "qedu_handle_irq io True (es_dev s) = Inr (IRQ_HANDLED, edu', True)"
      "\<not> e_locked edu'" "dev_handled io edu'"
    using handle_irq_raised [OF I(1,2) True] by blast
  with inv I(3) show ?thesis by (simp add: e_inv_def wake_no_sleeper)
next
  case False
  then have "qedu_handle_irq io True (es_dev s) = Inr (IRQ_NONE, es_dev s, False)"
    using inv by (intro handle_irq_quiet) (auto simp: e_inv_def)
  with inv show ?thesis by (simp add: e_wake_def)
qed

lemma e_exec_expire:
  assumes "e_inv io s"
  shows "e_inv io (s\<lparr>es_dev := (es_dev s)\<lparr>e_timer := None\<rparr>, es_expired := True\<rparr>)"
  using assms by (auto simp: e_inv_def dev_idle_def dev_raised_def dev_handled_def)

lemma e_exec_timeout:
  assumes inv: "e_inv io s" and "e_in_time io (TTimeout j) s"
  shows "\<exists>s'. bindS (qedu_timeout io j (es_dev s)) (\<lambda>(edu, w).
    Inr (s\<lparr>es_dev := edu, es_thr := e_wake w (es_thr s), es_expired := False\<rparr>)) = Inr s' \<and> e_inv io s'"
proof (cases "dev_raised io (es_dev s)")
  case True
  then show ?thesis using timeout_raised [OF _ True] inv by (simp add: e_inv_def e_wake_def)
next
  case False
  then have h: "dev_handled io (es_dev s)" "\<not> e_locked (es_dev s)" "waiting_count (es_thr s) \<le> 1"
    using inv assms(2) by (auto simp: e_inv_def e_in_time_def dev_idle_def edu_defs Let_def)
  moreover have "\<not> irq_raised (e_intr io (es_dev s))" using h(1) by (simp add: dev_handled_def irq_raised_def)
  ultimately obtain edu' where "qedu_timeout io j (es_dev s) = Inr (edu', True)" "\<not> e_locked edu'" "dev_handled io edu'"
    using timeout_handled [OF h(2,1)] assms(2) by (auto simp: e_in_time_def Let_def)
  then show ?thesis using inv h(3) by (simp add: e_inv_def wake_no_sleeper)
qed

lemma e_exec_safe:
  assumes inv: "e_inv io s" and tm: "e_in_time io a s" and ex: "e_exec io a s = Some r"
  shows "\<exists>s'. r = Inr s' \<and> e_inv io s'"
proof (cases a)
  case (TStart t j)
  then show ?thesis using ex e_exec_start [OF inv] by (auto simp: e_exec_def Let_def split: if_splits)
next
  case (TCheck t)
  then show ?thesis using ex e_exec_check [OF inv] by (auto simp: e_exec_def Let_def split: if_splits)
next
  case (TGo t)
  then show ?thesis using ex e_exec_go [OF inv] by (auto simp: e_exec_def Let_def split: if_splits)
next
  case (TSignal t)
  then have "t < length (es_thr s)" "es_thr s ! t \<noteq> EIdle"
    and "r = bindS (test_irq_resume True (es_dev s)) (\<lambda>x. Inr (e_finish t s x))"
    using ex by (auto simp: e_exec_def Let_def split: if_splits)
  then show ?thesis using e_exec_signal [OF inv] by simp
next
  case TIrq
  then show ?thesis using ex e_exec_irq [OF inv] by (auto simp: e_exec_def Let_def)
next
  case TThread
  then show ?thesis using ex inv by (simp add: e_exec_def Let_def e_inv_def)
next
  case TExpire
  then show ?thesis using ex e_exec_expire [OF inv] by (auto simp: e_exec_def Let_def split: if_splits)
next
  case (TTimeout j)
  then show ?thesis using ex e_exec_timeout [OF inv] tm by (auto simp: e_exec_def Let_def split: if_splits)
qed (use tm in \<open>simp add: e_in_time_def\<close>)

lemma e_initial_inv: "e_initial io s \<Longrightarrow> e_inv io s"
  by (auto simp: e_initial_def e_inv_def dev_idle_def waiting_count_def filter_empty_conv)

interpretation edu_threads: transition_system "e_initial io" "e_step io" "e_inv io" for io :: "'hw edu_io"
proof
  show "e_inv io s" if "e_initial io s" for s using that by (rule e_initial_inv)
  show "e_inv io t" if "e_inv io s" "e_step io s t" for s t
    using that e_exec_safe by (fastforce elim: e_stepE)
qed

section \<open>A device nobody waits for any more\<close>

definition e_wedged :: "'hw edu_io \<Rightarrow> 'hw e_sys \<Rightarrow> bool" where
  "e_wedged io s \<longleftrightarrow> e_inv io s \<and> waiting_count (es_thr s) = 0 \<and> \<not> dev_idle io (es_dev s)"

lemma wedged_start:
  assumes "e_wedged io s" and "t < length (es_thr s)"
  shows "e_exec io (TStart t j) s = Some (Inr (s\<lparr>es_log := es_log s @ [EReturned (- EBUSY) []]\<rparr>))"
proof -
  have "es_thr s ! t = EIdle" using assms waiting_pos [of t "es_thr s"] by (auto simp: e_wedged_def)
  moreover have "test_irq_show io j (es_dev s) = Inr (EReturned (- EBUSY) [], es_dev s)"
    using assms(1) by (intro test_irq_show_busy [where io = io]) (auto simp: e_wedged_def e_inv_def)
  moreover have "(es_thr s)[t := EIdle] = es_thr s" using calculation(1) by (metis list_update_id)
  ultimately show ?thesis using assms(2) by (simp add: e_exec_def e_finish_def Let_def)
qed

lemma wedged_step:
  assumes w: "e_wedged io s" and st: "e_step io s s'"
  shows "e_wedged io s'"
proof -
  from st obtain a where a: "e_in_time io a s" "e_exec io a s = Some (Inr s')" by (rule e_stepE)
  have inv: "e_inv io s'" using e_exec_safe [OF _ a] w by (auto simp: e_wedged_def)
  have idle: "es_thr s ! t = EIdle" if "t < length (es_thr s)" for t
    using waiting_pos [OF that] w by (auto simp: e_wedged_def)
  have dev: "\<not> e_locked (es_dev s)" "\<not> es_thread s" "edu_hw_ok io" "dev_raised io (es_dev s) \<or> dev_handled io (es_dev s)"
    using w by (auto simp: e_wedged_def e_inv_def)
  have "waiting_count (es_thr s') = 0 \<and> \<not> dev_idle io (es_dev s')"
  proof (cases a)
    case (TStart t j)
    then have "t < length (es_thr s)" using a(2) by (auto simp: e_exec_def Let_def split: if_splits)
    from wedged_start [OF w this, of j] show ?thesis using TStart a(2) w by (auto simp: e_wedged_def)
  next
    case TIrq
    then show ?thesis
      using a(2) w dev handle_irq_raised [OF dev(3,1)] handle_irq_quiet [of io "es_dev s" True]
      by (auto simp: e_exec_def Let_def e_wedged_def dev_idle_def dev_raised_def dev_handled_def)
  next
    case TExpire
    then show ?thesis
      using a(2) w dev(4)
      by (auto simp: e_exec_def Let_def e_wedged_def dev_idle_def dev_raised_def dev_handled_def split: if_splits)
  next
    case (TTimeout j)
    have nz: "\<not> dev_idle io (edu :: 'a qedu_device)" if "dev_raised io edu \<or> dev_handled io edu" for edu
      using that by (auto simp: dev_idle_def dev_raised_def dev_handled_def)
    show ?thesis
    proof (cases "dev_raised io (es_dev s)")
      case True
      then show ?thesis
        using TTimeout a(2) w timeout_raised [OF dev(1) True] nz
        by (auto simp: e_exec_def Let_def e_wedged_def e_wake_def split: if_splits)
    next
      case False
      then have h: "dev_handled io (es_dev s)" using dev(4) by simp
      then have "\<not> irq_raised (e_intr io (es_dev s))" by (simp add: dev_handled_def irq_raised_def)
      then obtain edu' where "qedu_timeout io j (es_dev s) = Inr (edu', True)" "dev_handled io edu'"
        using timeout_handled [OF dev(1) h] a(1) TTimeout by (auto simp: e_in_time_def Let_def)
      then show ?thesis
        using TTimeout a(2) w nz by (auto simp: e_exec_def Let_def e_wedged_def split: if_splits)
    qed
  qed (use a dev idle in \<open>auto simp: e_exec_def e_in_time_def Let_def split: if_splits\<close>)
  with inv show ?thesis by (simp add: e_wedged_def)
qed

interpretation edu_wedge: transition_system "e_wedged io" "e_step io" "e_wedged io" for io :: "'hw edu_io"
  by unfold_locales (auto intro: wedged_step)

section \<open>Properties\<close>

text \<open>
  C26: The interrupt test on a device that works, as long as nobody is late: the hard handler gets
  the lock whenever it runs, and the function of an expired timer, which the handler and any number of
  other steps may have overtaken, gets it while a test is waiting (and, if the interrupt has been
  acknowledged by then, with no other request in the status registers). Then no interleaving of
  tests, interrupts, timer expiries and signals runs into a fault (in particular the timer is never
  added while it is pending), and every test that returns reports success, that another one is under
  way, or that it was interrupted; never a timeout.
\<close>

theorem edu_irq_test_safe:
  assumes "reachable (e_initial io) (e_step io) s" and "e_in_time io a s"
  shows "e_exec io a s \<noteq> Some (Inl e) \<and> list_all log_ok (es_log s)"
  using edu_threads.reachable_inv [OF assms(1)] e_exec_safe [OF _ assms(2)]
  by (auto simp: e_inv_def)



section \<open>Runs that go wrong\<close>

definition demo_esys :: "edu_regs e_sys" where
  "demo_esys = \<lparr>es_dev = demo_edu, es_thr = [EIdle, EIdle], es_thread = False, es_expired = False, es_log = []\<rparr>"

lemma demo_esys_initial: "e_initial demo_io demo_esys"
  using demo_io_ok by (simp add: e_initial_def demo_esys_def demo_edu_def) (simp add: demo_io_def edu_reg_defs)

lemma schedule_reachable_all:
  "e_schedule io as s = Some s' \<Longrightarrow> reachable init (e_step_all io) s \<Longrightarrow> reachable init (e_step_all io) s'"
proof (induction as arbitrary: s)
  case (Cons a as)
  then obtain s1 where "e_exec io a s = Some (Inr s1)" "e_schedule io as s1 = Some s'"
    by (auto split: option.splits sum.splits)
  with Cons show ?case by (blast intro: reachable_step e_step_all_exec)
qed simp

lemma schedule_reachable_in_time:
  "e_schedule io as s = Some s' \<Longrightarrow> \<forall>a \<in> set as. \<forall>s. e_in_time io a s \<Longrightarrow> reachable init (e_step io) s \<Longrightarrow>
     reachable init (e_step io) s'"
proof (induction as arbitrary: s)
  case (Cons a as)
  then obtain s1 where "e_in_time io a s" "e_exec io a s = Some (Inr s1)" "e_schedule io as s1 = Some s'"
    by (auto split: option.splits sum.splits)
  moreover have "e_step io s s1" using calculation(1,2) by (rule e_step_exec)
  ultimately show ?case using Cons reachable_step [of init "e_step io" s s1] by simp
qed simp

lemmas e_schedule_defs = e_exec_def e_finish_def e_wake_def test_irq_show_def test_irq_resume_def
  test_irq_loop_def qedu_set_waiting_irq_def qedu_clear_waiting_irq_def e_add_timer_def edu_defs edu_words edu_bits
  qedu_handle_irq_def qedu_thr_handle_irq_def handle_irq_locked_def irq_raised_def Let_def

lemmas demo_edu_defs = demo_esys_def demo_edu_def demo_io_def edu_reg_defs

text \<open>
  The hard handler runs twice for one interrupt, without and with the lock; the test returns;
  only then the threaded handler runs. The next test starts.
\<close>

definition stale_schedule :: "e_action list" where
  "stale_schedule = [TStart 0 0, TCheck 0, TIrqBusy, TIrq, TGo 0, TThread, TStart 0 0]"

definition stale_state :: "edu_regs e_sys" where
  "stale_state = demo_esys\<lparr>
     es_dev := demo_edu\<lparr>e_hw := \<lparr>r_intr = 2, r_inverse = 0, r_id = 0x010000ED\<rparr>, e_timer := Some 750\<rparr>,
     es_log := [EReturned 7 (''IRQ OK'' @ [newline]), EReturned 7 (''IRQ OK'' @ [newline])]\<rparr>"

lemma edu_more_words: "set_bit (Suc 0) (0 :: ulong) = 2" "set_bit 0 (2 :: ulong) = 3" "bit (2 :: ulong) (Suc 0)"
    "\<not> bit (2 :: ulong) 0" "\<not> bit (2 :: ulong) 2" "\<not> bit (2 :: ulong) 3"
  by (simp_all add: set_bit_eq_or)

lemma stale_run: "e_schedule demo_io stale_schedule demo_esys = Some stale_state"
  by (simp add: e_schedule_defs stale_schedule_def stale_state_def demo_edu_defs edu_more_words)

text \<open>
  The timer of a test expires; before its function has the lock, the interrupt is handled and the test
  returns success. The late function finds no interrupt and marks a device that nobody waits for. The
  next test starts.
\<close>

definition late_schedule :: "e_action list" where
  "late_schedule = [TStart 0 0, TCheck 0, TExpire, TIrq, TGo 0, TTimeout 750, TStart 0 800]"

definition late_state :: "edu_regs e_sys" where
  "late_state = demo_esys\<lparr>
     es_dev := demo_edu\<lparr>e_hw := \<lparr>r_intr = 2, r_inverse = 0, r_id = 0x010000ED\<rparr>, e_timer := Some 1550\<rparr>,
     es_log := [EReturned 7 (''IRQ OK'' @ [newline]), EReturned 11 (''IRQ FAIL 5'' @ [newline])]\<rparr>"

lemma edu_late_words: "set_bit 2 (0 :: ulong) = 4" "set_bit 0 (4 :: ulong) = 5" "bit (5 :: ulong) 2" "bit (4 :: ulong) 2"
    "\<not> bit (4 :: ulong) 0" "\<not> bit (5 :: ulong) (Suc 0)" "\<not> bit (5 :: ulong) 3" "\<not> bit (4 :: ulong) 3"
    "unset_bit 0 (5 :: ulong) = 4" "unset_bit (Suc 0) (4 :: ulong) = 4"
  by (simp_all add: set_bit_eq_or unset_bit_eq_and_not)

lemma late_run: "e_schedule demo_io late_schedule demo_esys = Some late_state"
proof -
  have "print_base 16 5 = ''5''" by code_simp
  then show ?thesis
    by (simp add: e_schedule_defs late_schedule_def late_state_def demo_edu_defs edu_late_words qedu_timeout_def irq_set_def)
qed

text \<open>
  C31: Who gets the lock late breaks the test. When the hard handler once finds the lock taken, the
  threaded handler may run after the test it was meant for: in the state reached a test has
  reported success although its interrupt is still raised and its timer still pending, and the
  next test adds the pending timer again, which the kernel answers with a bug. The same happens when
  every hard handler gets the lock, but the function of an expired timer gets it after the test has
  returned; there the test before the bug reports a failure although nothing timed out.
\<close>

theorem edu_stale_handler_bug:
  "reachable (e_initial demo_io) (e_step_all demo_io) stale_state \<and>
   last (es_log stale_state) = EReturned 7 (''IRQ OK'' @ [newline]) \<and>
   e_intr demo_io (es_dev stale_state) = 2 \<and> e_timer (es_dev stale_state) = Some 750 \<and>
   e_exec demo_io (TStart 0 j) stale_state = Some (Inl BugOn) \<and>
   e_initial demo_io demo_esys \<and> e_schedule demo_io late_schedule demo_esys = Some late_state \<and> TIrqBusy \<notin> set late_schedule \<and>
   last (es_log late_state) = EReturned 11 (''IRQ FAIL 5'' @ [newline]) \<and>
   e_intr demo_io (es_dev late_state) = 2 \<and> e_timer (es_dev late_state) = Some 1550 \<and>
   e_exec demo_io (TStart 0 j) late_state = Some (Inl BugOn)"
proof -
  have "reachable (e_initial demo_io) (e_step_all demo_io) demo_esys"
    by (rule reachable_init) (rule demo_esys_initial)
  note schedule_reachable_all [OF stale_run this]
  moreover have "TIrqBusy \<notin> set late_schedule" by (simp add: late_schedule_def)
  moreover have "e_exec demo_io (TStart 0 j) s = Some (Inl BugOn)" if "s \<in> {stale_state, late_state}" for s
    using that by (auto simp: stale_state_def late_state_def e_schedule_defs demo_edu_defs)
  ultimately show ?thesis
    using demo_esys_initial late_run by (simp add: stale_state_def late_state_def demo_edu_defs)
qed

section \<open>Witnesses\<close>

text \<open>One test asleep.\<close>

definition asleep_state :: "edu_regs e_sys" where
  "asleep_state = demo_esys\<lparr>
     es_dev := demo_edu\<lparr>e_hw := \<lparr>r_intr = 2, r_inverse = 0, r_id = 0x010000ED\<rparr>, e_state := 1, e_timer := Some 750\<rparr>,
     es_thr := [EWaiting EAsleep, EIdle]\<rparr>"

lemma asleep_reachable: "reachable (e_initial demo_io) (e_step demo_io) asleep_state"
proof (rule schedule_reachable_in_time)
  show "e_schedule demo_io [TStart 0 0, TCheck 0] demo_esys = Some asleep_state"
    by (simp add: e_schedule_defs asleep_state_def demo_edu_defs)
  show "reachable (e_initial demo_io) (e_step demo_io) demo_esys"
    by (rule reachable_init) (rule demo_esys_initial)
qed (simp add: e_in_time_def)

text \<open>The timer of the sleeping test expires, and the handler overtakes its function.\<close>

definition overtaken_state :: "edu_regs e_sys" where
  "overtaken_state = demo_esys\<lparr>es_dev := demo_edu\<lparr>e_state := 3\<rparr>, es_thr := [EWaiting EReady, EIdle], es_expired := True\<rparr>"

lemma overtaken_reachable: "reachable (e_initial demo_io) (e_step demo_io) overtaken_state"
proof (rule schedule_reachable_in_time)
  show "e_schedule demo_io [TExpire, TIrq] asleep_state = Some overtaken_state"
    by (simp add: e_schedule_defs asleep_state_def overtaken_state_def demo_edu_defs)
qed (simp_all add: asleep_reachable e_in_time_def)

theorem edu_irq_test_safe_witness:
  "e_in_time demo_io (TTimeout 750) overtaken_state \<and> e_exec demo_io (TTimeout 750) overtaken_state \<noteq> Some (Inl BugOn)"
proof -
  have "e_in_time demo_io (TTimeout 750) overtaken_state"
    by (simp add: e_in_time_def overtaken_state_def demo_edu_defs edu_defs edu_bits irq_set_def)
  with edu_irq_test_safe [OF overtaken_reachable this, of BugOn] show ?thesis by simp
qed



end
