(* ===== verification/Driver_Core.thy ===== *)
theory Driver_Core
  imports Kernel_Prelude
begin

text \<open>
  What the driver core of the kernel documents about a bus driver (PCI for edu, USB for qus):
  registering a driver probes the devices its table lists, a device whose probe succeeds is bound, and
  removing the driver calls its remove function for the bound devices. The contract of a driver, a
  probe that holds or gives back and a remove that gives back, is a locale; loading and unloading a
  module are proved for every driver that meets it.
\<close>

section \<open>Drivers and devices\<close>

text \<open>
  The structure a module hands to the core; the table ends with an entry of zeros. A slot is a device
  on the bus with its vendor and device numbers, and its world is what the driver holds of it.
\<close>

record ('k, 'w) bus_driver =
  drv_name :: string
  drv_id_table :: "(u32 \<times> u32) list"
  drv_probe :: "'k \<Rightarrow> 'w \<Rightarrow> fault + (int \<times> 'w)"
  drv_remove :: "'w \<Rightarrow> fault + 'w"

record 'w bus_slot =
  slot_id :: "u32 \<times> u32"
  slot_bound :: bool
  slot_world :: 'w

definition drv_match :: "('k, 'w) bus_driver \<Rightarrow> 'w bus_slot \<Rightarrow> bool" where
  "drv_match d s \<longleftrightarrow> slot_id s \<in> set (takeWhile (\<lambda>i. i \<noteq> (0, 0)) (drv_id_table d))"

text \<open>
  The core forgets the driver's data of a device after a failed probe and after a remove
  (\<open>forget\<close>). A probe documents success by 0 and failure by an error number. The result of a
  probe is not the result of the registration.
\<close>

definition bind_slot :: "('w \<Rightarrow> 'w) \<Rightarrow> ('k, 'w) bus_driver \<Rightarrow> 'k \<Rightarrow> 'w bus_slot \<Rightarrow> fault + 'w bus_slot" where
  "bind_slot forget d k s =
     (if slot_bound s \<or> \<not> drv_match d s then Inr s
      else bindS (drv_probe d k (slot_world s)) (\<lambda>(ret, w).
        Inr (s\<lparr>slot_bound := (ret = 0), slot_world := (if ret = 0 then w else forget w)\<rparr>)))"

definition unbind_slot :: "('w \<Rightarrow> 'w) \<Rightarrow> ('k, 'w) bus_driver \<Rightarrow> 'w bus_slot \<Rightarrow> fault + 'w bus_slot" where
  "unbind_slot forget d s =
     (if \<not> slot_bound s then Inr s
      else bindS (drv_remove d (slot_world s)) (\<lambda>w. Inr (s\<lparr>slot_bound := False, slot_world := forget w\<rparr>)))"

text \<open>Every device is probed with what the kernel does for it, the devices in order.\<close>

fun bind_all :: "('w \<Rightarrow> 'w) \<Rightarrow> ('k, 'w) bus_driver \<Rightarrow> ('k \<times> 'w bus_slot) list \<Rightarrow> fault + 'w bus_slot list" where
  "bind_all forget d [] = Inr []"
| "bind_all forget d ((k, s) # ss) =
     bindS (bind_slot forget d k s) (\<lambda>s'. bindS (bind_all forget d ss) (\<lambda>ss'. Inr (s' # ss')))"

fun unbind_all :: "('w \<Rightarrow> 'w) \<Rightarrow> ('k, 'w) bus_driver \<Rightarrow> 'w bus_slot list \<Rightarrow> fault + 'w bus_slot list" where
  "unbind_all forget d [] = Inr []"
| "unbind_all forget d (s # ss) =
     bindS (unbind_slot forget d s) (\<lambda>s'. bindS (unbind_all forget d ss) (\<lambda>ss'. Inr (s' # ss')))"

text \<open>
  The documented behaviour of the two functions of the core: a registration either fails and
  calls nothing, or probes; a removal unbinds.
\<close>

type_synonym ('k, 'w) register_fn = "('k, 'w) bus_driver \<Rightarrow> 'w bus_slot list \<Rightarrow> fault + (int \<times> 'w bus_slot list)"
type_synonym ('k, 'w) unregister_fn = "('k, 'w) bus_driver \<Rightarrow> 'w bus_slot list \<Rightarrow> fault + 'w bus_slot list"

definition register_ok :: "('w \<Rightarrow> 'w) \<Rightarrow> 'k list \<Rightarrow> ('k, 'w) register_fn \<Rightarrow> bool" where
  "register_ok forget ks reg \<longleftrightarrow>
     (\<forall>d ss. (\<exists>e. e < 0 \<and> reg d ss = Inr (e, ss)) \<or>
        reg d ss = bindS (bind_all forget d (zip ks ss)) (\<lambda>ss'. Inr (0, ss')))"

definition unregister_ok :: "('w \<Rightarrow> 'w) \<Rightarrow> ('k, 'w) unregister_fn \<Rightarrow> bool" where
  "unregister_ok forget unreg \<longleftrightarrow> (\<forall>d ss. unreg d ss = unbind_all forget d ss)"

section \<open>The contract of a driver\<close>

text \<open>
  \<open>held w w'\<close>, \<open>left w w'\<close> and \<open>restored w w'\<close> say what a world that was \<open>w\<close> is after a successful
  probe, after a failed one, and after a remove.
\<close>

locale driver_contract =
  fixes drv :: "('k, 'w) bus_driver"
    and forget :: "'w \<Rightarrow> 'w"
    and good :: "'k \<Rightarrow> bool"
    and idle :: "'w \<Rightarrow> bool"
    and held :: "'w \<Rightarrow> 'w \<Rightarrow> bool"
    and left :: "'w \<Rightarrow> 'w \<Rightarrow> bool"
    and restored :: "'w \<Rightarrow> 'w \<Rightarrow> bool"
  assumes probe: "idle w \<Longrightarrow> good k \<Longrightarrow>
      \<exists>ret w'. drv_probe drv k w = Inr (ret, w') \<and> (if ret = 0 then held w w' else left w (forget w'))"
    and remove: "held w w' \<Longrightarrow> \<exists>w''. drv_remove drv w' = Inr w'' \<and> restored w (forget w'')"
    and untouched: "idle w \<Longrightarrow> restored w w"
begin

lemma slot_cycle:
  assumes "idle (slot_world s)" and "\<not> slot_bound s" and "good k"
  shows "\<exists>s1 s2. bind_slot forget drv k s = Inr s1 \<and> unbind_slot forget drv s1 = Inr s2 \<and> \<not> slot_bound s2 \<and> slot_id s2 = slot_id s \<and>
    (slot_bound s1 \<longrightarrow> drv_match drv s \<and> held (slot_world s) (slot_world s1)) \<and>
    (left (slot_world s) (slot_world s2) \<and> \<not> slot_bound s1 \<or> restored (slot_world s) (slot_world s2))"
proof (cases "drv_match drv s")
  case False
  then show ?thesis using assms untouched by (simp add: bind_slot_def unbind_slot_def)
next
  case True
  obtain ret w' where p: "drv_probe drv k (slot_world s) = Inr (ret, w')"
    "if ret = 0 then held (slot_world s) w' else left (slot_world s) (forget w')"
    using probe [OF assms(1,3)] by blast
  show ?thesis
  proof (cases "ret = 0")
    case True
    then obtain w'' where "drv_remove drv w' = Inr w''" "restored (slot_world s) (forget w'')" using p(2) remove by fastforce
    then show ?thesis using True p assms(2) \<open>drv_match drv s\<close> by (simp add: bind_slot_def unbind_slot_def)
  next
    case False
    then show ?thesis using p assms(2) \<open>drv_match drv s\<close> by (simp add: bind_slot_def unbind_slot_def)
  qed
qed

lemma bus_cycle:
  assumes "\<forall>s \<in> set ss. idle (slot_world s) \<and> \<not> slot_bound s" and "\<forall>k \<in> set ks. good k" and "length ks = length ss"
  shows "\<exists>ss1 ss2. bind_all forget drv (zip ks ss) = Inr ss1 \<and> unbind_all forget drv ss1 = Inr ss2 \<and>
    length ss1 = length ss \<and> length ss2 = length ss \<and>
    (\<forall>i < length ss. \<not> slot_bound (ss2 ! i) \<and> slot_id (ss2 ! i) = slot_id (ss ! i) \<and>
      (slot_bound (ss1 ! i) \<longrightarrow> drv_match drv (ss ! i) \<and> held (slot_world (ss ! i)) (slot_world (ss1 ! i))) \<and>
      (left (slot_world (ss ! i)) (slot_world (ss2 ! i)) \<and> \<not> slot_bound (ss1 ! i) \<or>
       restored (slot_world (ss ! i)) (slot_world (ss2 ! i))))"
  using assms(3,1,2)
proof (induction ks ss rule: list_induct2)
  case (Cons k ks s ss)
  obtain s1 s2 where s: "bind_slot forget drv k s = Inr s1" "unbind_slot forget drv s1 = Inr s2" "\<not> slot_bound s2" "slot_id s2 = slot_id s"
    "slot_bound s1 \<longrightarrow> drv_match drv s \<and> held (slot_world s) (slot_world s1)"
    "left (slot_world s) (slot_world s2) \<and> \<not> slot_bound s1 \<or> restored (slot_world s) (slot_world s2)"
    using slot_cycle [of s k] Cons.prems by auto
  obtain ss1 ss2 where ss: "bind_all forget drv (zip ks ss) = Inr ss1" "unbind_all forget drv ss1 = Inr ss2"
    "length ss1 = length ss" "length ss2 = length ss"
    "\<forall>i < length ss. \<not> slot_bound (ss2 ! i) \<and> slot_id (ss2 ! i) = slot_id (ss ! i) \<and>
      (slot_bound (ss1 ! i) \<longrightarrow> drv_match drv (ss ! i) \<and> held (slot_world (ss ! i)) (slot_world (ss1 ! i))) \<and>
      (left (slot_world (ss ! i)) (slot_world (ss2 ! i)) \<and> \<not> slot_bound (ss1 ! i) \<or>
       restored (slot_world (ss ! i)) (slot_world (ss2 ! i)))"
    using Cons.IH Cons.prems by auto
  have "bind_all forget drv (zip (k # ks) (s # ss)) = Inr (s1 # ss1)" "unbind_all forget drv (s1 # ss1) = Inr (s2 # ss2)"
    using s(1,2) ss(1,2) by simp_all
  then show ?case
    using s ss(3-5) by (intro exI [of _ "s1 # ss1"] exI [of _ "s2 # ss2"]) (auto simp: nth_Cons split: nat.split)
qed simp

text \<open>Loading and unloading a module whose start registers the driver and whose end removes it.\<close>

lemma load_unload:
  assumes "\<forall>s \<in> set ss. idle (slot_world s) \<and> \<not> slot_bound s" and "\<forall>k \<in> set ks. good k" and "length ks = length ss"
    and "register_ok forget ks reg" and "unregister_ok forget unreg"
  shows "\<exists>ret ss1 ss2. reg drv ss = Inr (ret, ss1) \<and> (ret \<noteq> 0 \<longrightarrow> ss1 = ss) \<and> unreg drv ss1 = Inr ss2 \<and>
    length ss1 = length ss \<and> length ss2 = length ss \<and>
    (\<forall>i < length ss. \<not> slot_bound (ss2 ! i) \<and> slot_id (ss2 ! i) = slot_id (ss ! i) \<and>
      (slot_bound (ss1 ! i) \<longrightarrow> drv_match drv (ss ! i) \<and> held (slot_world (ss ! i)) (slot_world (ss1 ! i))) \<and>
      (left (slot_world (ss ! i)) (slot_world (ss2 ! i)) \<and> \<not> slot_bound (ss1 ! i) \<or>
       restored (slot_world (ss ! i)) (slot_world (ss2 ! i))))"
proof -
  have un: "unreg drv ss' = unbind_all forget drv ss'" for ss' using assms(5) by (simp add: unregister_ok_def)
  consider (fails) e where "e < 0" "reg drv ss = Inr (e, ss)"
    | (binds) "reg drv ss = bindS (bind_all forget drv (zip ks ss)) (\<lambda>ss'. Inr (0, ss'))"
    using assms(4) unfolding register_ok_def by blast
  then show ?thesis
  proof cases
    case fails
    have "unbind_all forget drv ss = Inr ss" using assms(1) by (induction ss) (simp_all add: unbind_slot_def)
    then show ?thesis using fails assms(1) untouched un by fastforce
  next
    case binds
    then show ?thesis using bus_cycle [OF assms(1-3)] un by fastforce
  qed
qed

end

end
