(* ===== verification/Edu_Probe.thy ===== *)
theory Edu_Probe
  imports Edu_Device Driver_Core
begin

text \<open>
  Probe and remove of the edu driver (\<^verbatim>\<open>src/edu/init.c\<close>) and the creation of its attribute
  files (\<^verbatim>\<open>src/edu/sysfs.c\<close>), and start and end of the module, as acquisition and
  release of resources. The results of the kernel calls are parameters (\<open>probe_kernel\<close>).
  Misuse that the kernel only complains about is collected as warnings.
\<close>

section \<open>Resources\<close>

datatype edu_attr = Attr_version | Attr_inverse | Attr_test_irq

datatype edu_warn =
    SleepInAtomic       \<comment> \<open>a call that may sleep, made with a spin lock held\<close>
  | FreeIrqNotRequested

text \<open>
  \<open>w_alive\<close>: the structure is allocated; \<open>w_drvdata\<close>: the PCI device points to it;
  \<open>w_qedu_dev\<close>: the global points to the PCI device; \<open>w_use_msi\<close>: the field of the
  structure, \<open>m_use_msi\<close> and \<open>m_dma_mask\<close>: the module parameters.
\<close>

record edu_world =
  w_alive :: bool
  w_locked :: bool
  w_enabled :: bool
  w_region :: bool
  w_mapped :: bool
  w_vectors :: bool
  w_irq :: bool
  w_drvdata :: bool
  w_qedu_dev :: bool
  w_files :: "edu_attr list"
  w_state :: ulong
  w_timer :: bool
  w_timeout :: u32
  w_use_msi :: bool
  m_use_msi :: bool
  m_dma_mask :: u32
  m_timeout :: u32
  w_warns :: "edu_warn list"

record probe_kernel =
  k_kzalloc :: bool
  k_HZ :: u32
  k_pci_enable_device :: int
  k_pci_request_region :: int
  k_pci_iomap :: bool
  k_pci_set_dma_mask :: "ulong \<Rightarrow> int"
  k_pci_set_consistent_dma_mask :: "ulong \<Rightarrow> int"
  k_pci_alloc_irq_vectors :: int
  k_pci_irq_vector :: int
  k_request_threaded_irq :: int
  k_id_reg :: u32
  k_driver_create_file :: "edu_attr \<Rightarrow> int"

definition w_lock :: "edu_world \<Rightarrow> fault + edu_world" where
  "w_lock w = (if w_locked w then Inl LockHeld else Inr (w\<lparr>w_locked := True\<rparr>))"

definition w_unlock :: "edu_world \<Rightarrow> fault + edu_world" where
  "w_unlock w = (if w_locked w then Inr (w\<lparr>w_locked := False\<rparr>) else Inl LockNotHeld)"

definition might_sleep :: "edu_world \<Rightarrow> edu_world" where
  "might_sleep w = w\<lparr>w_warns := (if w_locked w then w_warns w @ [SleepInAtomic] else w_warns w)\<rparr>"

section \<open>Attribute files\<close>

definition driver_remove_file :: "edu_attr \<Rightarrow> edu_world \<Rightarrow> edu_world" where
  "driver_remove_file a w = (might_sleep w)\<lparr>w_files := removeAll a (w_files w)\<rparr>"

definition driver_create_file :: "probe_kernel \<Rightarrow> edu_attr \<Rightarrow> edu_world \<Rightarrow> int \<times> edu_world" where
  "driver_create_file k a w =
     (let w = might_sleep w in
      if k_driver_create_file k a = 0 then (0, w\<lparr>w_files := a # w_files w\<rparr>)
      else (k_driver_create_file k a, w))"

definition qedu_sysfs_create_entries :: "probe_kernel \<Rightarrow> edu_world \<Rightarrow> int \<times> edu_world" where
  "qedu_sysfs_create_entries k w =
     (let (ret, w) = driver_create_file k Attr_version w in
      if ret \<noteq> 0 then (ret, w)
      else let (ret, w) = driver_create_file k Attr_inverse w in
      if ret \<noteq> 0 then (ret, driver_remove_file Attr_version w)
      else let (ret, w) = driver_create_file k Attr_test_irq w in
      if ret \<noteq> 0 then (ret, driver_remove_file Attr_version (driver_remove_file Attr_inverse w))
      else (0, w))"

definition qedu_sysfs_remove_entries :: "edu_world \<Rightarrow> edu_world" where
  "qedu_sysfs_remove_entries w =
     driver_remove_file Attr_version (driver_remove_file Attr_inverse (driver_remove_file Attr_test_irq w))"

section \<open>Remove\<close>

definition free_irq :: "edu_world \<Rightarrow> edu_world" where
  "free_irq w =
     (let w = might_sleep w in
      if w_irq w then w\<lparr>w_irq := False\<rparr> else w\<lparr>w_warns := w_warns w @ [FreeIrqNotRequested]\<rparr>)"

text \<open>
  \<^verbatim>\<open>__qedu_remove\<close>. The wait on the queue has a condition that is never true, so it is a
  delay; it happens without the lock.
\<close>

definition edu_remove_locked :: "edu_world \<Rightarrow> fault + edu_world" where
  "edu_remove_locked w =
     bindS (if w_locked w then Inr () else Inl LockNotHeld) (\<lambda>_.
     bindS (w_unlock (w\<lparr>w_state := set_bit QEDU_STATE_SHUTDOWN (w_state w)\<rparr>)) (\<lambda>w.
     bindS (w_lock (w\<lparr>w_timer := False\<rparr>)) (\<lambda>w.
     bindS (if bit (w_state w) QEDU_STATE_IRQ_WAIT then bindS (w_unlock w) w_lock else Inr w) (\<lambda>w.
       let w = free_irq w;
           w = (if w_use_msi w then w\<lparr>w_vectors := False\<rparr> else w)
       in Inr (w\<lparr>w_mapped := False, w_enabled := False, w_region := False\<rparr>)))))"

text \<open>Whether \<^verbatim>\<open>drvdata\<close> still points to live memory decides what the accesses do.\<close>

definition qedu_remove :: "edu_world \<Rightarrow> fault + edu_world" where
  "qedu_remove w =
     (if \<not> w_drvdata w then Inr w
      else if \<not> w_alive w then Inl NullDeref
      else bindS (w_lock (qedu_sysfs_remove_entries w)) (\<lambda>w.
           bindS (edu_remove_locked w) (\<lambda>w.
           bindS (w_unlock w) (\<lambda>w. Inr (w\<lparr>w_alive := False\<rparr>)))))"

section \<open>Probe\<close>

text \<open>The label \<^verbatim>\<open>end\<close>.\<close>

definition probe_end :: "int \<Rightarrow> edu_world \<Rightarrow> fault + (int \<times> edu_world)" where
  "probe_end ret w =
     bindS (w_unlock w) (\<lambda>w. Inr (ret, w\<lparr>w_alive := False, w_qedu_dev := False\<rparr>))"

definition probe_fail :: "int \<Rightarrow> edu_world \<Rightarrow> fault + (int \<times> edu_world)" where
  "probe_fail ret w = bindS (edu_remove_locked w) (probe_end ret)"

definition probe_fail_iomap :: "int \<Rightarrow> edu_world \<Rightarrow> fault + (int \<times> edu_world)" where
  "probe_fail_iomap ret w = probe_end ret (w\<lparr>w_enabled := False, w_region := False\<rparr>)"

definition probe_fail_irq :: "int \<Rightarrow> edu_world \<Rightarrow> fault + (int \<times> edu_world)" where
  "probe_fail_irq ret w = probe_fail_iomap ret (w\<lparr>w_mapped := False\<rparr>)"

text \<open>The kernel's macro \<^verbatim>\<open>DMA_BIT_MASK\<close>, for a width below 64 or equal to it.\<close>

definition DMA_BIT_MASK :: "u32 \<Rightarrow> ulong" where
  "DMA_BIT_MASK n = (if n = 64 then - 1 else push_bit (unat n) 1 - 1)"

text \<open>The two DMA masks: \<open>Inl\<close> is the error to fail with.\<close>

definition probe_dma :: "probe_kernel \<Rightarrow> edu_world \<Rightarrow> (int \<times> edu_world) + edu_world" where
  "probe_dma k w =
     (let ret = k_pci_set_dma_mask k (DMA_BIT_MASK (m_dma_mask w));
          retry = ret \<noteq> 0 \<and> m_dma_mask w \<noteq> QEDU_DEFAULT_DMA_MASK;
          w = (if retry then w\<lparr>m_dma_mask := QEDU_DEFAULT_DMA_MASK\<rparr> else w);
          ret = (if retry then k_pci_set_dma_mask k (DMA_BIT_MASK (m_dma_mask w)) else 0)
      in if ret \<noteq> 0 then Inl (ret, w)
         else let ret = k_pci_set_consistent_dma_mask k (DMA_BIT_MASK (m_dma_mask w))
              in if ret \<noteq> 0 then Inl (ret, w) else Inr w)"

text \<open>The interrupt number: \<open>Inl\<close> is the error to fail with.\<close>

definition probe_vector :: "probe_kernel \<Rightarrow> edu_world \<Rightarrow> (int \<times> edu_world) + edu_world" where
  "probe_vector k w =
     (if m_use_msi w
      then let w = might_sleep w in
           if k_pci_alloc_irq_vectors k < 0 then Inr (w\<lparr>m_use_msi := False\<rparr>)
           else let w = w\<lparr>w_vectors := True\<rparr> in
                if k_pci_irq_vector k < 0 then Inl (k_pci_irq_vector k, w) else Inr w
      else Inr w)"

text \<open>From the request of the interrupt on.\<close>

definition probe_irq :: "probe_kernel \<Rightarrow> edu_world \<Rightarrow> fault + (int \<times> edu_world)" where
  "probe_irq k w =
     (let w = might_sleep w; ret = k_request_threaded_irq k in
      if ret \<noteq> 0 then probe_fail_irq ret w
      else let w = w\<lparr>w_irq := True\<rparr> in
      if \<not> QEDU_IS_ID (k_id_reg k) then probe_fail ret w
      else let (ret, w) = qedu_sysfs_create_entries k w in
      if ret \<noteq> 0 then probe_fail ret w
      else bindS (w_unlock (w\<lparr>w_use_msi := m_use_msi w\<rparr>)) (\<lambda>w. Inr (0, w)))"

definition qedu_probe :: "probe_kernel \<Rightarrow> edu_world \<Rightarrow> fault + (int \<times> edu_world)" where
  "qedu_probe k w =
     (if \<not> k_kzalloc k then Inr (- ENOMEM, w)
      else bindS (w_lock (w\<lparr>w_alive := True, w_locked := False, w_state := 0, w_use_msi := False\<rparr>)) (\<lambda>w.
        let w = might_sleep (w\<lparr>w_timer := False, w_qedu_dev := True, w_timeout := m_timeout w * k_HZ k\<rparr>);
            ret = k_pci_enable_device k in
        if ret \<noteq> 0 then probe_end ret w
        else let w = w\<lparr>w_enabled := True\<rparr>; ret = k_pci_request_region k in
        if ret \<noteq> 0 then probe_end ret (w\<lparr>w_enabled := False\<rparr>)
        else let w = w\<lparr>w_region := True\<rparr> in
        if \<not> k_pci_iomap k then probe_fail_iomap (- ENODEV) w
        else let w = w\<lparr>w_mapped := True\<rparr> in
        (case probe_dma k w of
           Inl (ret, w) \<Rightarrow> probe_fail ret w
         | Inr w \<Rightarrow>
             (case probe_vector k (w\<lparr>w_drvdata := True\<rparr>) of
                Inl (ret, w) \<Rightarrow> probe_fail_irq ret w
              | Inr w \<Rightarrow> probe_irq k w))))"

text \<open>
  What the driver core does with the result: a failed probe clears the driver data of the device,
  and only a successful one is followed by a remove.
\<close>

definition core_probe :: "probe_kernel \<Rightarrow> edu_world \<Rightarrow> fault + (int \<times> edu_world)" where
  "core_probe k w =
     bindS (qedu_probe k w) (\<lambda>(ret, w). Inr (ret, if ret = 0 then w else w\<lparr>w_drvdata := False\<rparr>))"

section \<open>Module start and end\<close>

definition QEDU_VENDOR_ID :: u32 where
  "QEDU_VENDOR_ID = 0x1234"

definition QEDU_DEVICE_ID :: u32 where
  "QEDU_DEVICE_ID = 0x11e8"

definition pci_ids :: "(u32 \<times> u32) list" where
  "pci_ids = [(QEDU_VENDOR_ID, QEDU_DEVICE_ID), (0, 0)]"

type_synonym edu_bus = "edu_world bus_slot list"

definition edu_driver :: "(probe_kernel, edu_world) bus_driver" where
  "edu_driver = \<lparr>drv_name = ''qedu'', drv_id_table = pci_ids, drv_probe = qedu_probe, drv_remove = qedu_remove\<rparr>"

text \<open>
  \<^verbatim>\<open>pci_register_driver\<close> and \<^verbatim>\<open>pci_unregister_driver\<close> are parameters; their documented
  behaviour is \<open>register_ok\<close> and \<open>unregister_ok\<close>.
\<close>

definition edu_init :: "(probe_kernel, edu_world) register_fn \<Rightarrow> edu_bus \<Rightarrow> fault + (int \<times> edu_bus)" where
  "edu_init pci_register_driver ss = pci_register_driver edu_driver ss"

definition edu_end :: "(probe_kernel, edu_world) unregister_fn \<Rightarrow> edu_bus \<Rightarrow> fault + edu_bus" where
  "edu_end pci_unregister_driver ss = pci_unregister_driver edu_driver ss"

text \<open>The core clears the driver data of the device.\<close>

definition edu_forget :: "edu_world \<Rightarrow> edu_world" where
  "edu_forget w = w\<lparr>w_drvdata := False\<rparr>"

section \<open>Properties\<close>

text \<open>No resource of the driver is held.\<close>

definition edu_clean :: "edu_world \<Rightarrow> bool" where
  "edu_clean w \<longleftrightarrow> \<not> w_alive w \<and> \<not> w_enabled w \<and> \<not> w_region w \<and> \<not> w_mapped w \<and> \<not> w_vectors w \<and>
     \<not> w_irq w \<and> w_files w = [] \<and> \<not> w_drvdata w \<and> \<not> w_locked w"

lemmas edu_probe_defs = qedu_probe_def probe_end_def probe_fail_def probe_fail_iomap_def probe_fail_irq_def
  probe_dma_def probe_vector_def probe_irq_def core_probe_def edu_remove_locked_def free_irq_def might_sleep_def
  qedu_sysfs_create_entries_def driver_create_file_def driver_remove_file_def qedu_sysfs_remove_entries_def
  w_lock_def w_unlock_def Let_def

definition demo_probe :: probe_kernel where
  "demo_probe = \<lparr>k_kzalloc = True, k_HZ = 250, k_pci_enable_device = 0, k_pci_request_region = 0, k_pci_iomap = True,
     k_pci_set_dma_mask = (\<lambda>_. 0), k_pci_set_consistent_dma_mask = (\<lambda>_. 0), k_pci_alloc_irq_vectors = 1,
     k_pci_irq_vector = 24, k_request_threaded_irq = 0, k_id_reg = 0x010000ED,
     k_driver_create_file = (\<lambda>_. 0)\<rparr>"

definition demo_world :: edu_world where
  "demo_world = \<lparr>w_alive = False, w_locked = False, w_enabled = False, w_region = False, w_mapped = False,
     w_vectors = False, w_irq = False, w_drvdata = False, w_qedu_dev = False, w_files = [], w_state = 0,
     w_timer = False, w_timeout = 0, w_use_msi = False, m_use_msi = True, m_dma_mask = 28, m_timeout = 750,
     w_warns = []\<rparr>"

definition demo_slot :: "edu_world bus_slot" where
  "demo_slot = \<lparr>slot_id = (0x1234, 0x11e8), slot_bound = False, slot_world = demo_world\<rparr>"

subsection \<open>Lemmas\<close>

text \<open>The state of the resources, as the error paths leave it.\<close>

definition edu_released :: "edu_world \<Rightarrow> edu_world \<Rightarrow> bool" where
  "edu_released w w' \<longleftrightarrow> \<not> w_alive w' \<and> \<not> w_enabled w' \<and> \<not> w_region w' \<and> \<not> w_mapped w' \<and> \<not> w_irq w' \<and>
     \<not> w_locked w' \<and> \<not> w_qedu_dev w' \<and> w_vectors w' = w_vectors w \<and> w_files w' = w_files w \<and> w_drvdata w' = w_drvdata w"

lemma edu_remove_locked_eq:
  assumes "w_locked w"
  shows "\<exists>w'. edu_remove_locked w = Inr w' \<and> w_locked w' \<and> \<not> w_irq w' \<and> \<not> w_mapped w' \<and> \<not> w_enabled w' \<and>
    \<not> w_region w' \<and> w_vectors w' = (w_vectors w \<and> \<not> w_use_msi w) \<and> w_files w' = w_files w \<and>
    w_drvdata w' = w_drvdata w \<and> w_alive w' = w_alive w"
  using assms by (simp add: edu_remove_locked_def w_unlock_def w_lock_def free_irq_def might_sleep_def Let_def)

lemma probe_fail_eq:
  assumes "w_locked w" and "\<not> w_use_msi w"
  shows "\<exists>w'. probe_fail ret w = Inr (ret, w') \<and> edu_released w w'"
  using edu_remove_locked_eq [OF assms(1)] assms(2)
  by (auto simp: probe_fail_def probe_end_def w_unlock_def edu_released_def)

lemma probe_fail_irq_eq:
  assumes "w_locked w" and "\<not> w_irq w"
  shows "\<exists>w'. probe_fail_irq ret w = Inr (ret, w') \<and> edu_released w w'"
  using assms by (simp add: probe_fail_irq_def probe_fail_iomap_def probe_end_def w_unlock_def edu_released_def)

lemma sysfs_create_nowarn:
  assumes "w_files w = []"
  shows "(snd (qedu_sysfs_create_entries k w))\<lparr>w_warns := []\<rparr> =
    w\<lparr>w_files := (if fst (qedu_sysfs_create_entries k w) = 0
                   then [Attr_test_irq, Attr_inverse, Attr_version] else []), w_warns := []\<rparr>"
  using assms
  by (simp add: qedu_sysfs_create_entries_def driver_create_file_def driver_remove_file_def might_sleep_def Let_def)

lemma sysfs_create_eq:
  assumes "w_files w = []"
  shows "\<exists>ret ws. qedu_sysfs_create_entries k w =
    (ret, w\<lparr>w_files := (if ret = 0 then [Attr_test_irq, Attr_inverse, Attr_version] else []), w_warns := ws\<rparr>)"
proof -
  let ?r = "qedu_sysfs_create_entries k w"
  have "snd ?r = (snd ?r\<lparr>w_warns := []\<rparr>)\<lparr>w_warns := w_warns (snd ?r)\<rparr>" by simp
  also have "\<dots> = w\<lparr>w_files := (if fst ?r = 0 then [Attr_test_irq, Attr_inverse, Attr_version] else []),
      w_warns := w_warns (snd ?r)\<rparr>"
    unfolding sysfs_create_nowarn [OF assms] by simp
  finally show ?thesis by (metis prod.collapse)
qed

text \<open>What the probe has when it comes to the request of the interrupt.\<close>

definition probe_ready :: "edu_world \<Rightarrow> bool" where
  "probe_ready w \<longleftrightarrow> w_alive w \<and> w_locked w \<and> w_enabled w \<and> w_region w \<and> w_mapped w \<and> w_drvdata w \<and>
     \<not> w_irq w \<and> \<not> w_use_msi w \<and> w_files w = [] \<and> (w_vectors w \<longrightarrow> m_use_msi w)"

lemma probe_irq_eq:
  assumes "probe_ready w"
  shows "\<exists>ret w'. probe_irq k w = Inr (ret, w') \<and>
    (if ret = 0 \<and> QEDU_IS_ID (k_id_reg k)
     then (\<exists>ws. w' = w\<lparr>w_locked := False, w_irq := True, w_use_msi := m_use_msi w,
                   w_files := [Attr_test_irq, Attr_inverse, Attr_version], w_warns := ws\<rparr>)
     else edu_released w w') \<and>
    (k_request_threaded_irq k = 0 \<longrightarrow> \<not> QEDU_IS_ID (k_id_reg k) \<longrightarrow> ret = 0)"
proof -
  let ?w = "(might_sleep w)\<lparr>w_irq := True\<rparr>"
  have lk: "w_locked (might_sleep w)" "\<not> w_irq (might_sleep w)" "w_locked ?w" "\<not> w_use_msi ?w" "w_files ?w = []"
    using assms by (simp_all add: probe_ready_def might_sleep_def)
  have rel: "edu_released (might_sleep w) w' = edu_released w w'" "edu_released ?w w' = edu_released w w'" for w'
    by (simp_all add: edu_released_def might_sleep_def)
  consider (noirq) "k_request_threaded_irq k \<noteq> 0"
    | (badid) "k_request_threaded_irq k = 0" "\<not> QEDU_IS_ID (k_id_reg k)"
    | (ok) "k_request_threaded_irq k = 0" "QEDU_IS_ID (k_id_reg k)" by blast
  then show ?thesis
  proof cases
    case noirq
    then show ?thesis
      using probe_fail_irq_eq [OF lk(1,2), of "k_request_threaded_irq k"] rel by (auto simp: probe_irq_def Let_def)
  next
    case badid
    then show ?thesis using probe_fail_eq [OF lk(3,4), of 0] rel by (auto simp: probe_irq_def Let_def)
  next
    case ok
    obtain ret ws w' where cr: "qedu_sysfs_create_entries k ?w = (ret, w')"
      and w': "w' = ?w\<lparr>w_files := (if ret = 0 then [Attr_test_irq, Attr_inverse, Attr_version] else []), w_warns := ws\<rparr>"
      using sysfs_create_eq [OF lk(5), of k] by blast
    show ?thesis
    proof (cases "ret = 0")
      case True
      have "w_locked w'" using lk(3) w' by simp
      then have "probe_irq k w = Inr (0, w'\<lparr>w_use_msi := m_use_msi w', w_locked := False\<rparr>)"
        using ok cr True by (simp add: probe_irq_def w_unlock_def Let_def)
      moreover have "w'\<lparr>w_use_msi := m_use_msi w', w_locked := False\<rparr> = w\<lparr>w_locked := False, w_irq := True,
          w_use_msi := m_use_msi w, w_files := [Attr_test_irq, Attr_inverse, Attr_version], w_warns := ws\<rparr>"
        using w' True by (simp add: might_sleep_def)
      ultimately show ?thesis using ok(2) by auto
    next
      case False
      have "w_locked w'" "\<not> w_use_msi w'" using lk(3,4) w' by simp_all
      from probe_fail_eq [OF this, of ret] obtain w'' where "probe_fail ret w' = Inr (ret, w'')" "edu_released w' w''" by blast
      moreover have "edu_released w' w'' = edu_released w w''"
        using w' False assms by (simp add: edu_released_def probe_ready_def might_sleep_def)
      ultimately show ?thesis using ok cr False by (simp add: probe_irq_def Let_def)
    qed
  qed
qed

lemma probe_dma_cases:
  obtains (fail) ret m where "ret \<noteq> 0" "probe_dma k w = Inl (ret, w\<lparr>m_dma_mask := m\<rparr>)"
    | (set) m where "probe_dma k w = Inr (w\<lparr>m_dma_mask := m\<rparr>)"
proof -
  define retry where
    "retry = (k_pci_set_dma_mask k (DMA_BIT_MASK (m_dma_mask w)) \<noteq> 0 \<and> m_dma_mask w \<noteq> QEDU_DEFAULT_DMA_MASK)"
  define m where "m = (if retry then QEDU_DEFAULT_DMA_MASK else m_dma_mask w)"
  have w: "(if retry then w\<lparr>m_dma_mask := QEDU_DEFAULT_DMA_MASK\<rparr> else w) = w\<lparr>m_dma_mask := m\<rparr>"
    by (simp add: m_def)
  have "probe_dma k w =
    (if retry \<and> k_pci_set_dma_mask k (DMA_BIT_MASK m) \<noteq> 0
     then Inl (k_pci_set_dma_mask k (DMA_BIT_MASK m), w\<lparr>m_dma_mask := m\<rparr>)
     else if k_pci_set_consistent_dma_mask k (DMA_BIT_MASK m) \<noteq> 0
     then Inl (k_pci_set_consistent_dma_mask k (DMA_BIT_MASK m), w\<lparr>m_dma_mask := m\<rparr>)
     else Inr (w\<lparr>m_dma_mask := m\<rparr>))"
    unfolding probe_dma_def Let_def retry_def [symmetric] w by simp
  then show ?thesis using that by (metis (full_types))
qed

lemma probe_vector_cases:
  obtains (fail) ret ws where "ret < 0" "m_use_msi w" "0 \<le> k_pci_alloc_irq_vectors k"
      "probe_vector k w = Inl (ret, w\<lparr>w_vectors := True, w_warns := ws\<rparr>)"
    | (msi) ws where "m_use_msi w" "0 \<le> k_pci_alloc_irq_vectors k"
      "probe_vector k w = Inr (w\<lparr>w_vectors := True, w_warns := ws\<rparr>)"
    | (line) ws where "probe_vector k w = Inr (w\<lparr>m_use_msi := False, w_warns := ws\<rparr>)"
proof -
  obtain ws where ws: "might_sleep w = w\<lparr>w_warns := ws\<rparr>" unfolding might_sleep_def by blast
  consider "\<not> m_use_msi w" | "m_use_msi w" "k_pci_alloc_irq_vectors k < 0"
    | "m_use_msi w" "0 \<le> k_pci_alloc_irq_vectors k" "k_pci_irq_vector k < 0"
    | "m_use_msi w" "0 \<le> k_pci_alloc_irq_vectors k" "0 \<le> k_pci_irq_vector k" by linarith
  then show ?thesis
  proof cases
    case 1
    then have "probe_vector k w = Inr (w\<lparr>m_use_msi := False, w_warns := w_warns w\<rparr>)"
      by (simp add: probe_vector_def)
    then show ?thesis by (rule line)
  next
    case 2
    then have "probe_vector k w = Inr (w\<lparr>m_use_msi := False, w_warns := ws\<rparr>)"
      by (simp add: probe_vector_def Let_def ws)
    then show ?thesis by (rule line)
  next
    case 3
    then have "probe_vector k w = Inl (k_pci_irq_vector k, w\<lparr>w_vectors := True, w_warns := ws\<rparr>)"
      by (simp add: probe_vector_def Let_def ws)
    then show ?thesis using fail 3 by blast
  next
    case 4
    then have "probe_vector k w = Inr (w\<lparr>w_vectors := True, w_warns := ws\<rparr>)"
      by (simp add: probe_vector_def Let_def ws)
    then show ?thesis using msi 4 by blast
  qed
qed

text \<open>What the two endings of the probe leave, for a world that was clean.\<close>

definition edu_held :: "edu_world \<Rightarrow> bool" where
  "edu_held w \<longleftrightarrow> w_alive w \<and> w_enabled w \<and> w_region w \<and> w_mapped w \<and> w_irq w \<and> w_drvdata w \<and> \<not> w_locked w \<and>
     w_use_msi w = m_use_msi w \<and> w_vectors w = w_use_msi w \<and> w_files w = [Attr_test_irq, Attr_inverse, Attr_version]"

definition edu_gone :: "edu_world \<Rightarrow> bool" where
  "edu_gone w \<longleftrightarrow> \<not> w_alive w \<and> \<not> w_enabled w \<and> \<not> w_region w \<and> \<not> w_mapped w \<and> \<not> w_irq w \<and> \<not> w_locked w \<and>
     \<not> w_qedu_dev w \<and> w_files w = []"

lemma probe_irq_outcome:
  assumes "probe_ready w" and "w_vectors w = m_use_msi w"
  shows "\<exists>ret w'. probe_irq k w = Inr (ret, w') \<and>
    (if ret = 0 \<and> QEDU_IS_ID (k_id_reg k) then edu_held w' else edu_gone w' \<and> w_vectors w' = w_vectors w \<and> w_drvdata w')"
proof -
  obtain ret w' where r: "probe_irq k w = Inr (ret, w')"
    and c: "if ret = 0 \<and> QEDU_IS_ID (k_id_reg k)
     then (\<exists>ws. w' = w\<lparr>w_locked := False, w_irq := True, w_use_msi := m_use_msi w,
                   w_files := [Attr_test_irq, Attr_inverse, Attr_version], w_warns := ws\<rparr>)
     else edu_released w w'"
    using probe_irq_eq [OF assms(1)] by blast
  show ?thesis
  proof (cases "ret = 0 \<and> QEDU_IS_ID (k_id_reg k)")
    case True
    with c obtain ws where "w' = w\<lparr>w_locked := False, w_irq := True, w_use_msi := m_use_msi w,
                   w_files := [Attr_test_irq, Attr_inverse, Attr_version], w_warns := ws\<rparr>" by auto
    then have "edu_held w'" using assms by (simp add: edu_held_def probe_ready_def)
    then show ?thesis using r True by auto
  next
    case False
    then have "edu_released w w'" using c by (simp only: if_False)
    then have "edu_gone w' \<and> w_vectors w' = w_vectors w \<and> w_drvdata w'"
      using assms by (simp add: edu_gone_def edu_released_def probe_ready_def)
    then show ?thesis using r False by auto
  qed
qed

text \<open>The probe up to the mapping of the registers.\<close>

definition probe_begin :: "probe_kernel \<Rightarrow> edu_world \<Rightarrow> edu_world" where
  "probe_begin k w = might_sleep (w\<lparr>w_alive := True, w_state := 0, w_use_msi := False, w_locked := True,
     w_timer := False, w_qedu_dev := True, w_timeout := m_timeout w * k_HZ k\<rparr>)"

lemma probe_begin_fields:
  assumes "edu_clean w"
  shows "w_alive (probe_begin k w)" "w_locked (probe_begin k w)" "\<not> w_irq (probe_begin k w)"
    "\<not> w_use_msi (probe_begin k w)" "w_files (probe_begin k w) = []" "\<not> w_vectors (probe_begin k w)"
    "m_use_msi (probe_begin k w) = m_use_msi w" "\<not> w_region (probe_begin k w)" "\<not> w_enabled (probe_begin k w)"
    "\<not> w_mapped (probe_begin k w)" "\<not> w_drvdata (probe_begin k w)"
  using assms by (simp_all add: probe_begin_def might_sleep_def edu_clean_def)

text \<open>The three outcomes of the probe: failed, bound to the device, and bound to nothing.\<close>

definition probe_outcome :: "probe_kernel \<Rightarrow> edu_world \<Rightarrow> int \<Rightarrow> edu_world \<Rightarrow> bool" where
  "probe_outcome k w ret w1 \<longleftrightarrow>
     (if ret = 0 \<and> QEDU_IS_ID (k_id_reg k) then edu_held w1
      else edu_gone w1 \<and> (ret = 0 \<longrightarrow> w_drvdata w1) \<and>
           (w_vectors w1 \<longrightarrow> m_use_msi w \<and> 0 \<le> k_pci_alloc_irq_vectors k))"

lemma probe_vector_outcome:
  assumes "probe_ready w'" and "\<not> w_vectors w'" and "m_use_msi w' = m_use_msi w"
  shows "\<exists>ret w1. (case probe_vector k w' of Inl (ret, w) \<Rightarrow> probe_fail_irq ret w | Inr w \<Rightarrow> probe_irq k w) = Inr (ret, w1) \<and>
    probe_outcome k w ret w1"
proof (cases rule: probe_vector_cases [of w' k])
  case (fail ret ws)
  let ?w = "w'\<lparr>w_vectors := True, w_warns := ws\<rparr>"
  have "w_locked ?w" "\<not> w_irq ?w" using assms by (simp_all add: probe_ready_def)
  from probe_fail_irq_eq [OF this, of ret]
  obtain w1 where r: "probe_fail_irq ret ?w = Inr (ret, w1)" "edu_released ?w w1" by blast
  have "probe_outcome k w ret w1"
    using r(2) fail(1-3) assms by (simp add: probe_outcome_def edu_gone_def edu_released_def probe_ready_def)
  then show ?thesis using fail r by simp
next
  case (msi ws)
  let ?w = "w'\<lparr>w_vectors := True, w_warns := ws\<rparr>"
  have "probe_ready ?w" "w_vectors ?w = m_use_msi ?w" using assms msi(1) by (simp_all add: probe_ready_def)
  from probe_irq_outcome [OF this, of k] obtain ret w1 where r: "probe_irq k ?w = Inr (ret, w1)"
    "if ret = 0 \<and> QEDU_IS_ID (k_id_reg k) then edu_held w1 else edu_gone w1 \<and> w_vectors w1 = w_vectors ?w \<and> w_drvdata w1" by blast
  have "probe_outcome k w ret w1" using r(2) msi(1,2) assms(3) by (simp add: probe_outcome_def split: if_splits)
  then show ?thesis using msi r by simp
next
  case (line ws)
  let ?w = "w'\<lparr>m_use_msi := False, w_warns := ws\<rparr>"
  have "probe_ready ?w" "w_vectors ?w = m_use_msi ?w" using assms by (simp_all add: probe_ready_def)
  from probe_irq_outcome [OF this, of k] obtain ret w1 where r: "probe_irq k ?w = Inr (ret, w1)"
    "if ret = 0 \<and> QEDU_IS_ID (k_id_reg k) then edu_held w1 else edu_gone w1 \<and> w_vectors w1 = w_vectors ?w \<and> w_drvdata w1" by blast
  have "probe_outcome k w ret w1" using r(2) assms(2) by (simp add: probe_outcome_def split: if_splits)
  then show ?thesis using line r by simp
qed

lemma probe_mapped_outcome:
  assumes "probe_ready (w'\<lparr>w_drvdata := True\<rparr>)" and "\<not> w_vectors w'" and "m_use_msi w' = m_use_msi w"
  shows "\<exists>ret w1. (case probe_dma k w' of Inl (ret, w) \<Rightarrow> probe_fail ret w
     | Inr w \<Rightarrow> (case probe_vector k (w\<lparr>w_drvdata := True\<rparr>) of
                Inl (ret, w) \<Rightarrow> probe_fail_irq ret w | Inr w \<Rightarrow> probe_irq k w)) = Inr (ret, w1) \<and>
    probe_outcome k w ret w1"
proof (cases rule: probe_dma_cases [of k w'])
  case (fail ret m)
  let ?w = "w'\<lparr>m_dma_mask := m\<rparr>"
  have "w_locked ?w" "\<not> w_use_msi ?w" using assms(1) by (simp_all add: probe_ready_def)
  from probe_fail_eq [OF this, of ret]
  obtain w1 where r: "probe_fail ret ?w = Inr (ret, w1)" "edu_released ?w w1" by blast
  have "probe_outcome k w ret w1"
    using r(2) fail(1) assms by (simp add: probe_outcome_def edu_gone_def edu_released_def probe_ready_def)
  then show ?thesis using fail r by simp
next
  case (set m)
  let ?w = "w'\<lparr>m_dma_mask := m, w_drvdata := True\<rparr>"
  have "probe_ready ?w" "\<not> w_vectors ?w" "m_use_msi ?w = m_use_msi w" using assms by (simp_all add: probe_ready_def)
  from probe_vector_outcome [OF this, of k] show ?thesis by (simp add: set)
qed

lemma qedu_probe_outcome:
  assumes "edu_clean w" and "k_kzalloc k"
  shows "\<exists>ret w1. qedu_probe k w = Inr (ret, w1) \<and> probe_outcome k w ret w1"
proof -
  note f = probe_begin_fields [OF assms(1), of k]
  let ?w = "probe_begin k w"
  have split: "qedu_probe k w =
    (if k_pci_enable_device k \<noteq> 0 then probe_end (k_pci_enable_device k) ?w
     else if k_pci_request_region k \<noteq> 0 then probe_end (k_pci_request_region k) (?w\<lparr>w_enabled := False\<rparr>)
     else let w = ?w\<lparr>w_enabled := True, w_region := True\<rparr> in
     if \<not> k_pci_iomap k then probe_fail_iomap (- ENODEV) w
     else case probe_dma k (w\<lparr>w_mapped := True\<rparr>) of
         Inl (ret, w) \<Rightarrow> probe_fail ret w
       | Inr w \<Rightarrow> (case probe_vector k (w\<lparr>w_drvdata := True\<rparr>) of
                Inl (ret, w) \<Rightarrow> probe_fail_irq ret w | Inr w \<Rightarrow> probe_irq k w))"
    using assms(2) by (simp add: qedu_probe_def w_lock_def probe_begin_def Let_def)
  show ?thesis
  proof (cases "k_pci_enable_device k = 0 \<and> k_pci_request_region k = 0 \<and> k_pci_iomap k")
    case False
    then show ?thesis
      using f by (auto simp: split probe_end_def probe_fail_iomap_def w_unlock_def probe_outcome_def edu_gone_def Let_def)
  next
    case True
    let ?m = "?w\<lparr>w_enabled := True, w_region := True, w_mapped := True\<rparr>"
    have "probe_ready (?m\<lparr>w_drvdata := True\<rparr>)" "\<not> w_vectors ?m" "m_use_msi ?m = m_use_msi w"
      using f by (simp_all add: probe_ready_def)
    from probe_mapped_outcome [OF this, of k] show ?thesis using True by (simp add: split Let_def)
  qed
qed

lemma core_probe_outcome:
  assumes "edu_clean w"
  shows "\<exists>ret w1. core_probe k w = Inr (ret, w1) \<and>
    (if ret \<noteq> 0 then edu_clean (w1\<lparr>w_vectors := False\<rparr>) \<and>
                     (w_vectors w1 \<longrightarrow> m_use_msi w \<and> 0 \<le> k_pci_alloc_irq_vectors k)
     else if QEDU_IS_ID (k_id_reg k) then edu_held w1 else edu_gone w1 \<and> w_drvdata w1)"
proof (cases "k_kzalloc k")
  case False
  then show ?thesis using assms by (simp add: core_probe_def qedu_probe_def edu_clean_def)
next
  case True
  obtain ret w1 where r: "qedu_probe k w = Inr (ret, w1)" "probe_outcome k w ret w1"
    using qedu_probe_outcome [OF assms True] by blast
  show ?thesis
    using r by (auto simp: core_probe_def probe_outcome_def edu_gone_def edu_clean_def)
qed

lemma qedu_remove_held:
  assumes "edu_held w"
  shows "\<exists>w2. qedu_remove w = Inr w2 \<and> edu_clean (w2\<lparr>w_drvdata := False\<rparr>)"
proof -
  let ?w = "(qedu_sysfs_remove_entries w)\<lparr>w_locked := True\<rparr>"
  have f: "\<not> w_locked (qedu_sysfs_remove_entries w)" "w_files ?w = []" "w_vectors ?w \<longrightarrow> w_use_msi ?w"
    using assms
    by (auto simp: edu_held_def qedu_sysfs_remove_entries_def driver_remove_file_def might_sleep_def)
  have "w_locked ?w" by simp
  from edu_remove_locked_eq [OF this] f obtain w' where "edu_remove_locked ?w = Inr w'" "w_locked w'" "\<not> w_irq w'"
    "\<not> w_mapped w'" "\<not> w_enabled w'" "\<not> w_region w'" "\<not> w_vectors w'" "w_files w' = []" by auto
  then show ?thesis
    using assms f(1) by (simp add: qedu_remove_def w_lock_def w_unlock_def edu_held_def edu_clean_def)
qed

text \<open>The edu driver meets the contract of the driver core, for devices with a right identification.\<close>

lemma edu_driver_match [simp]:
  "drv_match edu_driver s \<longleftrightarrow> slot_id s = (QEDU_VENDOR_ID, QEDU_DEVICE_ID)"
  by (simp add: drv_match_def edu_driver_def pci_ids_def QEDU_VENDOR_ID_def QEDU_DEVICE_ID_def)

lemma edu_driver_ops [simp]:
  "drv_probe edu_driver = qedu_probe" "drv_remove edu_driver = qedu_remove"
  by (simp_all add: edu_driver_def)

definition edu_right_id :: "probe_kernel \<Rightarrow> bool" where
  "edu_right_id k \<longleftrightarrow> QEDU_IS_ID (k_id_reg k)"

definition edu_left :: "edu_world \<Rightarrow> bool" where
  "edu_left w \<longleftrightarrow> edu_clean (w\<lparr>w_vectors := False\<rparr>)"

interpretation edu_core: driver_contract edu_driver edu_forget edu_right_id edu_clean
  "\<lambda>_. edu_held" "\<lambda>_. edu_left" "\<lambda>_. edu_clean"
proof
  fix w k assume w: "edu_clean w" and k: "edu_right_id k"
  obtain ret w1 where c: "core_probe k w = Inr (ret, w1)" "if ret = 0 then edu_held w1 else edu_left w1"
    using core_probe_outcome [OF w, of k] k by (auto simp: edu_right_id_def edu_left_def split: if_splits)
  then obtain w' where "qedu_probe k w = Inr (ret, w')" "w1 = (if ret = 0 then w' else edu_forget w')"
    by (auto simp: core_probe_def edu_forget_def bindS_eq_Inr)
  then show "\<exists>ret w'. drv_probe edu_driver k w = Inr (ret, w') \<and> (if ret = 0 then edu_held w' else edu_left (edu_forget w'))"
    using c(2) by (auto split: if_splits)
next
  fix w' assume "edu_held w'"
  then show "\<exists>w''. drv_remove edu_driver w' = Inr w'' \<and> edu_clean (edu_forget w'')"
    using qedu_remove_held by (simp add: edu_forget_def)
qed

subsection \<open>Theorems\<close>

text \<open>
  Whatever the kernel's calls return, the probe of a clean device ends without a fault, and an
  error return leaves nothing behind except possibly the interrupt vectors, which it can leave
  allocated only when message signalled interrupts were asked for and granted.
\<close>

lemma edu_probe_error_path:
  assumes "edu_clean w"
  shows "\<exists>ret w1. core_probe k w = Inr (ret, w1) \<and>
    (ret \<noteq> 0 \<longrightarrow> edu_clean (w1\<lparr>w_vectors := False\<rparr>) \<and>
                (w_vectors w1 \<longrightarrow> m_use_msi w \<and> 0 \<le> k_pci_alloc_irq_vectors k))"
  using core_probe_outcome [OF assms, of k] by (auto split: if_splits)

text \<open>
  C28: For a device that answers with a right identification, loading and unloading the module releases
  everything. Whatever the kernel's calls return, \<^verbatim>\<open>edu_init\<close> ends without a fault and fails only
  with nothing changed; it binds only a device of the table, and then holds every resource, with the three files
  created and no lock held; and \<^verbatim>\<open>edu_end\<close> leaves no device bound and no resource held, except for interrupt vectors that
  a failed probe left allocated.
\<close>

theorem edu_module_load_unload:
  assumes "register_ok edu_forget [k] reg" and "unregister_ok edu_forget unreg"
    and "edu_clean (slot_world s)" and "\<not> slot_bound s" and "QEDU_IS_ID (k_id_reg k)"
  shows "\<exists>ret s1 s2. edu_init reg [s] = Inr (ret, [s1]) \<and> (ret \<noteq> 0 \<longrightarrow> s1 = s) \<and>
    (slot_bound s1 \<longrightarrow> slot_id s = (QEDU_VENDOR_ID, QEDU_DEVICE_ID) \<and> edu_held (slot_world s1)) \<and>
    edu_end unreg [s1] = Inr [s2] \<and> \<not> slot_bound s2 \<and> edu_clean ((slot_world s2)\<lparr>w_vectors := False\<rparr>) \<and>
    (w_vectors (slot_world s2) \<longrightarrow> \<not> slot_bound s1)"
proof -
  obtain ret ss1 ss2 where r: "reg edu_driver [s] = Inr (ret, ss1)" "ret \<noteq> 0 \<longrightarrow> ss1 = [s]"
    "unreg edu_driver ss1 = Inr ss2" "length ss1 = 1" "length ss2 = 1"
    "\<not> slot_bound (ss2 ! 0)" "slot_bound (ss1 ! 0) \<longrightarrow> drv_match edu_driver s \<and> edu_held (slot_world (ss1 ! 0))"
    "edu_left (slot_world (ss2 ! 0)) \<and> \<not> slot_bound (ss1 ! 0) \<or> edu_clean (slot_world (ss2 ! 0))"
    using edu_core.load_unload [of "[s]" "[k]" reg unreg] assms by (auto simp: edu_right_id_def)
  obtain s1 s2 where "ss1 = [s1]" "ss2 = [s2]" using r(4,5) by (auto simp: length_Suc_conv)
  then show ?thesis
    using r by (auto simp: edu_init_def edu_end_def edu_left_def edu_clean_def)
qed

theorem edu_module_load_unload_witness:
  "\<exists>s1 s2. edu_init (\<lambda>d ss. bindS (bind_all edu_forget d (zip [demo_probe] ss)) (\<lambda>ss. Inr (0, ss))) [demo_slot] = Inr (0, [s1]) \<and>
     slot_bound s1 \<and> edu_end (unbind_all edu_forget) [s1] = Inr [s2] \<and> \<not> slot_bound s2 \<and> edu_clean (slot_world s2)"
proof -
  let ?reg = "\<lambda>d ss. bindS (bind_all edu_forget d (zip [demo_probe] ss)) (\<lambda>ss. Inr (0, ss))"
  have r: "register_ok edu_forget [demo_probe] ?reg" "unregister_ok edu_forget (unbind_all edu_forget)"
    by (simp_all add: register_ok_def unregister_ok_def)
  have c: "edu_clean (slot_world demo_slot)" "\<not> slot_bound demo_slot"
    by (simp_all add: edu_clean_def demo_slot_def demo_world_def)
  have i: "QEDU_IS_ID (k_id_reg demo_probe)" by (simp add: demo_probe_def QEDU_IS_ID_def)
  have "map_sum id (\<lambda>(r, ss). (r, map slot_bound ss)) (edu_init ?reg [demo_slot]) = Inr (0, [True])"
    using i by (simp add: edu_init_def bind_slot_def demo_slot_def
      QEDU_VENDOR_ID_def QEDU_DEVICE_ID_def demo_probe_def demo_world_def edu_probe_defs)
  then obtain s1 where s1: "edu_init ?reg [demo_slot] = Inr (0, [s1])" "slot_bound s1"
    by (cases "edu_init ?reg [demo_slot]") auto
  then show ?thesis using edu_module_load_unload [OF r c i] by (auto simp: edu_clean_def)
qed

text \<open>
  C29: A device whose identification register is wrong, on a kernel that grants everything the probe asks
  for up to there (message signalled interrupts may be refused): the probe releases everything
  and returns success. The driver core takes the device as bound, with driver data that points to the
  freed structure, and unloading the module reads freed memory.
\<close>

theorem edu_probe_bad_id:
  assumes "edu_clean (slot_world s)" and "\<not> slot_bound s" and "slot_id s = (QEDU_VENDOR_ID, QEDU_DEVICE_ID)"
    and "k_kzalloc k" and "k_pci_enable_device k = 0" and "k_pci_request_region k = 0" and "k_pci_iomap k"
    and "\<forall>m. k_pci_set_dma_mask k m = 0 \<and> k_pci_set_consistent_dma_mask k m = 0" and "0 \<le> k_pci_irq_vector k"
    and "k_request_threaded_irq k = 0" and "\<not> QEDU_IS_ID (k_id_reg k)"
  shows "\<exists>w1. qedu_probe k (slot_world s) = Inr (0, w1) \<and> \<not> w_alive w1 \<and> w_drvdata w1 \<and> \<not> w_irq w1 \<and> \<not> w_mapped w1 \<and>
    bind_slot edu_forget edu_driver k s = Inr (s\<lparr>slot_bound := True, slot_world := w1\<rparr>) \<and>
    unbind_slot edu_forget edu_driver (s\<lparr>slot_bound := True, slot_world := w1\<rparr>) = Inl NullDeref"
proof -
  have "map_sum id fst (qedu_probe k (slot_world s)) = Inr 0"
    using assms(4-11) by (simp add: edu_probe_defs)
  then obtain w1 where p: "qedu_probe k (slot_world s) = Inr (0, w1)"
    by (cases "qedu_probe k (slot_world s)") auto
  then have c: "core_probe k (slot_world s) = Inr (0, w1)" by (simp add: core_probe_def)
  then have "edu_gone w1 \<and> w_drvdata w1" using core_probe_outcome [OF assms(1), of k] assms(11) by auto
  then show ?thesis using p assms(2,3) by (simp add: bind_slot_def unbind_slot_def qedu_remove_def edu_gone_def)
qed

theorem edu_probe_bad_id_witness:
  "\<exists>w1. bind_slot edu_forget edu_driver (demo_probe\<lparr>k_id_reg := 0\<rparr>) demo_slot = Inr (demo_slot\<lparr>slot_bound := True, slot_world := w1\<rparr>) \<and>
     unbind_slot edu_forget edu_driver (demo_slot\<lparr>slot_bound := True, slot_world := w1\<rparr>) = Inl NullDeref"
  using edu_probe_bad_id [of demo_slot "demo_probe\<lparr>k_id_reg := 0\<rparr>"]
  by (auto simp: edu_clean_def demo_slot_def demo_world_def demo_probe_def QEDU_IS_ID_def QEDU_VENDOR_ID_def QEDU_DEVICE_ID_def)

end
