(* ===== verification/Jit.thy ===== *)
theory Jit
  imports Kernel_Format
begin

text \<open>
  The jit module (\<^verbatim>\<open>src/jit/jit.c\<close>): four ways to wait, the current time, and the files
  that are filled by a kernel timer or a tasklet while the reader sleeps. Time is the sequence of
  values that successive reads of \<^verbatim>\<open>jiffies\<close> return; the text handed to the sequence file
  is kept as the list of printed strings.
\<close>

section \<open>Waiting\<close>

datatype jit_files = JIT_BUSY | JIT_SCHED | JIT_QUEUE | JIT_SCHEDTO

definition time_before :: "ulong \<Rightarrow> ulong \<Rightarrow> bool" where
  "time_before a b \<longleftrightarrow> sint (a - b) < 0"

text \<open>
  The two polling loops; \<^verbatim>\<open>cpu_relax\<close> and \<^verbatim>\<open>schedule\<close> only let time pass. The
  result is the moment of the read that ended the loop.
\<close>

partial_function (option) poll_until :: "(nat \<Rightarrow> ulong) \<Rightarrow> ulong \<Rightarrow> nat \<Rightarrow> nat option" where
  "poll_until clk j1 t = (if time_before (clk t) j1 then poll_until clk j1 (Suc t) else Some t)"

definition jit_fn_text :: "ulong \<Rightarrow> ulong \<Rightarrow> ulong \<Rightarrow> string" where
  "jit_fn_text j0 j1 diff =
     fmt_i 9 (sint j0) @ '' '' @ fmt_i 9 (sint j1) @ '' [diff '' @ fmt_i 9 (sint diff) @ '']'' @ [newline]"

text \<open>
  \<open>sleep\<close> is the moment at which an interruptible sleep of the given length ends, in time or early
  because of a signal; both sleeps ignore which. A private pointer that is none of the four values is
  \<open>None\<close>. The result has the return value, the printed text, and
  the moment.
\<close>

definition jit_fn_show ::
    "(nat \<Rightarrow> ulong) \<Rightarrow> (u32 \<Rightarrow> nat \<Rightarrow> nat) \<Rightarrow> u32 \<Rightarrow> jit_files option \<Rightarrow> nat \<Rightarrow> (int \<times> string \<times> nat) option" where
  "jit_fn_show clk sleep delay data_ptr t =
     (let j0 = clk t; j1 = j0 + ucast delay in
      Option.bind
        (case data_ptr of
           Some JIT_BUSY \<Rightarrow> poll_until clk j1 (Suc t)
         | Some JIT_SCHED \<Rightarrow> poll_until clk j1 (Suc t)
         | Some JIT_QUEUE \<Rightarrow> Some (sleep delay t)
         | Some JIT_SCHEDTO \<Rightarrow> Some (sleep delay t)
         | None \<Rightarrow> Some t)
        (\<lambda>t. let t = Suc t; j1 = clk t in Some (0, jit_fn_text j0 j1 (j1 - (j0 + ucast delay)), t)))"

record timespec64 =
  tv_sec :: nat
  tv_nsec :: nat

definition jit_currenttime_show :: "ulong \<Rightarrow> u64 \<Rightarrow> timespec64 \<Rightarrow> timespec64 \<Rightarrow> int \<times> string" where
  "jit_currenttime_show j1 j2 tv1 tv2 =
     (0, ''0x'' @ fmt_x0 8 (unat j1) @ '' 0x'' @ fmt_x0 16 (unat j2) @ '' '' @
         fmt_u 10 (tv_sec tv1) @ ''.'' @ fmt_u0 6 (tv_nsec tv1) @ '' '' @
         fmt_u 40 (tv_sec tv2) @ ''.'' @ fmt_u0 9 (tv_nsec tv2) @ [newline])"

section \<open>Timer and tasklet\<close>

text \<open>What the printing functions read of the place they run in.\<close>

record jit_env =
  v_softirq :: nat
  v_hardirq :: nat
  v_in_interrupt :: nat
  v_pid :: int
  v_cpu :: int
  v_comm :: string

text \<open>
  \<open>jd_timer\<close> tells that the timer is pending, \<open>jd_tlet\<close> in which queue the tasklet
  is scheduled. The wait queue has at most one sleeper, the reader, and is part of its state.
\<close>

datatype tasklet_queue = Tasklet_normal | Tasklet_hi

record jit_data =
  jd_expires :: ulong
  jd_timer :: bool
  jd_tlet :: "tasklet_queue option"
  jd_hi :: int
  jd_prev_jiffies :: ulong
  jd_loops :: size_t

definition JIT_ASYNC_LOOPS :: size_t where "JIT_ASYNC_LOOPS = 5"

text \<open>
  A reader has not started, is about to look at the condition of its wait, sleeps, or has returned.
\<close>

datatype jit_reader = Reader_new | Reader_checks | Reader_sleeps | Reader_returned int

text \<open>
  \<open>js_data\<close> is the allocated structure, \<open>js_out\<close> what was printed to the sequence file and
  \<open>js_open\<close> whether that file still exists. \<open>js_waking\<close>: the last run has counted down to zero and has
  not yet called the wake-up; no lock keeps the reader from looking in between.
\<close>

record jit_sys =
  js_data :: "jit_data option"
  js_out :: "string list"
  js_open :: bool
  js_waking :: bool
  js_reader :: jit_reader

definition with_data :: "jit_sys \<Rightarrow> (jit_data \<Rightarrow> fault + 'a) \<Rightarrow> fault + 'a" where
  "with_data s f = (case js_data s of None \<Rightarrow> Inl NullDeref | Some d \<Rightarrow> f d)"

definition jit_seq_printf :: "string \<Rightarrow> jit_sys \<Rightarrow> fault + jit_sys" where
  "jit_seq_printf txt s = (if js_open s then Inr (s\<lparr>js_out := js_out s @ [txt]\<rparr>) else Inl NullDeref)"

definition jit_wake_up :: "jit_sys \<Rightarrow> fault + jit_sys" where
  "jit_wake_up s =
     with_data s (\<lambda>_. Inr (s\<lparr>js_waking := False, js_reader := (if js_reader s = Reader_sleeps then Reader_checks else js_reader s)\<rparr>))"

definition jit_add_timer :: "jit_data \<Rightarrow> fault + jit_data" where
  "jit_add_timer d = (if jd_timer d then Inl BugOn else Inr (d\<lparr>jd_timer := True\<rparr>))"

text \<open>Scheduling a tasklet that is already scheduled does nothing.\<close>

definition jit_tasklet_schedule :: "tasklet_queue \<Rightarrow> jit_data \<Rightarrow> jit_data" where
  "jit_tasklet_schedule q d = (if jd_tlet d = None then d\<lparr>jd_tlet := Some q\<rparr> else d)"

text \<open>Freeing the structure while a queue of the kernel points into it is a fault.\<close>

definition jit_kfree :: "jit_sys \<Rightarrow> fault + jit_sys" where
  "jit_kfree s =
     with_data s (\<lambda>d. if jd_timer d \<or> jd_tlet d \<noteq> None then Inl BugOn else Inr (s\<lparr>js_data := None\<rparr>))"

definition jit_timer_row :: "ulong \<Rightarrow> ulong \<Rightarrow> jit_env \<Rightarrow> string" where
  "jit_timer_row j delta v =
     fmt_i 9 (sint j) @ ''  '' @ fmt_i 3 (sint delta) @ ''     '' @ fmt_u 0 (v_softirq v) @ ''    '' @
     fmt_u 0 (v_hardirq v) @ ''    '' @ fmt_i 6 (v_pid v) @ ''    '' @ fmt_i 0 (v_cpu v) @ ''   '' @ v_comm v @ [newline]"

text \<open>
  \<^verbatim>\<open>jit_timer_fn\<close> up to the wake-up of the last run, which is a step of its own.
\<close>

definition jit_timer_fn :: "u32 \<Rightarrow> ulong \<Rightarrow> jit_env \<Rightarrow> jit_sys \<Rightarrow> fault + jit_sys" where
  "jit_timer_fn tdelay j v s =
     with_data s (\<lambda>d.
     bindS (jit_seq_printf (jit_timer_row j (j - jd_prev_jiffies d) v) s) (\<lambda>s.
       let d = d\<lparr>jd_loops := jd_loops d - 1\<rparr> in
       if jd_loops d \<noteq> 0
       then bindS (jit_add_timer (d\<lparr>jd_expires := jd_expires d + ucast tdelay, jd_prev_jiffies := j\<rparr>)) (\<lambda>d.
              Inr (s\<lparr>js_data := Some d\<rparr>))
       else Inr (s\<lparr>js_data := Some d, js_waking := True\<rparr>)))"

definition jit_timer_head :: string where
  "jit_timer_head = ''   time   delta  insrq    inhrq    pid   cpu command'' @ [newline]"

definition jit_timer_first :: "ulong \<Rightarrow> jit_env \<Rightarrow> string" where
  "jit_timer_first j v =
     fmt_i 9 (sint j) @ ''  '' @ fmt_i 3 0 @ ''     '' @ fmt_u 0 (v_softirq v) @ ''    '' @
     fmt_u 0 (v_hardirq v) @ ''    '' @ fmt_i 6 (v_pid v) @ ''   '' @ fmt_i 0 (v_cpu v) @ ''   '' @ v_comm v @ [newline]"

text \<open>
  \<^verbatim>\<open>jit_timer_show\<close> up to its wait. \<open>raw\<close> is what the fields of the fresh structure
  hold, which is in no queue.
\<close>

definition jit_timer_show ::
    "jit_data option \<Rightarrow> u32 \<Rightarrow> ulong \<Rightarrow> jit_env \<Rightarrow> jit_sys \<Rightarrow> fault + jit_sys" where
  "jit_timer_show raw tdelay j v s =
     (case raw of
        None \<Rightarrow> Inr (s\<lparr>js_reader := Reader_returned (- ENOMEM)\<rparr>)
      | Some d \<Rightarrow>
          bindS (jit_seq_printf jit_timer_head s) (\<lambda>s.
          bindS (jit_seq_printf (jit_timer_first j v) s) (\<lambda>s.
          bindS (jit_add_timer (d\<lparr>jd_prev_jiffies := j, jd_loops := JIT_ASYNC_LOOPS, jd_timer := False,
                                 jd_tlet := None, jd_expires := j + ucast tdelay\<rparr>)) (\<lambda>d.
            Inr (s\<lparr>js_data := Some d, js_reader := Reader_checks\<rparr>)))))"

text \<open>
  The wait and the end of both files. The wait ends when the loops are done or a signal is
  pending; then a pending signal makes the call return without freeing the structure.
\<close>

definition jit_wait :: "bool \<Rightarrow> jit_sys \<Rightarrow> fault + jit_sys" where
  "jit_wait signal_pending s =
     with_data s (\<lambda>d.
       if jd_loops d \<noteq> 0 \<and> \<not> signal_pending then Inr (s\<lparr>js_reader := Reader_sleeps\<rparr>)
       else if signal_pending then Inr (s\<lparr>js_reader := Reader_returned (- ERESTARTSYS)\<rparr>)
       else bindS (jit_kfree s) (\<lambda>s. Inr (s\<lparr>js_reader := Reader_returned 0\<rparr>)))"

definition jit_tasklet_row :: "ulong \<Rightarrow> ulong \<Rightarrow> nat \<Rightarrow> jit_env \<Rightarrow> string" where
  "jit_tasklet_row j delta in_interrupt v =
     fmt_i 9 (sint j) @ ''  '' @ fmt_i 3 (sint delta) @ ''     '' @ fmt_u 0 in_interrupt @ ''    '' @
     fmt_i 6 (v_pid v) @ ''   '' @ fmt_i 0 (v_cpu v) @ ''   '' @ v_comm v @ [newline]"

text \<open>\<^verbatim>\<open>jit_tasklet_fn\<close>, likewise up to the wake-up of the last run.\<close>

definition jit_tasklet_fn :: "ulong \<Rightarrow> jit_env \<Rightarrow> jit_sys \<Rightarrow> fault + jit_sys" where
  "jit_tasklet_fn j v s =
     with_data s (\<lambda>d.
     bindS (jit_seq_printf (jit_tasklet_row j (j - jd_prev_jiffies d) (v_in_interrupt v) v) s) (\<lambda>s.
       let d = d\<lparr>jd_loops := jd_loops d - 1\<rparr> in
       if jd_loops d \<noteq> 0
       then let d = d\<lparr>jd_prev_jiffies := j\<rparr> in
            Inr (s\<lparr>js_data := Some (if jd_hi d \<noteq> 0 then jit_tasklet_schedule Tasklet_hi d
                                   else jit_tasklet_schedule Tasklet_normal d)\<rparr>)
       else Inr (s\<lparr>js_data := Some d, js_waking := True\<rparr>)))"

definition jit_tasklet_head :: string where
  "jit_tasklet_head = ''   time   delta  inirq    pid   cpu command'' @ [newline]"

definition jit_tasklet_show ::
    "jit_data option \<Rightarrow> int \<Rightarrow> ulong \<Rightarrow> jit_env \<Rightarrow> jit_sys \<Rightarrow> fault + jit_sys" where
  "jit_tasklet_show raw hi j v s =
     (case raw of
        None \<Rightarrow> Inr (s\<lparr>js_reader := Reader_returned (- ENOMEM)\<rparr>)
      | Some d \<Rightarrow>
          bindS (jit_seq_printf jit_tasklet_head s) (\<lambda>s.
          bindS (jit_seq_printf (jit_tasklet_row j 0 (if v_in_interrupt v \<noteq> 0 then 1 else 0) v) s) (\<lambda>s.
            let d = d\<lparr>jd_prev_jiffies := j, jd_loops := JIT_ASYNC_LOOPS, jd_timer := False, jd_tlet := None,
                    jd_hi := hi\<rparr>
            in Inr (s\<lparr>js_data := Some (if hi \<noteq> 0 then jit_tasklet_schedule Tasklet_hi d else jit_tasklet_schedule Tasklet_normal d),
                      js_reader := Reader_checks\<rparr>))))"

section \<open>Creating and removing the files\<close>

text \<open>
  The open functions and the tables of the files. \<^verbatim>\<open>PDE_DATA\<close> is the data of the directory
  entry; for the delay files it is one of the enumerators as a number.
\<close>

definition jit_fn_open :: "ulong \<Rightarrow> seq_opened" where
  "jit_fn_open pde_data = Single_open Show_jit_fn pde_data"

definition jit_fn_fops :: proc_ops where
  "jit_fn_fops = \<lparr>proc_open = jit_fn_open, proc_read = Fn_seq_read, proc_lseek = Fn_seq_lseek, proc_release = Fn_single_release\<rparr>"

definition jit_currenttime_open :: "ulong \<Rightarrow> seq_opened" where
  "jit_currenttime_open _ = Single_open Show_jit_currenttime 0"

definition jit_currenttime_fops :: proc_ops where
  "jit_currenttime_fops = \<lparr>proc_open = jit_currenttime_open, proc_read = Fn_seq_read, proc_lseek = Fn_seq_lseek, proc_release = Fn_single_release\<rparr>"

definition jit_timer_open :: "ulong \<Rightarrow> seq_opened" where
  "jit_timer_open _ = Single_open Show_jit_timer 0"

definition jit_timer_fops :: proc_ops where
  "jit_timer_fops = \<lparr>proc_open = jit_timer_open, proc_read = Fn_seq_read, proc_lseek = Fn_seq_lseek, proc_release = Fn_single_release\<rparr>"

definition jit_tasklet_open :: "ulong \<Rightarrow> seq_opened" where
  "jit_tasklet_open pde_data = Single_open Show_jit_tasklet pde_data"

definition jit_tasklet_fops :: proc_ops where
  "jit_tasklet_fops = \<lparr>proc_open = jit_tasklet_open, proc_read = Fn_seq_read, proc_lseek = Fn_seq_lseek, proc_release = Fn_single_release\<rparr>"

fun jit_files_num :: "jit_files \<Rightarrow> ulong" where
  "jit_files_num JIT_BUSY = 0"
| "jit_files_num JIT_SCHED = 1"
| "jit_files_num JIT_QUEUE = 2"
| "jit_files_num JIT_SCHEDTO = 3"

text \<open>The cast of the private data to the enumeration; other numbers match no case of the switch.\<close>

definition jit_files_of :: "ulong \<Rightarrow> jit_files option" where
  "jit_files_of p = find (\<lambda>f. jit_files_num f = p) [JIT_BUSY, JIT_SCHED, JIT_QUEUE, JIT_SCHEDTO]"

definition jit_entry :: "string \<Rightarrow> proc_ops \<Rightarrow> ulong \<Rightarrow> string \<times> proc_entry" where
  "jit_entry name ops dat = (name, \<lparr>pe_owner = Proc_jit, pe_ops = ops, pe_data = dat\<rparr>)"

definition jit_entries :: "(string \<times> proc_entry) list" where
  "jit_entries =
     [jit_entry ''currentime'' jit_currenttime_fops 0,
      jit_entry ''jitbusy'' jit_fn_fops (jit_files_num JIT_BUSY),
      jit_entry ''jitsched'' jit_fn_fops (jit_files_num JIT_SCHED),
      jit_entry ''jitqueue'' jit_fn_fops (jit_files_num JIT_QUEUE),
      jit_entry ''jitschedto'' jit_fn_fops (jit_files_num JIT_SCHEDTO),
      jit_entry ''jitimer'' jit_timer_fops 0,
      jit_entry ''jitasklet'' jit_tasklet_fops 0,
      jit_entry ''jitasklethi'' jit_tasklet_fops 1]"

definition jit_init :: "proc_dir \<Rightarrow> int \<times> proc_dir" where
  "jit_init d = (0, fold proc_create jit_entries d)"

definition jit_names :: "string list" where
  "jit_names = [''currentime'', ''jitbusy'', ''jitsched'', ''jitqueue'', ''jitschedto'', ''jitimer'', ''jitasklet'', ''jitasklethi'']"

definition jit_cleanup :: "proc_dir \<Rightarrow> proc_dir" where
  "jit_cleanup d = fold remove_proc_entry jit_names d"

section \<open>Interleavings\<close>

text \<open>
  The reader's steps, the runs of the timer function (once the expiry time is reached) and of the
  tasklet, the wake-up by the last of them, a signal, and the closing of the file. \<open>None\<close>: the action is not possible.
\<close>

datatype jit_action = RunTimer ulong jit_env | RunTasklet ulong jit_env | RunWake | ReaderCheck | ReaderSignal | CloseFile

fun jit_exec :: "u32 \<Rightarrow> jit_action \<Rightarrow> jit_sys \<Rightarrow> (fault + jit_sys) option" where
  "jit_exec tdelay (RunTimer j v) s =
     (case js_data s of
        None \<Rightarrow> None
      | Some d \<Rightarrow> if jd_timer d \<and> \<not> time_before j (jd_expires d)
                  then Some (jit_timer_fn tdelay j v (s\<lparr>js_data := Some (d\<lparr>jd_timer := False\<rparr>)\<rparr>)) else None)"
| "jit_exec tdelay (RunTasklet j v) s =
     (case js_data s of
        None \<Rightarrow> None
      | Some d \<Rightarrow> if jd_tlet d \<noteq> None
                  then Some (jit_tasklet_fn j v (s\<lparr>js_data := Some (d\<lparr>jd_tlet := None\<rparr>)\<rparr>)) else None)"
| "jit_exec tdelay RunWake s = (if js_waking s then Some (jit_wake_up s) else None)"
| "jit_exec tdelay ReaderCheck s = (if js_reader s = Reader_checks then Some (jit_wait False s) else None)"
| "jit_exec tdelay ReaderSignal s =
     (if js_reader s = Reader_checks \<or> js_reader s = Reader_sleeps then Some (jit_wait True s) else None)"
| "jit_exec tdelay CloseFile s =
     (case js_reader s of
        Reader_returned r \<Rightarrow> if js_open s then Some (Inr (s\<lparr>js_open := False\<rparr>)) else None
      | _ \<Rightarrow> None)"

text \<open>The steps of runs in which no signal is sent to the reader.\<close>

inductive jit_step :: "u32 \<Rightarrow> jit_sys \<Rightarrow> jit_sys \<Rightarrow> bool" for tdelay where
  jit_step_exec: "a \<noteq> ReaderSignal \<Longrightarrow> jit_exec tdelay a s = Some (Inr s') \<Longrightarrow> jit_step tdelay s s'"

text \<open>A schedule, until it ends, faults, or an action is not possible.\<close>

fun jit_schedule :: "u32 \<Rightarrow> jit_action list \<Rightarrow> jit_sys \<Rightarrow> (fault + jit_sys) option" where
  "jit_schedule tdelay [] s = Some (Inr s)"
| "jit_schedule tdelay (a # as) s =
     (case jit_exec tdelay a s of Some (Inr s') \<Rightarrow> jit_schedule tdelay as s' | r \<Rightarrow> r)"

end
