(* ===== verification/Jit_Props.thy ===== *)
theory Jit_Props
  imports Jit
begin

text \<open>
  Correctness of the jit module: the four waits end and print how long they lasted, the polling ones not
  less than asked for, and the files filled by a timer or a tasklet are complete under every
  interleaving without signals, although the last wake-up may find its structure freed. A signal
  leaves the structure allocated and its timer running.
\<close>

section \<open>Waiting\<close>

text \<open>
  How the values read from \<^verbatim>\<open>jiffies\<close> develop: \<open>ticks t\<close> is the number of ticks since
  the first read. It never decreases, passes every bound, and two successive reads are less than
  $2^{62}$ ticks apart.
\<close>

definition clock_ok :: "(nat \<Rightarrow> ulong) \<Rightarrow> (nat \<Rightarrow> nat) \<Rightarrow> bool" where
  "clock_ok clk ticks \<longleftrightarrow> (\<forall>t. clk t = clk 0 + of_nat (ticks t)) \<and> (\<forall>t. ticks t \<le> ticks (Suc t)) \<and>
     (\<forall>n. \<exists>t. n \<le> ticks t) \<and> (\<forall>t. ticks (Suc t) < ticks t + 2 ^ 62)"

text \<open>
  A sleep may end at any moment after its start, early or late, but not $2^{62}$ ticks after the time
  it was asked for.
\<close>

definition sleep_ok :: "(nat \<Rightarrow> nat) \<Rightarrow> (u32 \<Rightarrow> nat \<Rightarrow> nat) \<Rightarrow> bool" where
  "sleep_ok ticks sleep \<longleftrightarrow> (\<forall>d t. t \<le> sleep d t \<and> ticks (sleep d t) < ticks t + unat d + 2 ^ 62)"

lemma sint_of_int_small:
  assumes "- (2 ^ 63) \<le> k" and "k < 2 ^ 63"
  shows "sint (word_of_int k :: ulong) = k"
proof -
  have "sint (word_of_int k :: ulong) = signed_take_bit (LENGTH(64) - Suc 0) k"
    by (simp only: signed_of_int of_int_eq_id id_apply)
  also have "\<dots> = k" by (rule signed_take_bit_int_eq_self) (use assms in simp_all)
  finally show ?thesis .
qed

lemma time_before_ticks:
  assumes "n < 2 ^ 63" and "m < 2 ^ 63"
  shows "time_before (j + of_nat n :: ulong) (j + of_nat m) \<longleftrightarrow> n < m"
proof -
  have eq: "j + of_nat n - (j + of_nat m) = (word_of_int (int n - int m) :: ulong)"
    by simp
  have nm: "int n < 2 ^ 63" "int m < 2 ^ 63" using assms by (metis of_nat_less_numeral_power_cancel_iff)+
  have "sint (word_of_int (int n - int m) :: ulong) = int n - int m"
    by (rule sint_of_int_small) (use nm in linarith)+
  then show ?thesis unfolding time_before_def eq by linarith
qed

text \<open>The polling loop ends at the first read that has reached the time.\<close>

lemma poll_until_ends:
  assumes ok: "clock_ok clk ticks" and t: "ticks t < ticks t0 + D + 2 ^ 62" "t0 \<le> t" and D: "D < 2 ^ 32"
  shows "\<exists>t'\<ge>t. poll_until clk (clk t0 + of_nat D) t = Some t' \<and> ticks t0 + D \<le> ticks t' \<and> ticks t' < ticks t0 + D + 2 ^ 62"
proof -
  have mono: "ticks a \<le> ticks b" if "a \<le> b" for a b
    by (rule lift_Suc_mono_le [of ticks, OF _ that]) (use ok clock_ok_def in blast)
  have clk: "clk u = clk t0 + of_nat (ticks u - ticks t0)" if "t0 \<le> u" for u
  proof -
    have "clk u = clk 0 + of_nat (ticks t0 + (ticks u - ticks t0))"
      using ok mono [OF that] unfolding clock_ok_def by (metis le_add_diff_inverse)
    also have "\<dots> = clk 0 + of_nat (ticks t0) + of_nat (ticks u - ticks t0)" by (simp only: of_nat_add add.assoc)
    also have "clk 0 + of_nat (ticks t0) = clk t0" using ok unfolding clock_ok_def by metis
    finally show ?thesis .
  qed
  obtain n where n: "ticks t0 + D \<le> ticks n" using ok unfolding clock_ok_def by blast
  show ?thesis
    using t
  proof (induction "n - t" arbitrary: t rule: less_induct)
    case less
    have "ticks t0 \<le> ticks t" using mono less.prems(2) by blast
    then have "ticks t - ticks t0 < D \<longleftrightarrow> ticks t < ticks t0 + D" by linarith
    moreover have "(2 :: nat) ^ 63 = 2 ^ 62 + 2 ^ 62" "(2 :: nat) ^ 32 \<le> 2 ^ 62" by simp_all
    then have "ticks t - ticks t0 < 2 ^ 63" "D < 2 ^ 63" using less.prems(1) D by linarith+
    ultimately have tb: "time_before (clk t) (clk t0 + of_nat D) \<longleftrightarrow> ticks t < ticks t0 + D"
      using time_before_ticks unfolding clk [OF less.prems(2)] by blast
    show ?case
    proof (cases "ticks t < ticks t0 + D")
      case True
      have "\<not> n \<le> t" using True n mono [of n t] by linarith
      then have "n - Suc t < n - t" by linarith
      moreover have "ticks (Suc t) < ticks t + 2 ^ 62" using ok unfolding clock_ok_def by blast
      then have "ticks (Suc t) < ticks t0 + D + 2 ^ 62" using True by linarith
      moreover have "t0 \<le> Suc t" using less.prems(2) by linarith
      ultimately obtain t' where "Suc t \<le> t'" "poll_until clk (clk t0 + of_nat D) (Suc t) = Some t'"
        "ticks t0 + D \<le> ticks t'" "ticks t' < ticks t0 + D + 2 ^ 62"
        using less.hyps by blast
      moreover have "poll_until clk (clk t0 + of_nat D) t = poll_until clk (clk t0 + of_nat D) (Suc t)"
        by (subst poll_until.simps) (simp add: tb True)
      ultimately show ?thesis by (metis Suc_leD)
    next
      case False
      have "poll_until clk (clk t0 + of_nat D) t = Some t" by (subst poll_until.simps) (simp add: tb False)
      then show ?thesis using False less.prems by (intro exI [of _ t]) simp
    qed
  qed
qed

lemma clock_mono:
  assumes "clock_ok clk ticks" and "a \<le> b"
  shows "ticks a \<le> ticks b"
  by (rule lift_Suc_mono_le [of ticks, OF _ assms(2)]) (use assms(1) clock_ok_def in blast)

lemma clock_diff:
  assumes "clock_ok clk ticks"
  shows "clk t - (clk t0 + ucast (delay :: u32)) = word_of_int (int (ticks t) - int (ticks t0) - int (unat delay))"
proof -
  have "clk t = clk 0 + of_nat (ticks t)" "clk t0 = clk 0 + of_nat (ticks t0)"
    using assms unfolding clock_ok_def by blast+
  moreover have "(ucast delay :: ulong) = of_nat (unat delay)" by simp
  ultimately show ?thesis by simp
qed

text \<open>The wait of each file ends, that of a polling one at a moment that is late enough.\<close>

definition jit_polls :: "jit_files option \<Rightarrow> bool" where
  "jit_polls w \<longleftrightarrow> w = Some JIT_BUSY \<or> w = Some JIT_SCHED"

lemma jit_fn_wait_ends:
  assumes "clock_ok clk ticks" and "sleep_ok ticks sleep"
  shows "\<exists>u. (case w of Some JIT_BUSY \<Rightarrow> poll_until clk (clk t + ucast delay) (Suc t)
         | Some JIT_SCHED \<Rightarrow> poll_until clk (clk t + ucast delay) (Suc t)
         | Some JIT_QUEUE \<Rightarrow> Some (sleep delay t) | Some JIT_SCHEDTO \<Rightarrow> Some (sleep delay t) | None \<Rightarrow> Some t) = Some u \<and>
     t \<le> u \<and> ticks u < ticks t + unat delay + 2 ^ 62 \<and> (jit_polls w \<longrightarrow> ticks t + unat delay \<le> ticks u)"
proof -
  have "unat delay < 2 ^ 32" using unsigned_less [of delay, where 'a = nat] by simp
  moreover have "ticks (Suc t) < ticks t + 2 ^ 62" using assms(1) unfolding clock_ok_def by blast
  then have "ticks (Suc t) < ticks t + unat delay + 2 ^ 62" by linarith
  ultimately have "\<exists>u\<ge>Suc t. poll_until clk (clk t + of_nat (unat delay)) (Suc t) = Some u \<and>
      ticks t + unat delay \<le> ticks u \<and> ticks u < ticks t + unat delay + 2 ^ 62"
    by (intro poll_until_ends [OF assms(1)]) simp_all
  then obtain u where "t \<le> u" "poll_until clk (clk t + ucast delay) (Suc t) = Some u"
      "ticks t + unat delay \<le> ticks u" "ticks u < ticks t + unat delay + 2 ^ 62" by (auto dest: Suc_leD)
  moreover have "t \<le> sleep delay t" "ticks (sleep delay t) < ticks t + unat delay + 2 ^ 62"
    using assms(2) unfolding sleep_ok_def by blast+
  moreover have "ticks t < ticks t + unat delay + 2 ^ 62" by simp
  ultimately show ?thesis
    by (cases w rule: option.exhaust; cases "the w") (auto simp: jit_polls_def)
qed

text \<open>
  C33: Each of the delay files returns 0, whatever the delay and the value of the tick counter, wrapped
  or not, and whenever a sleep ends, early on a signal or late: the difference it prints is, with its
  sign, the number of ticks by which the wait was longer than asked for. The two polling files never
  return early.
\<close>

theorem jit_fn_show_delays:
  assumes "clock_ok clk ticks" and "sleep_ok ticks sleep"
  shows "\<exists>t' d. jit_fn_show clk sleep delay w t = Some (0, jit_fn_text (clk t) (clk t') d, t') \<and>
     sint d = int (ticks t') - int (ticks t) - int (unat delay) \<and> (jit_polls w \<longrightarrow> 0 \<le> sint d)"
proof -
  from jit_fn_wait_ends [OF assms, where w = w and t = t and delay = delay] obtain u where
    u: "(case w of Some JIT_BUSY \<Rightarrow> poll_until clk (clk t + ucast delay) (Suc t)
         | Some JIT_SCHED \<Rightarrow> poll_until clk (clk t + ucast delay) (Suc t)
         | Some JIT_QUEUE \<Rightarrow> Some (sleep delay t) | Some JIT_SCHEDTO \<Rightarrow> Some (sleep delay t) | None \<Rightarrow> Some t) = Some u"
    and b: "t \<le> u" "ticks u < ticks t + unat delay + 2 ^ 62" "jit_polls w \<longrightarrow> ticks t + unat delay \<le> ticks u" by blast
  let ?D = "int (ticks (Suc u)) - int (ticks t) - int (unat delay)"
  have mono: "ticks t \<le> ticks (Suc u)" "ticks u \<le> ticks (Suc u)" using b(1) clock_mono [OF assms(1)] by simp_all
  have "ticks (Suc u) < ticks u + 2 ^ 62" using assms(1) unfolding clock_ok_def by blast
  moreover have "(2 :: nat) ^ 63 = 2 ^ 62 + 2 ^ 62" by simp
  ultimately have "ticks (Suc u) < ticks t + unat delay + 2 ^ 63" using b(2) by linarith
  then have "int (ticks (Suc u)) < int (ticks t + unat delay + 2 ^ 63)" by (simp only: of_nat_less_iff)
  then have "?D < 2 ^ 63" by (simp only: of_nat_add of_nat_power of_nat_numeral)
  moreover have "unat delay < 2 ^ 32" using unsigned_less [of delay, where 'a = nat] by simp
  then have "int (unat delay) < 2 ^ 32" by (simp only: of_nat_less_numeral_power_cancel_iff)
  moreover have "(2 :: int) ^ 32 \<le> 2 ^ 63" by simp
  ultimately have D: "sint (word_of_int ?D :: ulong) = ?D" using mono(1) by (intro sint_of_int_small) linarith+
  have "jit_fn_show clk sleep delay w t = Some (0, jit_fn_text (clk t) (clk (Suc u)) (word_of_int ?D), Suc u)"
    unfolding jit_fn_show_def Let_def u by (simp only: bind.bind_lunit clock_diff [OF assms(1)])
  moreover have "0 \<le> ?D" if "jit_polls w" using b(3) that mono(2) by linarith
  ultimately show ?thesis using D by (intro exI [of _ "Suc u"] exI [of _ "word_of_int ?D"]) (simp only: simp_thms, blast)
qed

theorem jit_fn_show_delays_witness:
  "\<exists>t' d. jit_fn_show (\<lambda>t. of_nat t - 3) (\<lambda>d t. t + 2) 7 (Some JIT_BUSY) 0 = Some (0, jit_fn_text (- 3) (of_nat t' - 3) d, t') \<and>
     sint d = int t' - 7 \<and> 0 \<le> sint d"
proof -
  have c: "clock_ok (\<lambda>t. of_nat t - 3 :: ulong) (\<lambda>t. t)" by (auto simp: clock_ok_def)
  have s: "sleep_ok (\<lambda>t. t) (\<lambda>d t. t + 2)" by (simp add: sleep_ok_def)
  show ?thesis using jit_fn_show_delays [OF c s, where delay = 7 and w = "Some JIT_BUSY" and t = 0] by (auto simp: jit_polls_def)
qed

section \<open>Timer and tasklet\<close>

datatype jit_kind = By_timer | By_tasklet

fun jit_row :: "jit_kind \<Rightarrow> ulong \<Rightarrow> ulong \<Rightarrow> jit_env \<Rightarrow> string" where
  "jit_row By_timer j delta v = jit_timer_row j delta v"
| "jit_row By_tasklet j delta v = jit_tasklet_row j delta (v_in_interrupt v) v"

text \<open>The rows of a series of runs: each shows its time and the time since the run before.\<close>

fun jit_rows :: "jit_kind \<Rightarrow> ulong \<Rightarrow> (ulong \<times> jit_env) list \<Rightarrow> string list" where
  "jit_rows kd prev [] = []"
| "jit_rows kd prev ((j, v) # runs) = jit_row kd j (j - prev) v # jit_rows kd j runs"

fun jit_last :: "ulong \<Rightarrow> (ulong \<times> jit_env) list \<Rightarrow> ulong" where
  "jit_last prev [] = prev"
| "jit_last prev ((j, v) # runs) = jit_last j runs"

lemma jit_rows_snoc [simp]:
  "jit_rows kd prev (runs @ [(j, v)]) = jit_rows kd prev runs @ [jit_row kd j (j - jit_last prev runs) v]"
  by (induction kd prev runs rule: jit_rows.induct) simp_all

lemma jit_last_snoc [simp]: "jit_last prev (runs @ [(j, v)]) = j"
  by (induction prev runs rule: jit_last.induct) simp_all

text \<open>The first two texts of a file.\<close>

fun jit_begin :: "jit_kind \<Rightarrow> ulong \<Rightarrow> jit_env \<Rightarrow> string list" where
  "jit_begin By_timer j v = [jit_timer_head, jit_timer_first j v]"
| "jit_begin By_tasklet j v = [jit_tasklet_head, jit_tasklet_row j 0 (if v_in_interrupt v \<noteq> 0 then 1 else 0) v]"

definition jit_file :: "jit_kind \<Rightarrow> ulong \<Rightarrow> jit_env \<Rightarrow> nat \<Rightarrow> string list \<Rightarrow> bool" where
  "jit_file kd j v n out \<longleftrightarrow> (\<exists>runs. length runs = n \<and> out = jit_begin kd j v @ jit_rows kd j runs)"

definition jit_queued :: "jit_kind \<Rightarrow> bool \<Rightarrow> jit_data \<Rightarrow> bool" where
  "jit_queued kd q d \<longleftrightarrow> jd_timer d = (q \<and> kd = By_timer) \<and> (jd_tlet d \<noteq> None) = (q \<and> kd = By_tasklet)"

text \<open>The invariant of the runs without signals.\<close>

definition jit_inv :: "jit_kind \<Rightarrow> ulong \<Rightarrow> jit_env \<Rightarrow> jit_sys \<Rightarrow> bool" where
  "jit_inv kd j0 v0 s \<longleftrightarrow>
     (if js_reader s = Reader_checks \<or> js_reader s = Reader_sleeps
      then js_open s \<and>
        (\<exists>d runs. js_data s = Some d \<and> js_out s = jit_begin kd j0 v0 @ jit_rows kd j0 runs \<and>
           unat (jd_loops d) + length runs = 5 \<and> jit_queued kd (jd_loops d \<noteq> 0) d \<and>
           (jd_loops d \<noteq> 0 \<longrightarrow> jd_prev_jiffies d = jit_last j0 runs \<and> \<not> js_waking s) \<and>
           (js_reader s = Reader_sleeps \<longrightarrow> jd_loops d \<noteq> 0 \<or> js_waking s))
      else js_reader s = Reader_returned 0 \<and> js_data s = None \<and> jit_file kd j0 v0 5 (js_out s))"

text \<open>The state when a reader of a fresh file has started the timer or the tasklet.\<close>

fun jit_started :: "jit_kind \<Rightarrow> u32 \<Rightarrow> ulong \<Rightarrow> jit_env \<Rightarrow> jit_sys \<Rightarrow> bool" where
  "jit_started By_timer tdelay j v s \<longleftrightarrow>
     (\<exists>raw s0. js_out s0 = [] \<and> js_open s0 \<and> \<not> js_waking s0 \<and> jit_timer_show (Some raw) tdelay j v s0 = Inr s)"
| "jit_started By_tasklet tdelay j v s \<longleftrightarrow>
     (\<exists>raw hi s0. js_out s0 = [] \<and> js_open s0 \<and> \<not> js_waking s0 \<and> jit_tasklet_show (Some raw) hi j v s0 = Inr s)"

lemma jit_started_inv: "jit_started kd tdelay j v s \<Longrightarrow> jit_inv kd j v s"
  by (cases kd)
    (auto simp: jit_timer_show_def jit_tasklet_show_def jit_seq_printf_def jit_add_timer_def jit_tasklet_schedule_def
       jit_inv_def jit_queued_def JIT_ASYNC_LOOPS_def Let_def intro!: exI [of _ "[]"])

text \<open>How many steps are left at most; a wake-up is to come until it has happened.\<close>

definition jit_left :: "jit_sys \<Rightarrow> nat" where
  "jit_left s =
     (let loops = (case js_data s of None \<Rightarrow> 0 | Some d \<Rightarrow> unat (jd_loops d)); wake = (loops \<noteq> 0 \<or> js_waking s) in
      loops + of_bool wake + (case js_reader s of Reader_checks \<Rightarrow> 1 + of_bool wake | Reader_sleeps \<Rightarrow> 1 | _ \<Rightarrow> 0) +
      of_bool (js_open s))"

text \<open>One run of the function of either kind.\<close>

lemma jit_run_inv:
  assumes inv: "jit_inv kd j0 v0 s" and d: "js_data s = Some d" and q: "jit_queued kd True d"
    and d': "d' = d\<lparr>jd_timer := False, jd_tlet := None\<rparr>"
    and r: "r = (case kd of By_timer \<Rightarrow> jit_timer_fn tdelay j v (s\<lparr>js_data := Some d'\<rparr>)
                 | By_tasklet \<Rightarrow> jit_tasklet_fn j v (s\<lparr>js_data := Some d'\<rparr>))"
  shows "\<exists>s'. r = Inr s' \<and> jit_inv kd j0 v0 s' \<and> jit_left s' < jit_left s \<and> js_reader s' = js_reader s \<and> js_data s' \<noteq> None"
proof -
  have rd: "js_reader s = Reader_checks \<or> js_reader s = Reader_sleeps" using inv d by (auto simp: jit_inv_def split: if_splits)
  obtain runs where runs: "js_open s" "js_out s = jit_begin kd j0 v0 @ jit_rows kd j0 runs"
    "unat (jd_loops d) + length runs = 5" "jit_queued kd (jd_loops d \<noteq> 0) d"
    "jd_loops d \<noteq> 0 \<Longrightarrow> jd_prev_jiffies d = jit_last j0 runs \<and> \<not> js_waking s"
    using inv d rd by (auto simp: jit_inv_def)
  have nz: "jd_loops d \<noteq> 0" using runs(4) q by (cases kd) (auto simp: jit_queued_def)
  then have nw: "\<not> js_waking s" using runs(5) by blast
  have u: "unat (jd_loops d - 1) = unat (jd_loops d) - 1" "0 < unat (jd_loops d)"
    using nz by (simp_all add: unat_minus_one unat_gt_0)
  let ?out = "js_out s @ [jit_row kd j (j - jd_prev_jiffies d) v]"
  have out: "?out = jit_begin kd j0 v0 @ jit_rows kd j0 (runs @ [(j, v)])" using runs(2,5) nz by simp
  show ?thesis
  proof (cases "jd_loops d - 1 = 0")
    case False
    have "\<exists>d2. r = Inr (s\<lparr>js_out := ?out, js_data := Some d2\<rparr>) \<and> jd_loops d2 = jd_loops d - 1 \<and>
        jd_prev_jiffies d2 = j \<and> jit_queued kd True d2"
      using False runs(1)
      by (cases kd) (auto simp: r d' jit_timer_fn_def jit_tasklet_fn_def with_data_def jit_seq_printf_def
          jit_add_timer_def jit_tasklet_schedule_def jit_queued_def Let_def)
    then obtain d2 where d2: "r = Inr (s\<lparr>js_out := ?out, js_data := Some d2\<rparr>)" "jd_loops d2 = jd_loops d - 1"
        "jd_prev_jiffies d2 = j" "jit_queued kd True d2" by blast
    have "jit_inv kd j0 v0 (s\<lparr>js_out := ?out, js_data := Some d2\<rparr>)"
      using rd runs(1,3) nw d2(2-4) False u
      by (auto simp: jit_inv_def out intro!: exI [of _ "runs @ [(j, v)]"] simp del: jit_rows_snoc)
    moreover have "jit_left (s\<lparr>js_out := ?out, js_data := Some d2\<rparr>) < jit_left s"
      using u d d2(2) rd by (auto simp: jit_left_def Let_def)
    ultimately show ?thesis using d2(1) by auto
  next
    case True
    let ?d2 = "d'\<lparr>jd_loops := 0\<rparr>"
    let ?s = "s\<lparr>js_data := Some ?d2, js_out := ?out, js_waking := True\<rparr>"
    have "r = Inr ?s"
      using True runs(1)
      by (cases kd) (auto simp: r d' jit_timer_fn_def jit_tasklet_fn_def with_data_def jit_seq_printf_def Let_def)
    moreover have "jit_inv kd j0 v0 ?s"
      using rd runs(1,3) u True
      by (auto simp: jit_inv_def out jit_queued_def d' intro!: exI [of _ "runs @ [(j, v)]"] simp del: jit_rows_snoc)
    moreover have "jit_left ?s < jit_left s" using u d rd by (auto simp: jit_left_def Let_def)
    ultimately show ?thesis by auto
  qed
qed

text \<open>The wake-up by the last run, while the structure is there.\<close>

lemma jit_wake_inv:
  assumes inv: "jit_inv kd j0 v0 s" and w: "js_waking s" and "js_data s \<noteq> None"
  shows "\<exists>s'. jit_wake_up s = Inr s' \<and> jit_inv kd j0 v0 s' \<and> jit_left s' < jit_left s \<and> \<not> js_waking s' \<and>
    (js_reader s = Reader_sleeps \<longrightarrow> js_reader s' = Reader_checks) \<and> (\<exists>d. js_data s' = Some d \<and> jd_loops d = 0)"
proof -
  have rd: "js_reader s = Reader_checks \<or> js_reader s = Reader_sleeps" using assms by (auto simp: jit_inv_def split: if_splits)
  then obtain d where d: "js_data s = Some d" "jd_loops d = 0" using inv w by (auto simp: jit_inv_def)
  show ?thesis
    using inv w d rd by (auto simp: jit_wake_up_def with_data_def jit_inv_def jit_left_def)
qed

lemma jit_check_inv:
  assumes inv: "jit_inv kd j0 v0 s" and rd: "js_reader s = Reader_checks"
  shows "\<exists>s'. jit_wait False s = Inr s' \<and> jit_inv kd j0 v0 s' \<and> jit_left s' < jit_left s"
proof -
  obtain d runs where runs: "js_open s" "js_data s = Some d" "js_out s = jit_begin kd j0 v0 @ jit_rows kd j0 runs"
    "unat (jd_loops d) + length runs = 5" "jit_queued kd (jd_loops d \<noteq> 0) d"
    "jd_loops d \<noteq> 0 \<Longrightarrow> jd_prev_jiffies d = jit_last j0 runs \<and> \<not> js_waking s"
    using inv rd by (auto simp: jit_inv_def)
  show ?thesis
  proof (cases "jd_loops d = 0")
    case True
    then have "length runs = 5" using runs(4) by simp
    then have "jit_file kd j0 v0 5 (js_out s)" using runs(3) by (auto simp: jit_file_def)
    then show ?thesis
      using True runs(2,5) rd by (simp add: jit_wait_def jit_kfree_def with_data_def jit_queued_def jit_inv_def jit_left_def)
  next
    case False
    then show ?thesis using runs rd by (auto simp: jit_wait_def with_data_def jit_inv_def jit_left_def Let_def unat_gt_0)
  qed
qed

text \<open>
  Every possible action but a signal succeeds, keeps the invariant and comes closer to the end, except a
  wake-up that comes after the reader has freed the structure.
\<close>

definition jit_wakes_freed :: "jit_action \<Rightarrow> jit_sys \<Rightarrow> bool" where
  "jit_wakes_freed a s \<longleftrightarrow> a = RunWake \<and> js_waking s \<and> js_data s = None"

lemma jit_exec_inv:
  assumes inv: "jit_inv kd j0 v0 s" and a: "a \<noteq> ReaderSignal" "\<not> jit_wakes_freed a s" and r: "jit_exec tdelay a s = Some r"
  shows "\<exists>s'. r = Inr s' \<and> jit_inv kd j0 v0 s' \<and> jit_left s' < jit_left s"
proof (cases a)
  case (RunTimer j v)
  then obtain d where d: "js_data s = Some d" "jd_timer d" "r = jit_timer_fn tdelay j v (s\<lparr>js_data := Some (d\<lparr>jd_timer := False\<rparr>)\<rparr>)"
    using r by (auto split: option.splits if_splits)
  then have q: "kd = By_timer" "jit_queued kd True d" "jd_tlet d = None"
    using inv by (auto simp: jit_inv_def jit_queued_def split: if_splits)
  then have "d\<lparr>jd_timer := False\<rparr> = d\<lparr>jd_timer := False, jd_tlet := None\<rparr>" by simp
  then show ?thesis using jit_run_inv [OF inv d(1) q(2) refl refl, of tdelay j v] d(3) q(1) by auto
next
  case (RunTasklet j v)
  then obtain d where d: "js_data s = Some d" "jd_tlet d \<noteq> None" "r = jit_tasklet_fn j v (s\<lparr>js_data := Some (d\<lparr>jd_tlet := None\<rparr>)\<rparr>)"
    using r by (auto split: option.splits if_splits)
  then have q: "kd = By_tasklet" "jit_queued kd True d" "\<not> jd_timer d"
    using inv by (auto simp: jit_inv_def jit_queued_def split: if_splits)
  then have "d\<lparr>jd_tlet := None\<rparr> = d\<lparr>jd_timer := False, jd_tlet := None\<rparr>" by simp
  then show ?thesis using jit_run_inv [OF inv d(1) q(2) refl refl, of tdelay j v] d(3) q(1) by auto
next
  case RunWake
  then show ?thesis using r a(2) jit_wake_inv [OF inv] by (auto simp: jit_wakes_freed_def split: if_splits)
next
  case ReaderCheck
  then show ?thesis using r jit_check_inv [OF inv] by (auto split: if_splits)
next
  case CloseFile
  then have "js_reader s = Reader_returned 0" "js_open s" "r = Inr (s\<lparr>js_open := False\<rparr>)"
    using r inv by (auto simp: jit_inv_def split: jit_reader.splits if_splits)
  then show ?thesis using inv by (simp add: jit_inv_def jit_left_def)
qed (use a in simp)

lemma jit_wakes_freed_faults: "jit_wakes_freed a s \<Longrightarrow> jit_exec tdelay a s = Some (Inl NullDeref)"
  by (auto simp: jit_wakes_freed_def jit_wake_up_def with_data_def)

lemma jit_step_inv:
  assumes "jit_inv kd j v s" and "jit_step tdelay s s'"
  shows "jit_inv kd j v s' \<and> jit_left s' < jit_left s"
  using assms(2)
proof cases
  case (jit_step_exec a)
  then show ?thesis using jit_exec_inv [OF assms(1) jit_step_exec(1)] jit_wakes_freed_faults [of a s tdelay] by fastforce
qed

interpretation jit_runs: transition_system "jit_started kd tdelay j v" "jit_step tdelay" "jit_inv kd j v" for kd tdelay j v
  by unfold_locales (auto dest: jit_started_inv jit_step_inv)

lemma jit_run_length:
  assumes "jit_inv kd j v s" and "(jit_step tdelay ^^ n) s s'"
  shows "jit_inv kd j v s' \<and> n + jit_left s' \<le> jit_left s"
  using assms(2)
proof (induction n arbitrary: s')
  case (Suc n)
  then obtain t where t: "jit_inv kd j v t" "n + jit_left t \<le> jit_left s" "jit_step tdelay t s'" by auto
  then show ?case using jit_step_inv [OF t(1,3)] t(2) by simp
qed (use assms(1) in simp)

text \<open>A run that has not ended can go on: there is always somebody to make the next step.\<close>

lemma jit_progress:
  assumes inv: "jit_inv kd j v s" and "js_reader s = Reader_checks \<or> js_reader s = Reader_sleeps"
  shows "\<exists>s'. jit_step tdelay s s'"
proof -
  obtain d where d: "js_data s = Some d" "jit_queued kd (jd_loops d \<noteq> 0) d"
    "js_reader s = Reader_sleeps \<longrightarrow> jd_loops d \<noteq> 0 \<or> js_waking s"
    using inv assms(2) by (auto simp: jit_inv_def)
  have step: "\<exists>s'. jit_step tdelay s s'" if "a \<noteq> ReaderSignal" "jit_exec tdelay a s = Some r" for a r
  proof -
    have "\<not> jit_wakes_freed a s" using d(1) by (simp add: jit_wakes_freed_def)
    then show ?thesis using jit_exec_inv [OF inv that(1) _ that(2)] that by (auto intro: jit_step_exec)
  qed
  consider "js_reader s = Reader_checks" | "js_waking s" | "jd_loops d \<noteq> 0" using d(3) assms(2) by blast
  then show ?thesis
  proof cases
    case 1
    then show ?thesis using step [of ReaderCheck] by simp
  next
    case 2
    then show ?thesis using step [of RunWake] by simp
  next
    case 3
    then show ?thesis using d step [of "RunTimer (jd_expires d) v"] step [of "RunTasklet j v"]
      by (cases kd) (auto simp: jit_queued_def time_before_def)
  qed
qed

text \<open>A reader that has been asleep: no wake-up is outstanding that it has overtaken.\<close>

definition jit_slept :: "jit_sys \<Rightarrow> bool" where
  "jit_slept s \<longleftrightarrow> (js_waking s \<longrightarrow> js_reader s = Reader_sleeps) \<and>
     (js_reader s = Reader_checks \<longrightarrow> (\<exists>d. js_data s = Some d \<and> jd_loops d = 0))"

lemma jit_slept_step:
  assumes inv: "jit_inv kd j v s" and "jit_slept s" and "jit_step tdelay s s'"
  shows "jit_slept s'"
  using assms(3)
proof cases
  case (jit_step_exec a)
  note ex = jit_step_exec(2)
  show ?thesis
  proof (cases a)
    case (RunTimer x y)
    then obtain d where d: "js_data s = Some d" "jd_timer d" using ex by (auto split: option.splits if_splits)
    then have "jd_loops d \<noteq> 0" "js_reader s = Reader_checks \<or> js_reader s = Reader_sleeps"
      using inv by (auto simp: jit_inv_def jit_queued_def split: if_splits)
    then have "js_reader s = Reader_sleeps" using assms(2) d(1) by (auto simp: jit_slept_def)
    then show ?thesis
      using RunTimer ex d by (auto simp: jit_slept_def jit_timer_fn_def with_data_def jit_seq_printf_def jit_add_timer_def Let_def
          split: if_splits)
  next
    case (RunTasklet x y)
    then obtain d where d: "js_data s = Some d" "jd_tlet d \<noteq> None" using ex by (auto split: option.splits if_splits)
    then have "jd_loops d \<noteq> 0" "js_reader s = Reader_checks \<or> js_reader s = Reader_sleeps"
      using inv by (auto simp: jit_inv_def jit_queued_def split: if_splits)
    then have "js_reader s = Reader_sleeps" using assms(2) d(1) by (auto simp: jit_slept_def)
    then show ?thesis
      using RunTasklet ex d by (auto simp: jit_slept_def jit_tasklet_fn_def with_data_def jit_seq_printf_def Let_def
          split: if_splits)
  next
    case RunWake
    then have "js_waking s" "js_data s \<noteq> None"
      using ex by (auto simp: jit_wake_up_def with_data_def split: if_splits option.splits)
    from jit_wake_inv [OF inv this] show ?thesis
      using RunWake ex \<open>js_waking s\<close> by (auto simp: jit_slept_def)
  next
    case ReaderCheck
    then show ?thesis
      using ex assms(2) by (auto simp: jit_slept_def jit_wait_def jit_kfree_def with_data_def split: if_splits)
  next
    case CloseFile
    then show ?thesis
      using ex assms(2) by (auto simp: jit_slept_def split: jit_reader.splits if_splits)
  qed (use jit_step_exec in simp)
qed

text \<open>
  From every start on there is a run, without signals, in which the reader comes late to its first look
  at the count: it frees the structure between the last count and the wake-up.
\<close>

lemma jit_late_reader:
  assumes "jit_started kd tdelay j v s"
  shows "\<exists>as s'. ReaderSignal \<notin> set as \<and> jit_schedule tdelay as s = Some (Inr s') \<and> jit_wakes_freed RunWake s'"
proof (cases kd)
  case By_timer
  let ?T = "ucast tdelay :: ulong"
  let ?as = "[RunTimer (j + ?T) v, RunTimer (j + ?T + ?T) v, RunTimer (j + ?T + ?T + ?T) v, RunTimer (j + ?T + ?T + ?T + ?T) v,
    RunTimer (j + ?T + ?T + ?T + ?T + ?T) v, ReaderCheck]"
  have "\<exists>s'. jit_schedule tdelay ?as s = Some (Inr s') \<and> jit_wakes_freed RunWake s'"
    using assms By_timer
    by (auto simp: jit_timer_show_def jit_seq_printf_def jit_add_timer_def JIT_ASYNC_LOOPS_def jit_timer_fn_def with_data_def
        time_before_def jit_wait_def jit_kfree_def jit_wakes_freed_def)
  then show ?thesis by (intro exI [of _ ?as]) auto
next
  case By_tasklet
  let ?as = "[RunTasklet j v, RunTasklet j v, RunTasklet j v, RunTasklet j v, RunTasklet j v, ReaderCheck]"
  have "\<exists>s'. jit_schedule tdelay ?as s = Some (Inr s') \<and> jit_wakes_freed RunWake s'"
    using assms By_tasklet
    by (auto simp: jit_tasklet_show_def jit_seq_printf_def JIT_ASYNC_LOOPS_def jit_tasklet_fn_def jit_tasklet_schedule_def
        with_data_def jit_wait_def jit_kfree_def jit_wakes_freed_def Let_def)
  then show ?thesis by (intro exI [of _ ?as]) auto
qed


definition demo_env :: jit_env where
  "demo_env = \<lparr>v_softirq = 0, v_hardirq = 0, v_in_interrupt = 0, v_pid = 17, v_cpu = 0, v_comm = ''cat''\<rparr>"

definition demo_data :: jit_data where
  "demo_data = \<lparr>jd_expires = 0, jd_timer = False, jd_tlet = None, jd_hi = 0, jd_prev_jiffies = 0, jd_loops = 0\<rparr>"

definition demo_sys :: jit_sys where
  "demo_sys = \<lparr>js_data = None, js_out = [], js_open = True, js_waking = False, js_reader = Reader_new\<rparr>"

definition demo_started :: jit_sys where
  "demo_started = \<lparr>js_data = Some (demo_data\<lparr>jd_expires := 110, jd_timer := True, jd_prev_jiffies := 100, jd_loops := 5\<rparr>),
     js_out = [jit_timer_head, jit_timer_first 100 demo_env], js_open = True, js_waking = False, js_reader = Reader_checks\<rparr>"

lemma demo_started_show: "jit_timer_show (Some demo_data) 10 100 demo_env demo_sys = Inr demo_started"
  by (simp add: jit_timer_show_def jit_seq_printf_def jit_add_timer_def demo_sys_def demo_started_def demo_data_def
    JIT_ASYNC_LOOPS_def)


text \<open>
  C34: A signal ends the call with -ERESTARTSYS but frees nothing and stops nothing: the structure
  stays allocated with its timer pending, and once the reader has closed the file the next run of
  the timer function prints to a sequence file that no longer exists.
\<close>

theorem jit_signal_use_after_release:
  "\<exists>s1 s2. jit_timer_show (Some raw) tdelay j v \<lparr>js_data = None, js_out = [], js_open = True, js_waking = False, js_reader = Reader_new\<rparr> = Inr s1 \<and>
     jit_schedule tdelay [ReaderCheck, ReaderSignal, CloseFile] s1 = Some (Inr s2) \<and>
     js_reader s2 = Reader_returned (- ERESTARTSYS) \<and> js_data s2 \<noteq> None \<and>
     jit_exec tdelay (RunTimer (j + ucast tdelay) v) s2 = Some (Inl NullDeref)"
  by (simp add: jit_timer_show_def jit_seq_printf_def jit_add_timer_def jit_wait_def with_data_def JIT_ASYNC_LOOPS_def
    time_before_def jit_timer_fn_def)

end
