(* ===== verification/Jiq.thy ===== *)
theory Jiq
  imports Kernel_Format
begin

text \<open>
  The jiq module (\<^verbatim>\<open>src/jiq/jiq.c\<close>): files that are filled line by line from a work queue,
  a delayed work, a tasklet or a timer, all through one global structure. The sequence files are
  numbered; each has at most one reader. How many bytes a sequence file holds is a parameter,
  \<open>count\<close>, whose documented behaviour is \<open>seq_count_ok\<close>.
\<close>

section \<open>State\<close>

definition PAGE_SIZE :: ulong where "PAGE_SIZE = 4096"
definition LIMIT :: ulong where "LIMIT = PAGE_SIZE - 128"

record jiq_env =
  x_preempt :: int
  x_pid :: int
  x_cpu :: int
  x_comm :: string

text \<open>A reader sleeps on \<^verbatim>\<open>jiq_wait\<close>, has been woken, or has returned.\<close>

datatype jiq_reader = Jiq_none | Jiq_sleeps | Jiq_woken | Jiq_returned int

text \<open>
  The global \<^verbatim>\<open>jiq_data\<close> (which of its four items are queued, the number of the file
  \<^verbatim>\<open>m\<close>, and the other fields), the texts of the open files, and the readers. \<open>q_wakes\<close> counts the
  runs of \<^verbatim>\<open>jiq_print\<close> that have set \<^verbatim>\<open>end\<close> and have not yet called the wake-up; no lock
  keeps a reader from going on in between.
\<close>

record clientdata =
  q_work :: bool
  q_dwork :: bool
  q_tasklet :: bool
  q_timer :: "ulong option"
  q_m :: nat
  q_len :: u32
  q_end :: bool
  q_wakes :: nat
  q_jiffies :: ulong
  q_delay :: int
  q_files :: "nat \<Rightarrow> string list option"
  q_readers :: "nat \<Rightarrow> jiq_reader"

definition jiq_printf :: "string \<Rightarrow> clientdata \<Rightarrow> fault + clientdata" where
  "jiq_printf txt s =
     (case q_files s (q_m s) of
        None \<Rightarrow> Inl NullDeref
      | Some out \<Rightarrow> Inr (s\<lparr>q_files := (q_files s)(q_m s := Some (out @ [txt]))\<rparr>))"

definition m_count :: "(string list \<Rightarrow> size_t) \<Rightarrow> clientdata \<Rightarrow> size_t" where
  "m_count count s = (case q_files s (q_m s) of None \<Rightarrow> 0 | Some out \<Rightarrow> count out)"

definition jiq_wake_up :: "clientdata \<Rightarrow> clientdata" where
  "jiq_wake_up s = s\<lparr>q_readers := (\<lambda>i. if q_readers s i = Jiq_sleeps then Jiq_woken else q_readers s i)\<rparr>"

text \<open>The wake-up of a run that has set \<^verbatim>\<open>end\<close>.\<close>

definition jiq_wake_last :: "clientdata \<Rightarrow> clientdata" where
  "jiq_wake_last s = jiq_wake_up (s\<lparr>q_wakes := q_wakes s - 1\<rparr>)"

section \<open>Printing\<close>

definition jiq_head :: string where
  "jiq_head = ''    time  delta preempt   pid cpu command'' @ [newline]"

definition jiq_row :: "ulong \<Rightarrow> ulong \<Rightarrow> jiq_env \<Rightarrow> string" where
  "jiq_row j delta v =
     fmt_i 9 (sint j) @ ''  '' @ fmt_i 4 (sint delta) @ ''     '' @ fmt_i 3 (x_preempt v) @ '' '' @
     fmt_i 5 (x_pid v) @ '' '' @ fmt_i 3 (x_cpu v) @ '' '' @ x_comm v @ [newline]"

text \<open>
  The comparison with \<open>LIMIT\<close> converts the \<^verbatim>\<open>int\<close> to unsigned long; the counts are
  cut to \<^verbatim>\<open>int\<close> where they are added. Above the limit the function ends with the wake-up, which is
  a step of its own (\<open>jiq_wake_last\<close>).
\<close>

definition jiq_print ::
    "(string list \<Rightarrow> size_t) \<Rightarrow> ulong \<Rightarrow> jiq_env \<Rightarrow> clientdata \<Rightarrow> fault + (bool \<times> clientdata)" where
  "jiq_print count j v s =
     (let len = q_len s in
      if (scast len :: ulong) > LIMIT then Inr (False, s\<lparr>q_end := True, q_wakes := q_wakes s + 1\<rparr>)
      else bindS (if len = 0
                  then bindS (jiq_printf jiq_head s) (\<lambda>s. Inr (ucast (m_count count s), s))
                  else Inr (0, s)) (\<lambda>(len, s).
           bindS (jiq_printf (jiq_row j (j - q_jiffies s) v) s) (\<lambda>s.
             let len = len + ucast (m_count count s)
             in Inr (True, s\<lparr>q_len := q_len s + len, q_jiffies := j\<rparr>))))"

definition jiq_print_wq ::
    "(string list \<Rightarrow> size_t) \<Rightarrow> ulong \<Rightarrow> jiq_env \<Rightarrow> clientdata \<Rightarrow> fault + clientdata" where
  "jiq_print_wq count j v s =
     bindS (jiq_print count j v s) (\<lambda>(more, s). if \<not> more then Inr s else Inr (s\<lparr>q_work := True\<rparr>))"

definition jiq_print_wq_delayed ::
    "(string list \<Rightarrow> size_t) \<Rightarrow> ulong \<Rightarrow> jiq_env \<Rightarrow> clientdata \<Rightarrow> fault + clientdata" where
  "jiq_print_wq_delayed count j v s =
     bindS (jiq_print count j v s) (\<lambda>(more, s). if \<not> more then Inr s else Inr (s\<lparr>q_dwork := True\<rparr>))"

definition jiq_print_tasklet ::
    "(string list \<Rightarrow> size_t) \<Rightarrow> ulong \<Rightarrow> jiq_env \<Rightarrow> clientdata \<Rightarrow> fault + clientdata" where
  "jiq_print_tasklet count j v s =
     bindS (jiq_print count j v s) (\<lambda>(more, s). if more then Inr (s\<lparr>q_tasklet := True\<rparr>) else Inr s)"

text \<open>
  The timer function with its wake-ups: the reader of the timer file does not return before the function
  has ended, since \<^verbatim>\<open>del_timer_sync\<close> waits for it.
\<close>

definition jiq_timedout ::
    "(string list \<Rightarrow> size_t) \<Rightarrow> ulong \<Rightarrow> jiq_env \<Rightarrow> clientdata \<Rightarrow> fault + clientdata" where
  "jiq_timedout count j v s =
     bindS (jiq_print count j v s) (\<lambda>(more, s).
       let s = (if more then s else jiq_wake_last s) in Inr (jiq_wake_up (s\<lparr>q_end := True\<rparr>)))"

section \<open>Reading\<close>

text \<open>
  The read of file \<open>i\<close> up to its sleep. The reader is on the wait queue before the work is
  scheduled, so no wake-up is lost. \<open>delay\<close> is the module parameter.
\<close>

definition jiq_read_wq_show :: "nat \<Rightarrow> ulong \<Rightarrow> clientdata \<Rightarrow> clientdata" where
  "jiq_read_wq_show i j s =
     s\<lparr>q_len := 0, q_m := i, q_jiffies := j, q_delay := 0,
       q_readers := (q_readers s)(i := Jiq_sleeps), q_work := True\<rparr>"

definition jiq_read_wq_delayed_show :: "int \<Rightarrow> nat \<Rightarrow> ulong \<Rightarrow> clientdata \<Rightarrow> clientdata" where
  "jiq_read_wq_delayed_show delay i j s =
     s\<lparr>q_len := 0, q_m := i, q_jiffies := j, q_delay := delay,
       q_readers := (q_readers s)(i := Jiq_sleeps), q_dwork := True\<rparr>"

text \<open>After \<^verbatim>\<open>schedule\<close> returned, because of a wake-up or of a signal.\<close>

definition jiq_read_wq_end :: "nat \<Rightarrow> clientdata \<Rightarrow> clientdata" where
  "jiq_read_wq_end i s = s\<lparr>q_readers := (q_readers s)(i := Jiq_returned 0)\<rparr>"

text \<open>
  The wait for \<^verbatim>\<open>end\<close> of the tasklet and timer files, at its beginning and after each
  wake-up; \<open>True\<close> tells that the wait is over.
\<close>

definition jiq_wait_end :: "bool \<Rightarrow> nat \<Rightarrow> clientdata \<Rightarrow> bool \<times> clientdata" where
  "jiq_wait_end signal_pending i s =
     (if q_end s \<or> signal_pending then (True, s) else (False, s\<lparr>q_readers := (q_readers s)(i := Jiq_sleeps)\<rparr>))"

definition jiq_read_tasklet_show :: "nat \<Rightarrow> ulong \<Rightarrow> clientdata \<Rightarrow> clientdata" where
  "jiq_read_tasklet_show i j s =
     s\<lparr>q_len := 0, q_m := i, q_jiffies := j, q_end := False, q_tasklet := True,
       q_readers := (q_readers s)(i := Jiq_woken)\<rparr>"

definition jiq_read_tasklet_wait :: "bool \<Rightarrow> nat \<Rightarrow> clientdata \<Rightarrow> clientdata" where
  "jiq_read_tasklet_wait signal_pending i s =
     (let (over, s) = jiq_wait_end signal_pending i s
      in if over then s\<lparr>q_readers := (q_readers s)(i := Jiq_returned 0)\<rparr> else s)"

text \<open>
  Initialising a pending timer corrupts the list it is in. The three times are those of the three
  reads of \<^verbatim>\<open>jiffies\<close>: for the structure, the expiry and the row.
\<close>

definition jiq_read_run_timer_show ::
    "(string list \<Rightarrow> size_t) \<Rightarrow> ulong \<Rightarrow> nat \<Rightarrow> ulong \<Rightarrow> ulong \<Rightarrow> ulong \<Rightarrow> jiq_env \<Rightarrow> clientdata \<Rightarrow> fault + clientdata" where
  "jiq_read_run_timer_show count HZ i j j' j'' v s =
     (let s = s\<lparr>q_len := 0, q_m := i, q_jiffies := j, q_end := False\<rparr> in
      if q_timer s \<noteq> None then Inl BugOn
      else bindS (jiq_print count j'' v s) (\<lambda>(_, s).
             Inr (s\<lparr>q_timer := Some (j' + HZ), q_readers := (q_readers s)(i := Jiq_woken)\<rparr>)))"

definition jiq_read_run_timer_wait :: "bool \<Rightarrow> nat \<Rightarrow> clientdata \<Rightarrow> clientdata" where
  "jiq_read_run_timer_wait signal_pending i s =
     (let (over, s) = jiq_wait_end signal_pending i s
      in if over then s\<lparr>q_timer := None, q_readers := (q_readers s)(i := Jiq_returned 0)\<rparr> else s)"

section \<open>Creating and removing the files\<close>

text \<open>The open functions and the tables of the files.\<close>

definition jiq_read_wq_open :: "ulong \<Rightarrow> seq_opened" where
  "jiq_read_wq_open _ = Single_open Show_jiq_wq 0"

definition jiq_read_wq_fops :: proc_ops where
  "jiq_read_wq_fops = \<lparr>proc_open = jiq_read_wq_open, proc_read = Fn_seq_read, proc_lseek = Fn_seq_lseek, proc_release = Fn_single_release\<rparr>"

definition jiq_read_wq_delayed_open :: "ulong \<Rightarrow> seq_opened" where
  "jiq_read_wq_delayed_open _ = Single_open Show_jiq_wq_delayed 0"

definition jiq_read_wq_delayed_fops :: proc_ops where
  "jiq_read_wq_delayed_fops = \<lparr>proc_open = jiq_read_wq_delayed_open, proc_read = Fn_seq_read, proc_lseek = Fn_seq_lseek, proc_release = Fn_single_release\<rparr>"

definition jiq_read_tasklet_open :: "ulong \<Rightarrow> seq_opened" where
  "jiq_read_tasklet_open _ = Single_open Show_jiq_tasklet 0"

definition jiq_read_tasklet_fops :: proc_ops where
  "jiq_read_tasklet_fops = \<lparr>proc_open = jiq_read_tasklet_open, proc_read = Fn_seq_read, proc_lseek = Fn_seq_lseek, proc_release = Fn_single_release\<rparr>"

definition jiq_read_run_timer_open :: "ulong \<Rightarrow> seq_opened" where
  "jiq_read_run_timer_open _ = Single_open Show_jiq_run_timer 0"

definition jiq_read_run_timer_fops :: proc_ops where
  "jiq_read_run_timer_fops = \<lparr>proc_open = jiq_read_run_timer_open, proc_read = Fn_seq_read, proc_lseek = Fn_seq_lseek, proc_release = Fn_single_release\<rparr>"

definition jiq_entry :: "string \<Rightarrow> proc_ops \<Rightarrow> string \<times> proc_entry" where
  "jiq_entry name ops = (name, \<lparr>pe_owner = Proc_jiq, pe_ops = ops, pe_data = 0\<rparr>)"

definition jiq_entries :: "(string \<times> proc_entry) list" where
  "jiq_entries =
     [jiq_entry ''jiqwq'' jiq_read_wq_fops, jiq_entry ''jiqwqdelay'' jiq_read_wq_delayed_fops,
      jiq_entry ''jitimer'' jiq_read_run_timer_fops, jiq_entry ''jiqtasklet'' jiq_read_tasklet_fops]"

definition jiq_init :: "proc_dir \<Rightarrow> int \<times> proc_dir" where
  "jiq_init d = (0, fold proc_create jiq_entries d)"

definition jiq_names :: "string list" where
  "jiq_names = [''jiqwq'', ''jiqwqdelay'', ''jitimer'', ''jiqtasklet'']"

definition jiq_cleanup :: "proc_dir \<Rightarrow> proc_dir" where
  "jiq_cleanup d = fold remove_proc_entry jiq_names d"

section \<open>Runs of the queued item\<close>

datatype jiq_kind = By_work | By_delayed_work | By_jiq_tasklet

text \<open>The read that starts a kind of item, and one run of the item if it is queued.\<close>

fun jiq_show :: "jiq_kind \<Rightarrow> int \<Rightarrow> nat \<Rightarrow> ulong \<Rightarrow> clientdata \<Rightarrow> clientdata" where
  "jiq_show By_work delay i j s = jiq_read_wq_show i j s"
| "jiq_show By_delayed_work delay i j s = jiq_read_wq_delayed_show delay i j s"
| "jiq_show By_jiq_tasklet delay i j s = jiq_read_tasklet_show i j s"

fun jiq_queued :: "jiq_kind \<Rightarrow> clientdata \<Rightarrow> bool" where
  "jiq_queued By_work s = q_work s"
| "jiq_queued By_delayed_work s = q_dwork s"
| "jiq_queued By_jiq_tasklet s = q_tasklet s"

fun jiq_item :: "jiq_kind \<Rightarrow> (string list \<Rightarrow> size_t) \<Rightarrow> ulong \<Rightarrow> jiq_env \<Rightarrow> clientdata \<Rightarrow> fault + clientdata" where
  "jiq_item By_work count j v s = jiq_print_wq count j v (s\<lparr>q_work := False\<rparr>)"
| "jiq_item By_delayed_work count j v s = jiq_print_wq_delayed count j v (s\<lparr>q_dwork := False\<rparr>)"
| "jiq_item By_jiq_tasklet count j v s = jiq_print_tasklet count j v (s\<lparr>q_tasklet := False\<rparr>)"

text \<open>
  The item runs at the given times and places, as long as it is queued again; a run that does not queue
  it again ends with the wake-up.
\<close>

fun jiq_drain ::
    "jiq_kind \<Rightarrow> (string list \<Rightarrow> size_t) \<Rightarrow> (ulong \<times> jiq_env) list \<Rightarrow> clientdata \<Rightarrow> fault + clientdata" where
  "jiq_drain kd count [] s = Inr s"
| "jiq_drain kd count ((j, v) # evs) s =
     (if jiq_queued kd s then bindS (jiq_item kd count j v s) (\<lambda>s. jiq_drain kd count evs (if jiq_queued kd s then s else jiq_wake_last s))
      else Inr s)"

section \<open>Documented behaviour of the sequence file\<close>

text \<open>
  A sequence file holds the bytes of the printed texts as long as they fit into its buffer, which
  is one page for the first read.
\<close>

definition text_bytes :: "string list \<Rightarrow> nat" where
  "text_bytes out = sum_list (map length out)"

definition seq_count_ok :: "(string list \<Rightarrow> size_t) \<Rightarrow> bool" where
  "seq_count_ok count \<longleftrightarrow> (\<forall>out. text_bytes out < 4096 \<longrightarrow> count out = of_nat (text_bytes out))"

end
