(* ===== verification/Jiq_Props.thy ===== *)
theory Jiq_Props
  imports Jiq
begin

text \<open>
  Correctness of the jiq module: the chain of runs that fills a file ends after a bounded number
  of rows, whatever the readings and the process names, and wakes the reader. A signal to the
  reader leaves the item queued.
\<close>

section \<open>The size of the texts\<close>

text \<open>The values of the environment are C ints, and a process name has at most 15 characters.\<close>

definition env_ok :: "jiq_env \<Rightarrow> bool" where
  "env_ok v \<longleftrightarrow> \<bar>x_preempt v\<bar> \<le> 2 ^ 31 \<and> \<bar>x_pid v\<bar> \<le> 2 ^ 31 \<and> \<bar>x_cpu v\<bar> \<le> 2 ^ 31 \<and> length (x_comm v) \<le> 15"

lemma length_jiq_head: "length jiq_head = 42"
  by (simp add: jiq_head_def)

lemma length_jiq_row_ge: "35 \<le> length (jiq_row j delta v)"
  using length_fmt_i_ge [of 9 "sint j"] length_fmt_i_ge [of 4 "sint delta"] length_fmt_i_ge [of 3 "x_preempt v"]
    length_fmt_i_ge [of 5 "x_pid v"] length_fmt_i_ge [of 3 "x_cpu v"]
  by (simp add: jiq_row_def)

lemma length_jiq_row_le:
  assumes "env_ok v"
  shows "length (jiq_row j delta v) \<le> 99"
proof -
  have big: "\<bar>sint w\<bar> < 10 ^ 19" for w :: ulong
    using sint_ge [of w] sint_lt [of w] by simp
  have "length (fmt_i 9 (sint j)) \<le> Suc 19" "length (fmt_i 4 (sint delta)) \<le> Suc 19"
    using length_fmt_i_le [OF big] by simp_all
  moreover have "length (fmt_i w i) \<le> Suc 10" if "\<bar>i\<bar> \<le> 2 ^ 31" "w \<le> 11" for w i
    using that by (intro length_fmt_i_le) simp_all
  then have "length (fmt_i 3 (x_preempt v)) \<le> 11" "length (fmt_i 5 (x_pid v)) \<le> 11" "length (fmt_i 3 (x_cpu v)) \<le> 11"
    using assms by (simp_all add: env_ok_def)
  ultimately show ?thesis using assms by (simp add: jiq_row_def env_ok_def)
qed

section \<open>One call of the printing function\<close>

text \<open>
  The state after \<open>k\<close> rows in file \<open>i\<close>: \<open>k + 1\<close> texts, whose size is between the
  bounds of the formats, and a length that has added up the size of the file after every row.
\<close>

definition jiq_inv :: "nat \<Rightarrow> nat \<Rightarrow> clientdata \<Rightarrow> bool" where
  "jiq_inv i k s \<longleftrightarrow> q_m s = i \<and>
     (if k = 0 then q_files s i = Some [] \<and> q_len s = 0
      else \<exists>out. q_files s i = Some out \<and> length out = Suc k \<and>
             42 + 35 * k \<le> text_bytes out \<and> text_bytes out \<le> 42 + 99 * k \<and>
             84 + 84 * k + 35 * (k * (k + 1)) \<le> 2 * unat (q_len s) \<and> unat (q_len s) \<le> 4052 + 99 * k \<and>
             (k = 1 \<longrightarrow> unat (q_len s) \<le> 183) \<and> (k = 2 \<longrightarrow> unat (q_len s) \<le> 423)) \<and> k \<le> 14"

lemma scast_u32_le:
  fixes w :: u32
  assumes "unat w < 2 ^ 31"
  shows "(scast w :: ulong) > LIMIT \<longleftrightarrow> 3968 < unat w"
proof -
  have u: "uint w < 2 ^ 31" unfolding uint_nat using assms by (simp only: of_nat_less_numeral_power_cancel_iff)
  have "sint w = signed_take_bit (LENGTH(32) - Suc 0) (uint w)" by (rule sint_uint)
  also have "\<dots> = uint w"
    by (rule signed_take_bit_int_eq_self) (use u uint_ge_0 [of w] in \<open>simp_all add: order.trans [OF _ uint_ge_0]\<close>)
  finally have "(scast w :: ulong) = of_nat (unat w)" by (metis of_int_sint of_nat_unat of_int_of_nat_eq uint_nat)
  moreover have "unat (of_nat (unat w) :: ulong) = unat w" using assms by (simp add: unsigned_ucast_eq take_bit_nat_eq_self_iff)
  ultimately show ?thesis by (simp add: word_less_nat_alt LIMIT_def PAGE_SIZE_def)
qed

text \<open>Adding the size of the file to the length: nothing is cut off.\<close>

lemma add_count_u32:
  fixes w :: u32
  assumes "unat w + n < 2 ^ 31"
  shows "unat (w + ucast (of_nat n :: size_t)) = unat w + n"
proof -
  have n: "n < 2 ^ 31" "unat w + n < 2 ^ 32" using assms by simp_all
  have "unat (of_nat n :: size_t) = n" using n(1) by (simp add: unat_of_nat)
  then have u: "unat (ucast (of_nat n :: size_t) :: u32) = n"
    using n(1) by (simp add: unsigned_ucast_eq take_bit_nat_eq_self_iff)
  then show ?thesis using n(2) by (simp add: unat_word_ariths)
qed

lemma jiq_inv_bound: "jiq_inv i k s \<Longrightarrow> unat (q_len s) < 2 ^ 31"
  by (auto simp: jiq_inv_def split: if_splits)

text \<open>Above the limit the chain ends.\<close>

lemma jiq_print_stops:
  assumes "jiq_inv i k s" and "3968 < unat (q_len s)"
  shows "jiq_print count j v s = Inr (False, s\<lparr>q_end := True, q_wakes := q_wakes s + 1\<rparr>)"
  using scast_u32_le [OF jiq_inv_bound [OF assms(1)]] assms(2) by (simp add: jiq_print_def)

text \<open>Otherwise a row is printed.\<close>

lemma jiq_print_goes_on:
  assumes inv: "jiq_inv i k s" and small: "unat (q_len s) \<le> 3968" and count: "seq_count_ok count" and v: "env_ok v"
  shows "\<exists>s'. jiq_print count j v s = Inr (True, s') \<and> jiq_inv i (Suc k) s' \<and> q_readers s' = q_readers s \<and>
    q_end s' = q_end s \<and> q_timer s' = q_timer s \<and> q_dwork s' = q_dwork s \<and> q_wakes s' = q_wakes s \<and>
    (\<forall>x. x \<noteq> i \<longrightarrow> q_files s' x = q_files s x)"
proof -
  let ?row = "jiq_row j (j - q_jiffies s) v"
  have row: "35 \<le> length ?row" "length ?row \<le> 99" by (rule length_jiq_row_ge) (rule length_jiq_row_le [OF v])
  have nolim: "\<not> (scast (q_len s) :: ulong) > LIMIT"
    using scast_u32_le [OF jiq_inv_bound [OF inv]] small by simp
  show ?thesis
  proof (cases "k = 0")
    case True
    then have s: "q_m s = i" "q_files s i = Some []" "q_len s = 0" using inv by (simp_all add: jiq_inv_def)
    have c: "count [jiq_head] = 42" "count [jiq_head, ?row] = of_nat (42 + length ?row)"
      using count row(2) by (simp_all add: seq_count_ok_def text_bytes_def length_jiq_head)
    let ?s = "s\<lparr>q_files := (q_files s)(i := Some [jiq_head, ?row]), q_len := 42 + ucast (of_nat (42 + length ?row) :: size_t),
      q_jiffies := j\<rparr>"
    have "jiq_print count j v s = Inr (True, ?s)"
      using nolim s c by (simp add: jiq_print_def jiq_printf_def m_count_def)
    moreover have "unat (q_len ?s) = 84 + length ?row"
      using add_count_u32 [of 42 "42 + length ?row"] row(2) by simp
    then have "jiq_inv i (Suc k) ?s"
      using True s row by (simp add: jiq_inv_def text_bytes_def length_jiq_head)
    ultimately show ?thesis by auto
  next
    case False
    then obtain out where s: "q_m s = i" "q_files s i = Some out" "length out = Suc k" "42 + 35 * k \<le> text_bytes out"
      "text_bytes out \<le> 42 + 99 * k" "84 + 84 * k + 35 * (k * (k + 1)) \<le> 2 * unat (q_len s)"
      "k = 1 \<longrightarrow> unat (q_len s) \<le> 183"
      using inv by (auto simp: jiq_inv_def)
    have nz: "q_len s \<noteq> 0" using s(6) by auto
    have k: "k \<le> 13"
    proof (rule ccontr)
      assume "\<not> k \<le> 13"
      then have "14 * 15 \<le> k * (k + 1)" by (intro mult_le_mono) simp_all
      then show False using s(6) small \<open>\<not> k \<le> 13\<close> by linarith
    qed
    let ?out = "out @ [?row]"
    have b: "text_bytes ?out = text_bytes out + length ?row" by (simp add: text_bytes_def)
    have c: "count ?out = of_nat (text_bytes ?out)" using count row(2) s(5) k b by (simp add: seq_count_ok_def)
    let ?s = "s\<lparr>q_files := (q_files s)(i := Some ?out), q_len := q_len s + ucast (of_nat (text_bytes ?out) :: size_t),
      q_jiffies := j\<rparr>"
    have "jiq_print count j v s = Inr (True, ?s)"
      using nolim nz s(1,2) c by (simp add: jiq_print_def jiq_printf_def m_count_def del: of_nat_add)
    moreover have "unat (q_len ?s) = unat (q_len s) + text_bytes ?out"
      using add_count_u32 [of "q_len s" "text_bytes ?out"] row(2) s(5) k b small by simp
    then have "jiq_inv i (Suc k) ?s"
      using s row small k b False by (simp add: jiq_inv_def) (intro impI, simp)
    ultimately show ?thesis by auto
  qed
qed

section \<open>The chain of runs\<close>

lemma jiq_inv_flags [simp]:
  "jiq_inv i k (s\<lparr>q_work := b\<rparr>) = jiq_inv i k s" "jiq_inv i k (s\<lparr>q_dwork := b\<rparr>) = jiq_inv i k s"
  "jiq_inv i k (s\<lparr>q_tasklet := b\<rparr>) = jiq_inv i k s"
  by (simp_all add: jiq_inv_def)

lemmas jiq_item_defs = jiq_print_wq_def jiq_print_wq_delayed_def jiq_print_tasklet_def

lemma jiq_item_goes_on:
  assumes "jiq_inv i k s" and "unat (q_len s) \<le> 3968" and "seq_count_ok count" and "env_ok v"
  shows "\<exists>s'. jiq_item kd count j v s = Inr s' \<and> jiq_queued kd s' \<and> jiq_inv i (Suc k) s' \<and> q_readers s' = q_readers s \<and>
    q_wakes s' = q_wakes s \<and> (\<forall>x. x \<noteq> i \<longrightarrow> q_files s' x = q_files s x)"
proof (cases kd)
  case By_work
  then show ?thesis using jiq_print_goes_on [of i k "s\<lparr>q_work := False\<rparr>" count v j] assms by (auto simp: jiq_item_defs)
next
  case By_delayed_work
  then show ?thesis using jiq_print_goes_on [of i k "s\<lparr>q_dwork := False\<rparr>" count v j] assms by (auto simp: jiq_item_defs)
next
  case By_jiq_tasklet
  then show ?thesis using jiq_print_goes_on [of i k "s\<lparr>q_tasklet := False\<rparr>" count v j] assms by (auto simp: jiq_item_defs)
qed

lemma jiq_item_stops:
  assumes "jiq_inv i k s" and "3968 < unat (q_len s)"
  shows "\<exists>s'. jiq_item kd count j v s = Inr s' \<and> \<not> jiq_queued kd s' \<and> q_files s' = q_files s \<and> q_end s' \<and>
    q_readers s' = q_readers s \<and> q_wakes s' = Suc (q_wakes s)"
proof (cases kd)
  case By_work
  then show ?thesis using jiq_print_stops [of i k "s\<lparr>q_work := False\<rparr>" count j v] assms by (simp add: jiq_item_defs)
next
  case By_delayed_work
  then show ?thesis using jiq_print_stops [of i k "s\<lparr>q_dwork := False\<rparr>" count j v] assms by (simp add: jiq_item_defs)
next
  case By_jiq_tasklet
  then show ?thesis using jiq_print_stops [of i k "s\<lparr>q_tasklet := False\<rparr>" count j v] assms by (simp add: jiq_item_defs)
qed

text \<open>A drained chain does not run again.\<close>

lemma jiq_drain_idle: "\<not> jiq_queued kd s \<Longrightarrow> jiq_drain kd count evs s = Inr s"
  by (cases evs) auto

lemma jiq_drain_ends:
  assumes "jiq_inv i k s" and "jiq_queued kd s" and "15 \<le> length evs + k" and "\<forall>(j, v) \<in> set evs. env_ok v"
    and "seq_count_ok count"
  shows "\<exists>s' out. jiq_drain kd count evs s = Inr s' \<and> \<not> jiq_queued kd s' \<and> q_end s' \<and> q_files s' i = Some out \<and>
    length out \<le> 15 \<and> text_bytes out \<le> 1428 \<and>
    (q_readers s' i = (if q_readers s i = Jiq_sleeps then Jiq_woken else q_readers s i))"
  using assms
proof (induction kd count evs s arbitrary: k rule: jiq_drain.induct [case_names Nil Cons])
  case (Nil kd count s)
  then show ?case by (simp add: jiq_inv_def)
next
  case (Cons kd count j v evs s)
  show ?case
  proof (cases "3968 < unat (q_len s)")
    case True
    have "0 < k" using True Cons.prems(1) by (cases k) (auto simp: jiq_inv_def)
    then obtain out where out: "q_files s i = Some out" "length out \<le> 15" "text_bytes out \<le> 1428"
      using Cons.prems(1) by (auto simp: jiq_inv_def)
    show ?thesis
      using jiq_item_stops [OF Cons.prems(1) True, of kd count j v] Cons.prems(2) out
      by (cases kd) (auto simp: jiq_drain_idle jiq_wake_last_def jiq_wake_up_def)
  next
    case False
    then obtain s1 where s1: "jiq_item kd count j v s = Inr s1" "jiq_queued kd s1" "jiq_inv i (Suc k) s1" "q_readers s1 = q_readers s"
      using jiq_item_goes_on [OF Cons.prems(1) _ Cons.prems(5), of v kd j] Cons.prems(4) by auto
    have "15 \<le> length evs + Suc k" "\<forall>(j, v) \<in> set evs. env_ok v" using Cons.prems(3,4) by simp_all
    with Cons.IH [where x = s1 and k = "Suc k"] s1 Cons.prems(2,5) show ?thesis by (simp only: jiq_drain.simps if_True bindS_simps)
  qed
qed


definition demo_jiq :: clientdata where
  "demo_jiq = \<lparr>q_work = False, q_dwork = False, q_tasklet = False, q_timer = None, q_m = 0, q_len = 0, q_end = False, q_wakes = 0,
     q_jiffies = 0, q_delay = 0, q_files = (\<lambda>i. if i = 1 then Some [] else None), q_readers = (\<lambda>_. Jiq_none)\<rparr>"

definition demo_jiq_env :: jiq_env where
  "demo_jiq_env = \<lparr>x_preempt = 1, x_pid = 42, x_cpu = 0, x_comm = ''kworker''\<rparr>"


text \<open>
  A signal makes the read of the work queue file return 0 with the work still queued; once the
  file is closed, the work prints to a sequence file that no longer exists.
\<close>

theorem jiq_signal_use_after_release:
  "let s1 = jiq_read_wq_end i (jiq_read_wq_show i j s) in
   q_readers s1 i = Jiq_returned 0 \<and> q_work s1 \<and>
   jiq_item By_work count j' v (s1\<lparr>q_files := (q_files s1)(i := None)\<rparr>) = Inl NullDeref"
  by (simp add: jiq_read_wq_end_def jiq_read_wq_show_def jiq_print_wq_def jiq_print_def jiq_printf_def LIMIT_def PAGE_SIZE_def)

text \<open>
  The timer file: a row at once, a row when the timer has run, and then the read returns with the
  timer gone.
\<close>

lemma jiq_run_timer_file:
  assumes count: "seq_count_ok count" and f: "q_files s i = Some []" and t: "q_timer s = None" and v: "env_ok v" "env_ok v'"
  shows "\<exists>s1 s2. jiq_read_run_timer_show count HZ i j j' j'' v s = Inr s1 \<and>
    jiq_timedout count jt v' (jiq_read_run_timer_wait False i s1\<lparr>q_timer := None\<rparr>) = Inr s2 \<and>
    q_readers s2 i = Jiq_woken \<and> (\<exists>out. q_files s2 i = Some out \<and> length out = 3) \<and>
    q_readers (jiq_read_run_timer_wait False i s2) i = Jiq_returned 0"
proof -
  let ?s = "s\<lparr>q_len := 0, q_m := i, q_jiffies := j, q_end := False\<rparr>"
  have i0: "jiq_inv i 0 ?s" using f by (simp add: jiq_inv_def)
  obtain p where p: "jiq_print count j'' v ?s = Inr (True, p)" "jiq_inv i (Suc 0) p" "\<not> q_end p" "q_timer p = None"
    using jiq_print_goes_on [OF i0 _ count v(1), of j''] t by auto
  let ?s1 = "p\<lparr>q_timer := Some (j' + HZ), q_readers := (q_readers p)(i := Jiq_woken)\<rparr>"
  let ?w = "jiq_read_run_timer_wait False i ?s1\<lparr>q_timer := None\<rparr>"
  have s1: "jiq_read_run_timer_show count HZ i j j' j'' v s = Inr ?s1"
    using t p by (simp add: jiq_read_run_timer_show_def)
  have w: "?w = p\<lparr>q_timer := None, q_readers := (q_readers p)(i := Jiq_sleeps)\<rparr>"
    using p(3) by (simp add: jiq_read_run_timer_wait_def jiq_wait_end_def)
  have w1: "jiq_inv i (Suc 0) ?w" "unat (q_len ?w) \<le> 3968"
    using p(2) unfolding w by (auto simp: jiq_inv_def)
  obtain u where u: "jiq_print count jt v' ?w = Inr (True, u)" "jiq_inv i (Suc (Suc 0)) u" "q_readers u = q_readers ?w"
    using jiq_print_goes_on [OF w1 count v(2), of jt] by auto
  let ?s2 = "jiq_wake_up (u\<lparr>q_end := True\<rparr>)"
  have "jiq_timedout count jt v' ?w = Inr ?s2" using u(1) by (simp add: jiq_timedout_def Let_def)
  moreover have "q_readers ?s2 i = Jiq_woken" "\<exists>out. q_files ?s2 i = Some out \<and> length out = 3"
    using u(2,3) w by (auto simp: jiq_wake_up_def jiq_inv_def)
  moreover have "q_readers (jiq_read_run_timer_wait False i ?s2) i = Jiq_returned 0"
    by (simp add: jiq_read_run_timer_wait_def jiq_wait_end_def jiq_wake_up_def)
  ultimately show ?thesis using s1 by blast
qed

end
