(* ===== verification/Jiq_Threads.thy ===== *)
theory Jiq_Threads
  imports Jiq_Props
begin

text \<open>
  Readers of the jiq files that share the global structure of the module: a step opens a file, starts
  its read, runs the queued work, delayed work, tasklet or timer, lets a woken reader go on, or closes
  a file. As long as one reader at a time is in a read, no read starts before the last wake-up of the
  one before, and no signal arrives, no step faults. A late wake-up, or a second reader, leads to a
  file that is printed to after it was closed, without any signal.
\<close>

section \<open>Steps\<close>

text \<open>Which of the four files a sequence file was opened from.\<close>

datatype jiq_file = File_wq | File_wq_delayed | File_tasklet | File_timer

text \<open>
  \<open>Act_read\<close> carries the three readings of \<^verbatim>\<open>jiffies\<close> of the timer file, of which
  the other files use the first. \<open>Act_go\<close> is a reader that comes back from its sleep, because it was
  woken or because of a signal. \<open>Act_wake\<close> is the wake-up at the end of a run that has set
  \<^verbatim>\<open>end\<close>. A read starts with an empty buffer, also the second one of a file.
\<close>

datatype jiq_action =
    Act_open nat
  | Act_read nat ulong ulong ulong jiq_env
  | Act_run jiq_kind ulong jiq_env
  | Act_wake
  | Act_timer ulong jiq_env
  | Act_go nat bool
  | Act_close nat

record jiq_params =
  par_count :: "string list \<Rightarrow> size_t"
  par_HZ :: ulong
  par_delay :: int
  par_file :: "nat \<Rightarrow> jiq_file"

definition reading :: "clientdata \<Rightarrow> nat \<Rightarrow> bool" where
  "reading s i \<longleftrightarrow> q_readers s i = Jiq_sleeps \<or> q_readers s i = Jiq_woken"

definition jiq_start :: "jiq_params \<Rightarrow> nat \<Rightarrow> ulong \<Rightarrow> ulong \<Rightarrow> ulong \<Rightarrow> jiq_env \<Rightarrow> clientdata \<Rightarrow> fault + clientdata" where
  "jiq_start par i j j' j'' v s =
     (case par_file par i of
        File_wq \<Rightarrow> Inr (jiq_read_wq_show i j s)
      | File_wq_delayed \<Rightarrow> Inr (jiq_read_wq_delayed_show (par_delay par) i j s)
      | File_tasklet \<Rightarrow> Inr (jiq_read_tasklet_show i j s)
      | File_timer \<Rightarrow> jiq_read_run_timer_show (par_count par) (par_HZ par) i j j' j'' v s)"

definition jiq_resume :: "jiq_params \<Rightarrow> nat \<Rightarrow> bool \<Rightarrow> clientdata \<Rightarrow> clientdata" where
  "jiq_resume par i sig s =
     (case par_file par i of
        File_wq \<Rightarrow> jiq_read_wq_end i s
      | File_wq_delayed \<Rightarrow> jiq_read_wq_end i s
      | File_tasklet \<Rightarrow> jiq_read_tasklet_wait sig i s
      | File_timer \<Rightarrow> jiq_read_run_timer_wait sig i s)"

text \<open>\<open>None\<close>: the action is not possible in the state.\<close>

fun jiq_exec :: "jiq_params \<Rightarrow> jiq_action \<Rightarrow> clientdata \<Rightarrow> (fault + clientdata) option" where
  "jiq_exec par (Act_open i) s =
     (if q_files s i = None then Some (Inr (s\<lparr>q_files := (q_files s)(i := Some []), q_readers := (q_readers s)(i := Jiq_none)\<rparr>))
      else None)"
| "jiq_exec par (Act_read i j j' j'' v) s =
     (if q_files s i \<noteq> None \<and> \<not> reading s i
      then Some (jiq_start par i j j' j'' v (s\<lparr>q_files := (q_files s)(i := Some [])\<rparr>)) else None)"
| "jiq_exec par (Act_run kd j v) s = (if jiq_queued kd s then Some (jiq_item kd (par_count par) j v s) else None)"
| "jiq_exec par Act_wake s = (if q_wakes s \<noteq> 0 then Some (Inr (jiq_wake_last s)) else None)"
| "jiq_exec par (Act_timer j v) s =
     (if q_timer s \<noteq> None then Some (jiq_timedout (par_count par) j v (s\<lparr>q_timer := None\<rparr>)) else None)"
| "jiq_exec par (Act_go i sig) s =
     (if q_readers s i = Jiq_woken \<or> sig \<and> q_readers s i = Jiq_sleeps then Some (Inr (jiq_resume par i sig s)) else None)"
| "jiq_exec par (Act_close i) s =
     (if q_files s i \<noteq> None \<and> \<not> reading s i then Some (Inr (s\<lparr>q_files := (q_files s)(i := None)\<rparr>)) else None)"

text \<open>A sequence of actions, up to the first that faults.\<close>

fun jiq_run :: "jiq_params \<Rightarrow> jiq_action list \<Rightarrow> clientdata \<Rightarrow> (fault + clientdata) option" where
  "jiq_run par [] s = Some (Inr s)"
| "jiq_run par (a # as) s = (case jiq_exec par a s of Some (Inr s') \<Rightarrow> jiq_run par as s' | r \<Rightarrow> r)"

text \<open>
  One reader at a time, and no signals; besides, a read starts only when no wake-up of the one before is
  still to come.
\<close>

fun one_reader :: "jiq_action \<Rightarrow> clientdata \<Rightarrow> bool" where
  "one_reader (Act_read i j j' j'' v) s \<longleftrightarrow> (\<forall>x. \<not> reading s x)"
| "one_reader (Act_go i sig) s \<longleftrightarrow> \<not> sig"
| "one_reader _ s \<longleftrightarrow> True"

fun alone :: "jiq_action \<Rightarrow> clientdata \<Rightarrow> bool" where
  "alone (Act_read i j j' j'' v) s \<longleftrightarrow> one_reader (Act_read i j j' j'' v) s \<and> q_wakes s = 0"
| "alone a s \<longleftrightarrow> one_reader a s"

text \<open>The steps under a condition on the actions.\<close>

definition jiq_step :: "(jiq_action \<Rightarrow> clientdata \<Rightarrow> bool) \<Rightarrow> jiq_params \<Rightarrow> clientdata \<Rightarrow> clientdata \<Rightarrow> bool" where
  "jiq_step ok par s s' \<longleftrightarrow> (\<exists>a. ok a s \<and> jiq_exec par a s = Some (Inr s'))"

text \<open>After module start: nothing is queued and no file is open.\<close>

definition jiq_initial :: "clientdata \<Rightarrow> bool" where
  "jiq_initial s \<longleftrightarrow> q_wakes s = 0 \<and> \<not> q_work s \<and> \<not> q_dwork s \<and> \<not> q_tasklet s \<and> q_timer s = None \<and> (\<forall>i. q_files s i = None \<and> q_readers s i = Jiq_none)"

section \<open>Invariant\<close>

text \<open>
  At most one reader is in a read, and then the structure points to its open file. Whatever is
  queued belongs to that reader, who cannot leave its read before: a reader of the work queue files has
  not been woken, and for the others the condition of their wait is not yet true. While a wake-up is
  outstanding nothing is queued.
\<close>

definition jiq_safe :: "jiq_params \<Rightarrow> clientdata \<Rightarrow> bool" where
  "jiq_safe par s \<longleftrightarrow>
     (\<forall>i. reading s i \<longrightarrow> i = q_m s \<and> q_files s i \<noteq> None) \<and>
     (q_work s \<longrightarrow> q_readers s (q_m s) = Jiq_sleeps \<and> par_file par (q_m s) = File_wq) \<and>
     (q_dwork s \<longrightarrow> q_readers s (q_m s) = Jiq_sleeps \<and> par_file par (q_m s) = File_wq_delayed) \<and>
     (q_tasklet s \<longrightarrow> reading s (q_m s) \<and> par_file par (q_m s) = File_tasklet \<and> \<not> q_end s) \<and>
     (q_timer s \<noteq> None \<longrightarrow> reading s (q_m s) \<and> par_file par (q_m s) = File_timer \<and> \<not> q_end s) \<and>
     (q_wakes s \<noteq> 0 \<longrightarrow> \<not> q_work s \<and> \<not> q_dwork s \<and> \<not> q_tasklet s \<and> q_timer s = None)"

lemma jiq_print_open:
  assumes "q_files s (q_m s) = Some out"
  obtains (more) s' where "jiq_print count j v s = Inr (True, s')" "q_files s' (q_m s) \<noteq> None" "q_m s' = q_m s"
      "q_readers s' = q_readers s" "q_end s' = q_end s" "q_work s' = q_work s" "q_dwork s' = q_dwork s"
      "q_tasklet s' = q_tasklet s" "q_timer s' = q_timer s" "q_wakes s' = q_wakes s"
  | (full) "jiq_print count j v s = Inr (False, s\<lparr>q_end := True, q_wakes := q_wakes s + 1\<rparr>)" "q_len s \<noteq> 0"
proof (cases "(scast (q_len s) :: ulong) > LIMIT")
  case True
  then have "jiq_print count j v s = Inr (False, s\<lparr>q_end := True, q_wakes := q_wakes s + 1\<rparr>)" "q_len s \<noteq> 0"
    by (auto simp: jiq_print_def)
  then show ?thesis by (rule full)
next
  case False
  then show ?thesis
    using assms by (intro more [of "snd (projr (jiq_print count j v s))"]) (simp_all add: jiq_print_def jiq_printf_def)
qed

lemma jiq_start_safe:
  assumes none: "\<And>x. \<not> reading s x" and opened: "q_files s i = Some out"
    and idle: "\<not> q_work s" "\<not> q_dwork s" "\<not> q_tasklet s" "q_timer s = None" "q_wakes s = 0"
  shows "\<exists>s'. jiq_start par i j j' j'' v s = Inr s' \<and> jiq_safe par s'"
proof (cases "par_file par i")
  case File_wq
  then show ?thesis using none opened idle by (simp add: jiq_start_def jiq_read_wq_show_def jiq_safe_def reading_def)
next
  case File_wq_delayed
  then show ?thesis using none opened idle by (simp add: jiq_start_def jiq_read_wq_delayed_show_def jiq_safe_def reading_def)
next
  case File_tasklet
  then show ?thesis using none opened idle by (simp add: jiq_start_def jiq_read_tasklet_show_def jiq_safe_def reading_def)
next
  case File_timer
  let ?s = "s\<lparr>q_len := 0, q_m := i, q_jiffies := j, q_end := False\<rparr>"
  have "q_files ?s (q_m ?s) = Some out" using opened by simp
  then show ?thesis
  proof (cases rule: jiq_print_open [of _ _ "par_count par" j'' v])
    case (more s')
    then show ?thesis using File_timer none idle
      by (simp add: jiq_start_def jiq_read_run_timer_show_def jiq_safe_def reading_def)
  qed simp
qed

lemma jiq_safe_idle:
  assumes "jiq_safe par s" and "\<And>x. \<not> reading s x"
  shows "\<not> q_work s" "\<not> q_dwork s" "\<not> q_tasklet s" "q_timer s = None"
  using assms(1) assms(2) [of "q_m s"] by (simp_all add: jiq_safe_def reading_def)

lemma jiq_safe_pending:
  assumes "jiq_safe par s" and "jiq_queued kd s \<or> q_timer s \<noteq> None"
  obtains out where "q_files s (q_m s) = Some out"
proof -
  have "reading s (q_m s)" using assms by (cases kd) (auto simp: jiq_safe_def reading_def)
  then show ?thesis using assms(1) that unfolding jiq_safe_def by blast
qed

lemma reading_frame [simp]: "reading (s\<lparr>q_end := b\<rparr>) i = reading s i" "reading (s\<lparr>q_timer := t\<rparr>) i = reading s i"
    "reading (s\<lparr>q_wakes := n\<rparr>) i = reading s i"
  by (simp_all add: reading_def)

lemma jiq_wake_up_frame [simp]:
  "reading (jiq_wake_up s) i = reading s i" "q_m (jiq_wake_up s) = q_m s" "q_files (jiq_wake_up s) = q_files s"
  "q_work (jiq_wake_up s) = q_work s" "q_dwork (jiq_wake_up s) = q_dwork s" "q_tasklet (jiq_wake_up s) = q_tasklet s"
  "q_timer (jiq_wake_up s) = q_timer s" "q_end (jiq_wake_up s) = q_end s"
  by (auto simp: jiq_wake_up_def reading_def)

text \<open>Nothing is queued any more: the invariant is that of the readers.\<close>

lemma jiq_safe_drained:
  assumes "\<And>i. reading s i \<Longrightarrow> i = q_m s \<and> q_files s i \<noteq> None"
    and "\<not> q_work s" "\<not> q_dwork s" "\<not> q_tasklet s" "q_timer s = None"
  shows "jiq_safe par s"
  using assms by (simp add: jiq_safe_def)

lemma jiq_safe_kind:
  assumes "jiq_safe par s"
  shows "q_work s \<Longrightarrow> par_file par (q_m s) = File_wq" "q_dwork s \<Longrightarrow> par_file par (q_m s) = File_wq_delayed"
    "q_tasklet s \<Longrightarrow> par_file par (q_m s) = File_tasklet" "q_timer s = Some t \<Longrightarrow> par_file par (q_m s) = File_timer"
  using assms unfolding jiq_safe_def by blast+

lemma jiq_safe_reading: "jiq_safe par s \<Longrightarrow> reading s i \<Longrightarrow> i = q_m s \<and> q_files s i \<noteq> None"
  unfolding jiq_safe_def by blast

lemma jiq_item_safe:
  assumes safe: "jiq_safe par s" and q: "jiq_queued kd s"
  shows "\<exists>s'. jiq_item kd count j v s = Inr s' \<and> jiq_safe par s'"
proof -
  obtain out where f: "q_files s (q_m s) = Some out" using jiq_safe_pending [of par s kd] assms by auto
  let ?s = "case kd of By_work \<Rightarrow> s\<lparr>q_work := False\<rparr> | By_delayed_work \<Rightarrow> s\<lparr>q_dwork := False\<rparr> | By_jiq_tasklet \<Rightarrow> s\<lparr>q_tasklet := False\<rparr>"
  have fr: "q_files ?s = q_files s" "q_m ?s = q_m s" "q_readers ?s = q_readers s" "q_end ?s = q_end s" "q_timer ?s = q_timer s"
    by (cases kd; simp)+
  have idle: "\<not> q_work ?s" "\<not> q_dwork ?s" "\<not> q_tasklet ?s" "q_timer ?s = None"
    using q jiq_safe_kind [OF safe] by (cases kd; cases "q_timer s"; force)+
  have rs: "reading ?s i = reading s i" for i using fr(3) by (simp add: reading_def)
  note rd = jiq_safe_reading [OF safe]
  from f have "q_files ?s (q_m ?s) = Some out" using fr by simp
  then show ?thesis
  proof (cases rule: jiq_print_open [of _ _ count j v])
    case (more s')
    show ?thesis using safe q more fr idle rd f
      by (cases kd; simp add: jiq_item_defs jiq_safe_def reading_def; metis)
  next
    case full
    have "jiq_item kd count j v s = Inr (?s\<lparr>q_end := True, q_wakes := q_wakes ?s + 1\<rparr>)"
      using full(1) by (cases kd) (simp_all add: jiq_item_defs)
    moreover have "jiq_safe par (?s\<lparr>q_end := True, q_wakes := q_wakes ?s + 1\<rparr>)"
      using idle fr rd rs by (intro jiq_safe_drained) simp_all
    ultimately show ?thesis by blast
  qed
qed

lemma jiq_timedout_safe:
  assumes safe: "jiq_safe par s" and t: "q_timer s \<noteq> None"
  shows "\<exists>s'. jiq_timedout count j v (s\<lparr>q_timer := None\<rparr>) = Inr s' \<and> jiq_safe par s'"
proof -
  obtain out where f: "q_files s (q_m s) = Some out" using jiq_safe_pending [of par s By_work] assms by auto
  have idle: "\<not> q_work s" "\<not> q_dwork s" "\<not> q_tasklet s" using t jiq_safe_kind [OF safe] by auto
  note rd = jiq_safe_reading [OF safe]
  let ?s = "s\<lparr>q_timer := None\<rparr>"
  from f have "q_files ?s (q_m ?s) = Some out" by simp
  then show ?thesis
  proof (cases rule: jiq_print_open [of _ _ count j v])
    case (more s')
    have "i = q_m s' \<and> q_files s' i \<noteq> None" if "reading s' i" for i
      using that more rd [of i] by (auto simp: reading_def)
    then have "jiq_safe par (jiq_wake_up (s'\<lparr>q_end := True\<rparr>))"
      using more idle by (intro jiq_safe_drained) simp_all
    then show ?thesis using more(1) by (simp add: jiq_timedout_def Let_def)
  next
    case full
    let ?s2 = "s\<lparr>q_timer := None, q_end := True, q_wakes := q_wakes s + 1\<rparr>"
    have "jiq_safe par (jiq_wake_up (jiq_wake_last ?s2\<lparr>q_end := True\<rparr>))"
      using idle rd by (intro jiq_safe_drained) (simp_all add: jiq_wake_last_def)
    then show ?thesis using full(1) by (simp add: jiq_timedout_def Let_def)
  qed
qed

lemma jiq_resume_safe:
  assumes safe: "jiq_safe par s" and w: "q_readers s i = Jiq_woken"
  shows "jiq_safe par (jiq_resume par i False s)"
proof -
  have i: "i = q_m s" "q_files s i \<noteq> None" "\<And>x. reading s x \<Longrightarrow> x = i"
    using jiq_safe_reading [OF safe] w by (auto simp: reading_def)
  show ?thesis
    using safe w i jiq_safe_kind [OF safe] unfolding i(1)
    by (cases "par_file par (q_m s)"; simp add: jiq_resume_def jiq_read_wq_end_def jiq_read_tasklet_wait_def
        jiq_read_run_timer_wait_def jiq_wait_end_def jiq_safe_def reading_def; blast)
qed

lemma jiq_exec_safe:
  assumes safe: "jiq_safe par s" and "alone a s" and "jiq_exec par a s = Some r"
  shows "\<exists>s'. r = Inr s' \<and> jiq_safe par s'"
proof (cases a)
  case (Act_open i)
  then have "\<not> reading s i" using assms(3) jiq_safe_reading [OF safe, of i] by (auto split: if_splits)
  then have "jiq_safe par (s\<lparr>q_files := (q_files s)(i := Some []), q_readers := (q_readers s)(i := Jiq_none)\<rparr>)"
    using safe by (auto simp: jiq_safe_def reading_def)
  then show ?thesis using Act_open assms(3) by (auto split: if_splits)
next
  case (Act_read i j j' j'' v)
  let ?s = "s\<lparr>q_files := (q_files s)(i := Some [])\<rparr>"
  have "\<not> reading ?s x" for x using assms(2) Act_read by (simp add: reading_def)
  then obtain s' where "jiq_start par i j j' j'' v ?s = Inr s'" "jiq_safe par s'"
    using jiq_start_safe [of ?s i "[]" par j j' j'' v] jiq_safe_idle [OF safe] assms(2) Act_read by auto
  moreover have "r = jiq_start par i j j' j'' v ?s" using assms(3) Act_read by (simp split: if_splits)
  ultimately show ?thesis by simp
next
  case (Act_run kd j v)
  then show ?thesis using jiq_item_safe [OF safe] assms(3) by (auto split: if_splits)
next
  case Act_wake
  then have "q_wakes s \<noteq> 0" "r = Inr (jiq_wake_last s)" using assms(3) by (auto split: if_splits)
  moreover from this(1) have "jiq_safe par (jiq_wake_last s)"
    using safe jiq_safe_reading [OF safe] by (intro jiq_safe_drained) (simp_all add: jiq_wake_last_def jiq_safe_def)
  ultimately show ?thesis by blast
next
  case (Act_timer j v)
  then show ?thesis using jiq_timedout_safe [OF safe] assms(3) by (auto split: if_splits)
next
  case (Act_go i sig)
  then show ?thesis using jiq_resume_safe [OF safe] assms(2,3) by (auto split: if_splits)
next
  case (Act_close i)
  have "jiq_safe par (s\<lparr>q_files := (q_files s)(i := None)\<rparr>)" if "\<not> reading s i"
    using that safe by (simp add: jiq_safe_def reading_def)
  then show ?thesis using Act_close assms(3) by (auto split: if_splits)
qed

interpretation jiq_threads: transition_system jiq_initial "jiq_step alone par" "jiq_safe par" for par
proof
  show "jiq_safe par s" if "jiq_initial s" for s using that by (simp add: jiq_initial_def jiq_safe_def reading_def)
  show "jiq_safe par t" if "jiq_safe par s" "jiq_step alone par s t" for s t
    using that jiq_exec_safe [of par s _ "Inr t"] by (auto simp only: jiq_step_def sum.inject)
qed

section \<open>A late wake-up\<close>

text \<open>The tasklet runs until it has filled the file and set \<^verbatim>\<open>end\<close>, with its wake-up still to come.\<close>

lemma jiq_tasklet_fills:
  assumes count: "seq_count_ok (par_count par)" and "env_ok v"
  shows "reachable jiq_initial (jiq_step one_reader par) s \<Longrightarrow> jiq_inv i k s \<Longrightarrow> q_tasklet s \<Longrightarrow> q_wakes s = 0 \<Longrightarrow>
    \<exists>s'. reachable jiq_initial (jiq_step one_reader par) s' \<and> q_wakes s' = 1 \<and> q_end s' \<and>
      q_readers s' = q_readers s \<and> q_files s' i \<noteq> None \<and> (\<forall>x. x \<noteq> i \<longrightarrow> q_files s' x = q_files s x)"
proof (induction "15 - k" arbitrary: k s rule: less_induct)
  case less
  have step: "reachable jiq_initial (jiq_step one_reader par) s'" if "jiq_item By_jiq_tasklet (par_count par) 0 v s = Inr s'" for s'
    using less.prems(1,3) that by (intro reachable_step [OF less.prems(1)]) (auto simp: jiq_step_def intro!: exI [of _ "Act_run By_jiq_tasklet 0 v"])
  show ?case
  proof (cases "3968 < unat (q_len s)")
    case True
    have "q_files s i \<noteq> None" using less.prems(2) by (auto simp: jiq_inv_def split: if_splits)
    then show ?thesis using jiq_item_stops [OF less.prems(2) True, of By_jiq_tasklet "par_count par" 0 v] less.prems(4) step by auto
  next
    case False
    then obtain s' where s': "jiq_item By_jiq_tasklet (par_count par) 0 v s = Inr s'" "q_tasklet s'" "jiq_inv i (Suc k) s'"
      "q_readers s' = q_readers s" "q_wakes s' = 0" "\<forall>x. x \<noteq> i \<longrightarrow> q_files s' x = q_files s x"
      using jiq_item_goes_on [OF less.prems(2) _ count assms(2), of By_jiq_tasklet 0] less.prems(4) by auto
    moreover have "15 - Suc k < 15 - k" using less.prems(2) unfolding jiq_inv_def by linarith
    ultimately obtain s'' where "reachable jiq_initial (jiq_step one_reader par) s''" "q_wakes s'' = 1" "q_end s''"
      "q_readers s'' = q_readers s'" "q_files s'' i \<noteq> None" "\<forall>x. x \<noteq> i \<longrightarrow> q_files s'' x = q_files s' x"
      using less.hyps step by blast
    then show ?thesis using s'(4,6) by auto
  qed
qed

text \<open>
  The reader of the tasklet file returns when it sees \<^verbatim>\<open>end\<close>. Then a reader of the work queue file
  starts, the late wake-up ends its sleep, and its work prints to the file it has closed.
\<close>

lemma jiq_late_wake:
  assumes count: "seq_count_ok (par_count par)" and files: "par_file par i = File_tasklet" "par_file par i' = File_wq"
    and s0: "jiq_initial s0" and v: "env_ok v"
  shows "\<exists>s a. reachable jiq_initial (jiq_step one_reader par) s \<and> one_reader a s \<and> jiq_exec par a s = Some (Inl NullDeref)"
proof -
  let ?R = "reachable jiq_initial (jiq_step one_reader par)"
  have ne: "i \<noteq> i'" using files by auto
  have go: "?R t" if "?R s" "one_reader a s" "jiq_exec par a s = Some (Inr t)" for s a t
    by (rule reachable_step [OF that(1)]) (use that(2,3) in \<open>auto simp only: jiq_step_def\<close>)
  have r0: "?R s0" using s0 by (rule reachable_init)
  let ?s1 = "s0\<lparr>q_files := (q_files s0)(i := Some []), q_readers := (q_readers s0)(i := Jiq_none)\<rparr>"
  have r1: "?R ?s1" by (rule go [OF r0, of "Act_open i"]) (use s0 in \<open>simp_all add: jiq_initial_def\<close>)
  let ?o = "?s1\<lparr>q_files := (q_files ?s1)(i' := Some []), q_readers := (q_readers ?s1)(i' := Jiq_none)\<rparr>"
  have r2: "?R ?o" by (rule go [OF r1, of "Act_open i'"]) (use s0 ne in \<open>simp_all add: jiq_initial_def\<close>)
  let ?b = "jiq_read_tasklet_show i 0 (?o\<lparr>q_files := (q_files ?o)(i := Some [])\<rparr>)"
  have r3: "?R ?b" by (rule go [OF r2, of "Act_read i 0 0 0 v"])
      (use s0 files in \<open>simp_all add: jiq_initial_def reading_def jiq_start_def\<close>)
  have "jiq_inv i 0 ?b" "q_tasklet ?b" "q_wakes ?b = 0"
    using s0 by (simp_all add: jiq_inv_def jiq_read_tasklet_show_def jiq_initial_def)
  from jiq_tasklet_fills [OF count v r3 this] obtain f where f: "?R f" "q_wakes f = 1" "q_end f"
    "q_readers f = q_readers ?b" "q_files f i \<noteq> None" "\<forall>x. x \<noteq> i \<longrightarrow> q_files f x = q_files ?b x" by blast
  have rd: "q_readers f i = Jiq_woken" "\<And>x. x \<noteq> i \<Longrightarrow> q_readers f x = Jiq_none" "q_files f i' = Some []"
    using f(4,6) s0 ne by (auto simp: jiq_read_tasklet_show_def jiq_initial_def)
  let ?g = "f\<lparr>q_readers := (q_readers f)(i := Jiq_returned 0)\<rparr>"
  have r4: "?R ?g" by (rule go [OF f(1), of "Act_go i False"])
      (use rd files f(3) in \<open>simp_all add: jiq_resume_def jiq_read_tasklet_wait_def jiq_wait_end_def\<close>)
  let ?w = "jiq_read_wq_show i' 0 (?g\<lparr>q_files := (q_files ?g)(i' := Some [])\<rparr>)"
  have r5: "?R ?w" by (rule go [OF r4, of "Act_read i' 0 0 0 v"])
      (use rd files ne in \<open>auto simp: reading_def jiq_start_def\<close>)
  let ?l = "jiq_wake_last ?w"
  have r6: "?R ?l" by (rule go [OF r5, of Act_wake]) (use f(2) in \<open>simp_all add: jiq_read_wq_show_def\<close>)
  have l: "q_readers ?l i' = Jiq_woken" "q_work ?l" "q_m ?l = i'" "q_len ?l = 0" "q_files ?l i' \<noteq> None"
    by (simp_all add: jiq_wake_last_def jiq_wake_up_def jiq_read_wq_show_def)
  let ?e = "jiq_read_wq_end i' ?l"
  have r7: "?R ?e" by (rule go [OF r6, of "Act_go i' False"]) (use l files in \<open>simp_all add: jiq_resume_def\<close>)
  let ?c = "?e\<lparr>q_files := (q_files ?e)(i' := None)\<rparr>"
  have r8: "?R ?c" by (rule go [OF r7, of "Act_close i'"]) (use l in \<open>simp_all add: jiq_read_wq_end_def reading_def\<close>)
  have "jiq_exec par (Act_run By_work 0 v) ?c = Some (Inl NullDeref)"
    using l by (simp add: jiq_read_wq_end_def jiq_item_defs jiq_print_def jiq_printf_def LIMIT_def PAGE_SIZE_def)
  moreover have "one_reader (Act_run By_work 0 v) ?c" by simp
  ultimately show ?thesis using r8 by blast
qed

text \<open>
  C36: The jiq files with one reader at a time, no signals, and no read that starts while a wake-up of the
  one before is outstanding: after any such steps from module start, a step of this kind that is
  possible does not fault, and whatever is queued belongs to the reader that waits for it, whose file
  is open and is the one the shared pointer names. The last condition cannot be dropped: since
  \<^verbatim>\<open>end\<close> is set before the wake-up is called and no lock covers both, with a tasklet file and a
  work queue file there are steps, with one reader at a time and no signal, that end with work printing to
  a closed file.
\<close>

theorem jiq_alone_safe:
  assumes "reachable jiq_initial (jiq_step alone par) s" and "alone a s"
  shows "jiq_exec par a s \<noteq> Some (Inl e) \<and> jiq_safe par s \<and>
    (seq_count_ok (par_count par) \<longrightarrow> par_file par i = File_tasklet \<longrightarrow> par_file par i' = File_wq \<longrightarrow>
      (\<exists>t b. reachable jiq_initial (jiq_step one_reader par) t \<and> one_reader b t \<and> jiq_exec par b t = Some (Inl NullDeref)))"
proof -
  have "jiq_exec par a s \<noteq> Some (Inl e) \<and> jiq_safe par s"
    using jiq_threads.reachable_inv [OF assms(1)] jiq_exec_safe [OF _ assms(2)] by blast
  moreover have "\<exists>s0. jiq_initial s0" using assms(1) by induction auto
  moreover have "env_ok demo_jiq_env" by (simp add: env_ok_def demo_jiq_env_def)
  ultimately show ?thesis using jiq_late_wake by blast
qed

definition demo_jiq_params :: jiq_params where
  "demo_jiq_params = \<lparr>par_count = (\<lambda>out. of_nat (text_bytes out)), par_HZ = 250, par_delay = 1,
     par_file = (\<lambda>i. if i = 0 then File_wq_delayed else if i = 1 then File_timer else if i = 2 then File_tasklet else File_wq)\<rparr>"

theorem jiq_alone_safe_witness:
  "let s0 = demo_jiq\<lparr>q_files := \<lambda>_. None\<rparr>; s = jiq_read_wq_delayed_show 1 0 5 (s0\<lparr>q_files := [0 \<mapsto> []]\<rparr>)
   in q_dwork s \<and> jiq_exec demo_jiq_params (Act_run By_delayed_work 6 demo_jiq_env) s \<noteq> Some (Inl NullDeref) \<and>
     (\<exists>t b. reachable jiq_initial (jiq_step one_reader demo_jiq_params) t \<and> one_reader b t \<and>
        jiq_exec demo_jiq_params b t = Some (Inl NullDeref))"
proof -
  let ?start = "demo_jiq\<lparr>q_files := \<lambda>_. None\<rparr>"
  let ?opened = "?start\<lparr>q_files := [0 \<mapsto> []]\<rparr>"
  let ?reads = "jiq_read_wq_delayed_show 1 0 5 ?opened"
  have r0: "reachable jiq_initial (jiq_step alone demo_jiq_params) ?start"
    by (rule reachable_init) (simp add: jiq_initial_def demo_jiq_def)
  have "jiq_step alone demo_jiq_params ?start ?opened"
    unfolding jiq_step_def by (intro exI [of _ "Act_open 0"]) (simp add: demo_jiq_def fun_upd_idem)
  with r0 have r1: "reachable jiq_initial (jiq_step alone demo_jiq_params) ?opened" by (rule reachable_step)
  have "jiq_step alone demo_jiq_params ?opened ?reads"
    unfolding jiq_step_def
    by (intro exI [of _ "Act_read 0 5 5 5 demo_jiq_env"]) (simp add: demo_jiq_def reading_def jiq_start_def demo_jiq_params_def)
  with r1 have "reachable jiq_initial (jiq_step alone demo_jiq_params) ?reads" by (rule reachable_step)
  from jiq_alone_safe [OF this, of "Act_run By_delayed_work 6 demo_jiq_env" NullDeref 2 3]
  have "jiq_exec demo_jiq_params (Act_run By_delayed_work 6 demo_jiq_env) ?reads \<noteq> Some (Inl NullDeref)"
    "\<exists>t b. reachable jiq_initial (jiq_step one_reader demo_jiq_params) t \<and> one_reader b t \<and>
        jiq_exec demo_jiq_params b t = Some (Inl NullDeref)"
    by (simp_all add: demo_jiq_params_def seq_count_ok_def)
  moreover have "q_dwork ?reads" by (simp add: jiq_read_wq_delayed_show_def)
  ultimately show ?thesis by (simp only: Let_def simp_thms)
qed

section \<open>Two readers\<close>

text \<open>A complete read of the timer file, with whatever else is queued.\<close>

lemma jiq_timer_read_complete:
  assumes count: "seq_count_ok (par_count par)" and v: "env_ok v" "env_ok v'" and kd: "par_file par i = File_timer"
    and d: "q_files d i \<noteq> None" "\<not> reading d i" "q_timer d = None"
  shows "\<exists>t. jiq_run par (Act_read i j j' j'' v # Act_go i False # Act_timer jt v' # Act_go i False # Act_close i # as) d = jiq_run par as t \<and>
    q_m t = i \<and> q_files t i = None \<and> q_dwork t = q_dwork d \<and> unat (q_len t) \<le> 3968"
proof -
  let ?s = "d\<lparr>q_files := (q_files d)(i := Some []), q_len := 0, q_m := i, q_jiffies := j, q_end := False\<rparr>"
  have i0: "jiq_inv i 0 ?s" by (simp add: jiq_inv_def)
  obtain p where p: "jiq_print (par_count par) j'' v ?s = Inr (True, p)" "jiq_inv i (Suc 0) p" "\<not> q_end p" "q_timer p = None" "q_dwork p = q_dwork d"
    using jiq_print_goes_on [OF i0 _ count v(1), of j''] d by auto
  let ?w = "p\<lparr>q_readers := (q_readers p)(i := Jiq_sleeps), q_timer := None\<rparr>"
  have w: "jiq_inv i (Suc 0) ?w" "unat (q_len ?w) \<le> 3968" using p(2) by (auto simp: jiq_inv_def)
  obtain u where u: "jiq_print (par_count par) jt v' ?w = Inr (True, u)" "jiq_inv i (Suc (Suc 0)) u" "q_readers u = q_readers ?w" "q_dwork u = q_dwork d"
    using jiq_print_goes_on [OF w count v(2), of jt] p by auto
  let ?t = "jiq_read_run_timer_wait False i (jiq_wake_up (u\<lparr>q_end := True\<rparr>))"
  have uf: "q_m u = i" "q_files u i \<noteq> None" "unat (q_len u) \<le> 423" using u(2) by (auto simp: jiq_inv_def)
  have "jiq_run par (Act_read i j j' j'' v # Act_go i False # Act_timer jt v' # Act_go i False # Act_close i # as) d =
      jiq_run par as (?t\<lparr>q_files := (q_files ?t)(i := None)\<rparr>)"
    using d p u kd uf
    by (simp add: jiq_start_def jiq_read_run_timer_show_def jiq_resume_def jiq_timedout_def jiq_read_run_timer_wait_def
        jiq_wait_end_def jiq_wake_up_def reading_def)
  then show ?thesis
    using uf u(4) by (intro exI [of _ "?t\<lparr>q_files := (q_files ?t)(i := None)\<rparr>"])
      (simp add: jiq_read_run_timer_wait_def jiq_wait_end_def jiq_wake_up_def)
qed

text \<open>
  C37: Two readers, no signal: reader 0 waits for the delayed work, reader 1 opens and reads the timer
  file, which redirects the shared pointer to its own file. The timer runs, reader 1 returns and
  closes its file, and the delayed work, still queued, prints to the file that was released.
\<close>

theorem jiq_two_readers_use_after_release:
  assumes count: "seq_count_ok (par_count par)" and v: "env_ok v" "env_ok v'"
    and files: "par_file par 0 = File_wq_delayed" "par_file par 1 = File_timer" and s0: "jiq_initial s"
  shows "jiq_run par [Act_open 0, Act_open 1, Act_read 0 j0 j0 j0 v, Act_read 1 j j' j'' v, Act_go 1 False,
      Act_timer jt v', Act_go 1 False, Act_close 1, Act_run By_delayed_work jd v'] s = Some (Inl NullDeref)"
proof -
  define d where "d = jiq_read_wq_delayed_show (par_delay par) 0 j0
    (s\<lparr>q_readers := (q_readers s)(0 := Jiq_none, 1 := Jiq_none), q_files := (q_files s)(0 := Some [], 1 := Some [])\<rparr>)"
  have d: "q_files d 0 = Some []" "q_files d 1 = Some []" "q_timer d = None" "q_dwork d" "q_readers d 1 = Jiq_none"
    using s0 by (simp_all add: d_def jiq_initial_def jiq_read_wq_delayed_show_def)
  have d1: "q_files d 1 \<noteq> None" "\<not> reading d 1" "q_timer d = None" using d by (simp_all add: reading_def)
  have start: "jiq_run par (Act_open 0 # Act_open 1 # Act_read 0 j0 j0 j0 v # as) s = jiq_run par as d" for as
    using s0 files by (simp add: d_def jiq_initial_def reading_def jiq_start_def fun_upd_twist)
  obtain t where t: "jiq_run par (Act_read 1 j j' j'' v # Act_go 1 False # Act_timer jt v' # Act_go 1 False # Act_close 1 #
      [Act_run By_delayed_work jd v']) d = jiq_run par [Act_run By_delayed_work jd v'] t"
    "q_m t = 1" "q_files t 1 = None" "q_dwork t" "unat (q_len t) \<le> 3968"
    using jiq_timer_read_complete [OF count v files(2) d1, of j j' j'' jt "[Act_run By_delayed_work jd v']"] d(4) by blast
  have "\<not> (scast (q_len t) :: ulong) > LIMIT" using scast_u32_le [of "q_len t"] t(5) by simp
  then have "jiq_run par [Act_run By_delayed_work jd v'] t = Some (Inl NullDeref)"
    using t(2,3,4) by (simp add: jiq_item_defs jiq_print_def jiq_printf_def)
  then show ?thesis unfolding start t(1) .
qed

theorem jiq_two_readers_use_after_release_witness:
  "jiq_run demo_jiq_params [Act_open 0, Act_open 1, Act_read 0 5 5 5 demo_jiq_env, Act_read 1 6 6 6 demo_jiq_env, Act_go 1 False,
     Act_timer 256 demo_jiq_env, Act_go 1 False, Act_close 1, Act_run By_delayed_work 257 demo_jiq_env]
     (demo_jiq\<lparr>q_files := \<lambda>_. None\<rparr>) = Some (Inl NullDeref)"
  by (rule jiq_two_readers_use_after_release)
    (simp_all add: demo_jiq_params_def seq_count_ok_def env_ok_def demo_jiq_env_def jiq_initial_def demo_jiq_def)

end
