(* ===== verification/Qus.thy ===== *)
theory Qus
  imports Driver_Core
begin

text \<open>
  The USB storage driver (\<^verbatim>\<open>src/qus/qus.c\<close>, \<^verbatim>\<open>src/qus/qus.h\<close>): probe and
  disconnect with the reference counts and allocations they take and give back, and loading and
  unloading the module on a bus with any number of interfaces. What the USB core returns is a record
  of parameters, \<open>usb_kernel\<close>.
\<close>

unbundle bit_operations_syntax

section \<open>State\<close>

text \<open>
  The structure; of a pointer it is kept whether it is null. The structure is zeroed when it is
  allocated.
\<close>

record qemu_usb_storage =
  s_dev :: bool
  s_intf :: bool
  s_urb :: bool
  s_buf :: bool
  s_buf_len :: size_t
  s_bulk_in_endpoint :: u8
  s_bulk_out_endpoint :: u8
  s_kref :: nat
  s_max_lun :: u32

definition qus_zero :: qemu_usb_storage where
  "qus_zero = \<lparr>s_dev = False, s_intf = False, s_urb = False, s_buf = False, s_buf_len = 0,
     s_bulk_in_endpoint = 0, s_bulk_out_endpoint = 0, s_kref = 0, s_max_lun = 0\<rparr>"

text \<open>
  The live structure, the references the driver holds on the device and the interface, its live
  request blocks and buffers, the private data of the interface, and the registered minor number.
\<close>

record usb_world =
  u_qus :: "qemu_usb_storage option"
  u_dev_refs :: int
  u_intf_refs :: int
  u_urbs :: int
  u_bufs :: int
  u_intfdata :: bool
  u_minor :: bool

record endpoint =
  bEndpointAddress :: u8
  maxp :: size_t

record usb_kernel =
  k_kzalloc_qus :: bool
  k_find_common_endpoints :: int
  k_bulk_in :: endpoint
  k_bulk_out :: endpoint
  k_kmalloc_buf :: "size_t \<Rightarrow> bool"
  k_alloc_urb :: bool
  k_register_dev :: int
  k_control_msg :: "int + byte option"

definition with_qus :: "usb_world \<Rightarrow> (qemu_usb_storage \<Rightarrow> fault + 'a) \<Rightarrow> fault + 'a" where
  "with_qus w f = (case u_qus w of None \<Rightarrow> Inl NullDeref | Some q \<Rightarrow> f q)"

section \<open>Reference counting\<close>

text \<open>Freeing a null request block or buffer does nothing.\<close>

definition qus_del :: "usb_world \<Rightarrow> fault + usb_world" where
  "qus_del w =
     with_qus w (\<lambda>q.
       Inr (w\<lparr>u_urbs := u_urbs w - of_bool (s_urb q),
              u_intf_refs := u_intf_refs w - of_bool (s_intf q),
              u_dev_refs := u_dev_refs w - of_bool (s_dev q),
              u_bufs := u_bufs w - of_bool (s_buf q),
              u_qus := None\<rparr>))"

definition kref_put :: "usb_world \<Rightarrow> fault + usb_world" where
  "kref_put w =
     with_qus w (\<lambda>q.
       if s_kref q = 0 then Inl BugOn
       else let w = w\<lparr>u_qus := Some (q\<lparr>s_kref := s_kref q - 1\<rparr>)\<rparr>
            in if s_kref q = 1 then qus_del w else Inr w)"

section \<open>Probe and disconnect\<close>

text \<open>
  \<^verbatim>\<open>__test_control_endpoint\<close>: the byte that is read, if any, goes to the lowest byte of
  \<^verbatim>\<open>max_lun\<close>; \<open>Inl\<close> is an error of the transfer.
\<close>

definition test_control_endpoint :: "usb_kernel \<Rightarrow> usb_world \<Rightarrow> fault + (int \<times> usb_world)" where
  "test_control_endpoint k w =
     with_qus w (\<lambda>q. case k_control_msg k of
         Inl e \<Rightarrow> Inr (e, w)
       | Inr None \<Rightarrow> Inr (0, w)
       | Inr (Some b) \<Rightarrow> Inr (1, w\<lparr>u_qus := Some (q\<lparr>s_max_lun := (s_max_lun q AND NOT 0xFF) OR ucast b\<rparr>)\<rparr>))"

definition qus_error :: "int \<Rightarrow> usb_world \<Rightarrow> fault + (int \<times> usb_world)" where
  "qus_error ret w = bindS (kref_put w) (\<lambda>w. Inr (ret, w))"

text \<open>\<^verbatim>\<open>qus->field = value\<close>.\<close>

definition qus_update :: "(qemu_usb_storage \<Rightarrow> qemu_usb_storage) \<Rightarrow> usb_world \<Rightarrow> usb_world" where
  "qus_update f w = w\<lparr>u_qus := map_option f (u_qus w)\<rparr>"

definition qus_probe :: "usb_kernel \<Rightarrow> usb_world \<Rightarrow> fault + (int \<times> usb_world)" where
  "qus_probe k w =
     (if \<not> k_kzalloc_qus k then Inr (- ENOMEM, w)
      else
        let w = w\<lparr>u_qus := Some (qus_zero\<lparr>s_kref := 1\<rparr>)\<rparr>;
            w = qus_update (\<lambda>q. q\<lparr>s_dev := True\<rparr>) (w\<lparr>u_dev_refs := u_dev_refs w + 1\<rparr>);
            w = qus_update (\<lambda>q. q\<lparr>s_intf := True\<rparr>) (w\<lparr>u_intf_refs := u_intf_refs w + 1\<rparr>);
            ret = k_find_common_endpoints k
        in if ret \<noteq> 0 then qus_error ret w
        else
          let w = qus_update (\<lambda>q. q\<lparr>s_bulk_in_endpoint := bEndpointAddress (k_bulk_in k),
                                    s_buf_len := maxp (k_bulk_in k)\<rparr>) w
          in if \<not> k_kmalloc_buf k (maxp (k_bulk_in k)) then qus_error (- ENOMEM) w
        else
          let w = qus_update (\<lambda>q. q\<lparr>s_buf := True\<rparr>) (w\<lparr>u_bufs := u_bufs w + 1\<rparr>)
          in if \<not> k_alloc_urb k then qus_error (- ENOMEM) w
        else
          let w = qus_update (\<lambda>q. q\<lparr>s_urb := True\<rparr>) (w\<lparr>u_urbs := u_urbs w + 1\<rparr>);
              w = qus_update (\<lambda>q. q\<lparr>s_bulk_out_endpoint := bEndpointAddress (k_bulk_out k)\<rparr>) w;
              w = w\<lparr>u_intfdata := True\<rparr>;
              ret = k_register_dev k
          in if ret \<noteq> 0 then qus_error ret (w\<lparr>u_intfdata := False\<rparr>)
        else
          bindS (test_control_endpoint k (w\<lparr>u_minor := True\<rparr>)) (\<lambda>(_, w). Inr (0, w)))"

text \<open>The private data of the interface decides which structure is used; null faults.\<close>

definition qus_disconnect :: "usb_world \<Rightarrow> fault + usb_world" where
  "qus_disconnect w =
     (let qus = u_intfdata w; w = w\<lparr>u_intfdata := False, u_minor := False\<rparr>
      in if \<not> qus then Inl NullDeref else with_qus w (\<lambda>_. kref_put w))"

section \<open>Module start and end\<close>

definition QUS_VENDOR_ID :: u32 where
  "QUS_VENDOR_ID = 0x46f4"

definition QUS_PRODUCT_ID :: u32 where
  "QUS_PRODUCT_ID = 0x0001"

definition qus_table :: "(u32 \<times> u32) list" where
  "qus_table = [(QUS_VENDOR_ID, QUS_PRODUCT_ID), (0, 0)]"

type_synonym usb_bus = "usb_world bus_slot list"

definition qus_driver :: "(usb_kernel, usb_world) bus_driver" where
  "qus_driver = \<lparr>drv_name = ''qemu_usb_storage'', drv_id_table = qus_table, drv_probe = qus_probe, drv_remove = qus_disconnect\<rparr>"

text \<open>
  \<^verbatim>\<open>module_usb_driver\<close> makes module start and end of the driver structure: one registers it with
  the USB core, the other removes it.
\<close>

definition qus_module_init :: "(usb_kernel, usb_world) register_fn \<Rightarrow> usb_bus \<Rightarrow> fault + (int \<times> usb_bus)" where
  "qus_module_init usb_register ss = usb_register qus_driver ss"

definition qus_module_exit :: "(usb_kernel, usb_world) unregister_fn \<Rightarrow> usb_bus \<Rightarrow> fault + usb_bus" where
  "qus_module_exit usb_deregister ss = usb_deregister qus_driver ss"

definition usb_forget :: "usb_world \<Rightarrow> usb_world" where
  "usb_forget w = w\<lparr>u_intfdata := False\<rparr>"

section \<open>Properties\<close>

lemmas qus_defs = qus_error_def qus_update_def kref_put_def qus_del_def with_qus_def qus_zero_def Let_def

text \<open>An idle interface: this driver has no structure, no private data and no minor number.\<close>

definition usb_idle :: "usb_world \<Rightarrow> bool" where
  "usb_idle w \<longleftrightarrow> u_qus w = None \<and> \<not> u_intfdata w \<and> \<not> u_minor w"

lemma usb_idleE:
  assumes "usb_idle w"
  obtains d i u b where "w = \<lparr>u_qus = None, u_dev_refs = d, u_intf_refs = i, u_urbs = u, u_bufs = b, u_intfdata = False, u_minor = False\<rparr>"
  using assms by (cases w) (simp add: usb_idle_def)

text \<open>The world of a probe that has got past every call that can fail.\<close>

definition qus_bound :: "usb_kernel \<Rightarrow> usb_world \<Rightarrow> usb_world" where
  "qus_bound k w =
     w\<lparr>u_qus := Some \<lparr>s_dev = True, s_intf = True, s_urb = True, s_buf = True, s_buf_len = maxp (k_bulk_in k),
         s_bulk_in_endpoint = bEndpointAddress (k_bulk_in k), s_bulk_out_endpoint = bEndpointAddress (k_bulk_out k),
         s_kref = 1, s_max_lun = (case k_control_msg k of Inr (Some b) \<Rightarrow> ucast b | _ \<Rightarrow> 0)\<rparr>,
       u_dev_refs := u_dev_refs w + 1, u_intf_refs := u_intf_refs w + 1, u_urbs := u_urbs w + 1, u_bufs := u_bufs w + 1,
       u_intfdata := True, u_minor := True\<rparr>"

lemma qus_probe_cases:
  assumes "usb_idle w"
  shows "(\<exists>ret. ret \<noteq> 0 \<and> qus_probe k w = Inr (ret, w)) \<or> qus_probe k w = Inr (0, qus_bound k w)"
proof -
  from assms obtain d i u b where
    w: "w = \<lparr>u_qus = None, u_dev_refs = d, u_intf_refs = i, u_urbs = u, u_bufs = b, u_intfdata = False, u_minor = False\<rparr>"
    by (rule usb_idleE)
  show ?thesis
  proof (cases "k_kzalloc_qus k \<and> k_find_common_endpoints k = 0 \<and> k_kmalloc_buf k (maxp (k_bulk_in k)) \<and> k_alloc_urb k \<and>
      k_register_dev k = 0")
    case True
    then show ?thesis
      by (simp add: qus_probe_def qus_defs test_control_endpoint_def qus_bound_def w split: sum.split option.split)
  next
    case False
    then have "\<exists>ret. ret \<noteq> 0 \<and> qus_probe k w = Inr (ret, w)"
      by (auto simp: qus_probe_def qus_defs w)
    then show ?thesis ..
  qed
qed

lemma qus_disconnect_bound: "usb_idle w \<Longrightarrow> qus_disconnect (qus_bound k w) = Inr w"
  by (erule usb_idleE) (simp add: qus_disconnect_def qus_bound_def qus_defs)

text \<open>
  Whatever the USB core returns, a probe of an idle interface that fails gives back everything it
  took. A probe that succeeds holds one reference on the device and on the interface, one buffer of
  the size of the input endpoint and one request block, and the disconnect that follows restores the
  state from before the probe.
\<close>

lemma qus_probe_disconnect:
  assumes "usb_idle w"
  shows "\<exists>ret w'. qus_probe k w = Inr (ret, w') \<and>
    (if ret \<noteq> 0 then w' = w
     else (\<exists>q. u_qus w' = Some q \<and> s_kref q = 1 \<and> s_buf_len q = maxp (k_bulk_in k) \<and>
             s_bulk_in_endpoint q = bEndpointAddress (k_bulk_in k) \<and>
             s_bulk_out_endpoint q = bEndpointAddress (k_bulk_out k) \<and>
             s_max_lun q = (case k_control_msg k of Inr (Some b) \<Rightarrow> ucast b | _ \<Rightarrow> 0)) \<and>
          u_dev_refs w' = u_dev_refs w + 1 \<and> u_intf_refs w' = u_intf_refs w + 1 \<and> u_urbs w' = u_urbs w + 1 \<and>
          u_bufs w' = u_bufs w + 1 \<and> u_intfdata w' \<and> u_minor w' \<and> qus_disconnect w' = Inr w)"
  using qus_probe_cases [OF assms, of k] qus_disconnect_bound [OF assms, of k]
proof (elim disjE)
  assume "qus_probe k w = Inr (0, qus_bound k w)" "qus_disconnect (qus_bound k w) = Inr w"
  then show ?thesis by (intro exI [of _ 0] exI [of _ "qus_bound k w"]) (simp add: qus_bound_def)
qed auto

definition demo_usb :: usb_world where
  "demo_usb = \<lparr>u_qus = None, u_dev_refs = 2, u_intf_refs = 1, u_urbs = 0, u_bufs = 0, u_intfdata = False, u_minor = False\<rparr>"

definition demo_usb_kernel :: usb_kernel where
  "demo_usb_kernel = \<lparr>k_kzalloc_qus = True, k_find_common_endpoints = 0,
     k_bulk_in = \<lparr>bEndpointAddress = 0x81, maxp = 512\<rparr>, k_bulk_out = \<lparr>bEndpointAddress = 2, maxp = 512\<rparr>,
     k_kmalloc_buf = (\<lambda>n. n \<le> 4096), k_alloc_urb = True, k_register_dev = 0, k_control_msg = Inr (Some 3)\<rparr>"

text \<open>The driver meets the contract of the driver core: everything is as it was.\<close>

lemma usb_forget_idle: "usb_idle w \<Longrightarrow> usb_forget w = w"
  by (erule usb_idleE) (simp add: usb_forget_def)

lemma qus_driver_simps [simp]:
  "drv_probe qus_driver = qus_probe" "drv_remove qus_driver = qus_disconnect"
  "drv_match qus_driver s \<longleftrightarrow> slot_id s = (QUS_VENDOR_ID, QUS_PRODUCT_ID)"
  by (simp_all add: qus_driver_def drv_match_def qus_table_def QUS_VENDOR_ID_def QUS_PRODUCT_ID_def)

definition qus_held :: "usb_world \<Rightarrow> usb_world \<Rightarrow> bool" where
  "qus_held w w' \<longleftrightarrow> usb_idle w \<and> (\<exists>k. w' = qus_bound k w)"

interpretation qus_core: driver_contract qus_driver usb_forget "\<lambda>_. True" usb_idle qus_held "(=)" "(=)"
proof
  fix w k assume "usb_idle w"
  then show "\<exists>ret w'. drv_probe qus_driver k w = Inr (ret, w') \<and> (if ret = 0 then qus_held w w' else w = usb_forget w')"
    using qus_probe_cases [of w k] by (auto simp: usb_forget_idle qus_held_def)
next
  fix w w' assume "qus_held w w'"
  then show "\<exists>w''. drv_remove qus_driver w' = Inr w'' \<and> w = usb_forget w''"
    using qus_disconnect_bound by (auto simp: qus_held_def usb_forget_idle)
qed simp

text \<open>
  C40: Loading and unloading the module on a bus with any number of idle interfaces changes nothing,
  whatever the USB core returns for each of them. In between, a bound interface is one of the table,
  with one reference on the device and on the interface, one buffer, one request block, a registered
  minor number and a reference count of one.
\<close>

theorem qus_module_load_unload:
  assumes "register_ok usb_forget ks reg" and "unregister_ok usb_forget unreg" and "length ks = length ss"
    and "\<forall>s \<in> set ss. usb_idle (slot_world s) \<and> \<not> slot_bound s"
  shows "\<exists>ret ss1. qus_module_init reg ss = Inr (ret, ss1) \<and> (ret \<noteq> 0 \<longrightarrow> ss1 = ss) \<and>
    (\<forall>i < length ss. slot_bound (ss1 ! i) \<longrightarrow> slot_id (ss ! i) = (QUS_VENDOR_ID, QUS_PRODUCT_ID) \<and>
      (let w = slot_world (ss ! i); w' = slot_world (ss1 ! i) in
       u_dev_refs w' = u_dev_refs w + 1 \<and> u_intf_refs w' = u_intf_refs w + 1 \<and> u_urbs w' = u_urbs w + 1 \<and>
       u_bufs w' = u_bufs w + 1 \<and> u_intfdata w' \<and> u_minor w' \<and> (\<exists>q. u_qus w' = Some q \<and> s_kref q = 1))) \<and>
    qus_module_exit unreg ss1 = Inr ss"
proof -
  obtain ret ss1 ss2 where r: "reg qus_driver ss = Inr (ret, ss1)" "ret \<noteq> 0 \<longrightarrow> ss1 = ss" "unreg qus_driver ss1 = Inr ss2"
    "length ss2 = length ss"
    "\<forall>i < length ss. \<not> slot_bound (ss2 ! i) \<and> slot_id (ss2 ! i) = slot_id (ss ! i) \<and>
      (slot_bound (ss1 ! i) \<longrightarrow> drv_match qus_driver (ss ! i) \<and> qus_held (slot_world (ss ! i)) (slot_world (ss1 ! i))) \<and>
      slot_world (ss ! i) = slot_world (ss2 ! i)"
    using qus_core.load_unload [OF assms(4) _ assms(3,1,2)] by auto
  have "ss2 ! i = ss ! i" if "i < length ss" for i
    using r(5) that assms(4) by (intro bus_slot.equality) auto
  then have "ss2 = ss" using r(4) by (intro nth_equalityI) auto
  then show ?thesis
    using r by (intro exI [of _ ret] exI [of _ ss1])
      (auto simp: qus_module_init_def qus_module_exit_def qus_held_def qus_bound_def Let_def)
qed

definition demo_usb_slot :: "usb_world bus_slot" where
  "demo_usb_slot = \<lparr>slot_id = (0x46f4, 1), slot_bound = False, slot_world = demo_usb\<rparr>"

theorem qus_module_load_unload_witness:
  "\<exists>ss1. qus_module_init (\<lambda>d ss. bindS (bind_all usb_forget d (zip [demo_usb_kernel, demo_usb_kernel] ss)) (\<lambda>ss. Inr (0, ss)))
       [demo_usb_slot, demo_usb_slot\<lparr>slot_id := (1, 1)\<rparr>] = Inr (0, ss1) \<and> map slot_bound ss1 = [True, False] \<and>
     qus_module_exit (unbind_all usb_forget) ss1 = Inr [demo_usb_slot, demo_usb_slot\<lparr>slot_id := (1, 1)\<rparr>]"
proof -
  let ?ks = "[demo_usb_kernel, demo_usb_kernel]" and ?ss = "[demo_usb_slot, demo_usb_slot\<lparr>slot_id := (1, 1)\<rparr>]"
  let ?reg = "\<lambda>d ss. bindS (bind_all usb_forget d (zip ?ks ss)) (\<lambda>ss. Inr (0, ss))"
  have r: "register_ok usb_forget ?ks ?reg" "unregister_ok usb_forget (unbind_all usb_forget)"
    by (simp_all add: register_ok_def unregister_ok_def)
  have "map_sum id (\<lambda>(r, ss). (r, map slot_bound ss)) (qus_module_init ?reg ?ss) = Inr (0, [True, False])"
    by (simp add: qus_module_init_def bind_slot_def demo_usb_slot_def QUS_VENDOR_ID_def QUS_PRODUCT_ID_def
      demo_usb_kernel_def demo_usb_def qus_probe_def qus_defs test_control_endpoint_def)
  then obtain ss1 where "qus_module_init ?reg ?ss = Inr (0, ss1)" "map slot_bound ss1 = [True, False]"
    by (cases "qus_module_init ?reg ?ss") auto
  moreover have "\<forall>s \<in> set ?ss. usb_idle (slot_world s) \<and> \<not> slot_bound s"
    by (simp add: usb_idle_def demo_usb_slot_def demo_usb_def)
  ultimately show ?thesis using qus_module_load_unload [OF r, of ?ss] by auto
qed

end
