(* ===== verification/Spec2Isabelle.thy ===== *)
theory Spec2Isabelle
  imports Scull_Files_Props Scull_Pipe_Safe Edu_Props Edu_Threads Edu_Probe Jit_Props Jiq_Threads Qus
begin

text \<open>
  Verification of the ldd3 workshop drivers: the scull module with bare devices, pipes, a control
  interface and a proc file (\<^verbatim>\<open>src/scull\<close>), the driver of the PCI device edu
  (\<^verbatim>\<open>src/edu\<close>), the modules jit and jiq that show timers, tasklets and work queues
  (\<^verbatim>\<open>src/jit\<close>, \<^verbatim>\<open>src/jiq\<close>), and a USB storage driver (\<^verbatim>\<open>src/qus\<close>).

  \<^bold>\<open>How the code is modelled.\<close> Every C function is a HOL function on a record of the state it
  works on. The integers are words of the width they have on a 64 bit machine, and wrap; results of
  system calls are integers. What C leaves undefined, or what stops the kernel, is a value of the type
  \<open>fault\<close> (access through a null or freed pointer, access past an object, division by zero, a lock
  taken twice or given up without being held, an assertion of the kernel), and a function that can run
  into one returns \<open>fault + result\<close>. Functions of the kernel are fields of a record of parameters;
  what the code relies on is stated by a predicate on that record (\<open>slab_alloc_ok\<close>,
  \<open>copy_from_user_ok\<close>, \<open>user_access_ok\<close>, \<open>pipe_kernel_ok\<close>, \<open>edu_hw_ok\<close>,
  \<open>seq_count_ok\<close>, \<open>mod_kernel_ok\<close>, \<open>clock_ok\<close>, \<open>register_ok\<close>, \<open>unregister_ok\<close>), and each theorem that needs one has
  a witness at a concrete kernel. A call that sleeps is cut where it gives up its lock: the part before
  the sleep and the part after the wake-up are separate functions, each one step of a transition
  relation between threads; a wake-up that a driver calls without a lock after it has published its
  result is a step of its own. A condition on the steps that a theorem is restricted to is an argument
  of the transition relation or a conjunct in the statement, so that it can be read there. Loops are recursion with a termination proof, except the polling loop of
  jit, which is a partial function that is shown to return.

  \<^bold>\<open>Theories.\<close>
  \<^item> \<^verbatim>\<open>Kernel_Prelude\<close>: C types, error numbers, faults, sequencing, block copies, and the
    contract \<open>transition_system\<close> (an invariant that the initial states have and the steps keep).
    \<^verbatim>\<open>Kernel_Format\<close>: the text of numbers, and the entries, tables and open functions below
    /proc. \<^verbatim>\<open>Driver_Core\<close>: a bus on which a driver is registered, its slots bound and unbound,
    and the contract \<open>driver_contract\<close> of a probe function with its remove function.
  \<^item> \<^verbatim>\<open>Mutex_Sparse\<close> (\<^verbatim>\<open>mutex_sparse.h\<close>): the lock wrappers.
  \<^item> \<^verbatim>\<open>Scull_Dev\<close> (\<^verbatim>\<open>scull.h\<close>, \<^verbatim>\<open>main.c\<close>): trim, open, release, follow, meminfo, read
    and write. \<^verbatim>\<open>Scull_Dev_Correct\<close>: the invariant \<open>dev_wf\<close>, the contents \<open>dev_byte\<close>,
    the contracts \<open>block_addressing\<close> and \<open>file_reader\<close> and their interpretations.
    \<^verbatim>\<open>Scull_Dev_Props\<close>: reads and writes are exact on every branch and refine a file of bytes,
    written bytes are read back, a reader gets to the end, a failing write changes nothing visible,
    devices do not disturb each other, trimming loses the last quantum of a set.
  \<^item> \<^verbatim>\<open>Scull_Ioctl\<close> (\<^verbatim>\<open>ioctl.c\<close>): all commands; what they change and for whom.
  \<^item> \<^verbatim>\<open>Scull_Pipe\<close> (\<^verbatim>\<open>pipe.c\<close>, \<^verbatim>\<open>pipe.h\<close>): the parts of the pipe calls.
    \<^verbatim>\<open>Scull_Pipe_Ring\<close>, \<^verbatim>\<open>Scull_Pipe_Fifo\<close>, \<^verbatim>\<open>Scull_Pipe_Props\<close>: the circular
    buffer as a list, the contract \<open>byte_fifo\<close> and its interpretation, exact reads and writes, order
    of the bytes, delivery of messages, poll. \<^verbatim>\<open>Scull_Pipe_Threads\<close>, \<^verbatim>\<open>Scull_Pipe_Safe\<close>:
    threads that interleave, their invariant, and safety, counters and wake-ups under the condition
    \<open>p_admissible\<close> (the proper pipe is not opened for both directions and its buffer can be allocated;
    the buffer length is fixed), and the runs that go wrong with and without it.
  \<^item> \<^verbatim>\<open>Scull_Proc\<close> (\<^verbatim>\<open>proc.c\<close>): iterator and dump, against a reference listing.
    \<^verbatim>\<open>Scull_Module\<close>, \<^verbatim>\<open>Scull_Module_Props\<close> (\<^verbatim>\<open>main.c\<close>, \<^verbatim>\<open>pipe.c\<close>): start and
    end of the module as acquisition and release of resources, with the tables of file operations that
    the character devices get. \<^verbatim>\<open>Scull_Files\<close>: which device and table a device number leads to, and system calls (open, read and write with
    or without an explicit position, control, close, a read of the proc file) on the open files of all bare
    devices, with the specification \<open>call_spec\<close> over their byte contents.
    \<^verbatim>\<open>Scull_Files_Props\<close>: every call of every sequence meets that specification as long as control
    commands leave sane sizes, a used module can be unloaded and which quanta that leaves behind, with the
    cache, device numbers lead to the right table, and the two ways in which calls disturb a later one.
  \<^item> \<^verbatim>\<open>Edu_Device\<close> (\<^verbatim>\<open>hw.h\<close>, \<^verbatim>\<open>state.h\<close>, \<^verbatim>\<open>irq.c\<close>, \<^verbatim>\<open>sysfs.c\<close>):
    registers, state bits, handlers, timer, attribute files. \<^verbatim>\<open>Edu_Props\<close>: the inverse file,
    identification. \<^verbatim>\<open>Edu_Threads\<close>: interleavings of interrupt tests, handlers and the timer, whose
    expiry and function are two steps; safe when nobody is late for the lock, and the two ways of being late.
    \<^verbatim>\<open>Edu_Probe\<close> (\<^verbatim>\<open>init.c\<close>): probe with all its error labels, remove, and start
    and end of the module, as an interpretation of \<open>driver_contract\<close>.
  \<^item> \<^verbatim>\<open>Jit\<close>, \<^verbatim>\<open>Jit_Props\<close> (\<^verbatim>\<open>jit.c\<close>): the delays end and print how long they
    were; timer and tasklet files are complete under every interleaving without signals, and the one
    wake-up that may come too late. \<^verbatim>\<open>Jiq\<close>,
    \<^verbatim>\<open>Jiq_Props\<close> (\<^verbatim>\<open>jiq.c\<close>): the chains of runs end, with a bound on the text.
    \<^verbatim>\<open>Jiq_Threads\<close>: several readers of the four files that share the global structure, safe one at a
    time with no wake-up outstanding, and the runs that are not.
  \<^item> \<^verbatim>\<open>Qus\<close> (\<^verbatim>\<open>qus.c\<close>, \<^verbatim>\<open>qus.h\<close>): probe, disconnect and reference counts, and the
    module as another interpretation of \<open>driver_contract\<close>.
  \<^item> This theory: what spans components. The reset command of the control interface against the slab
    cache of module start, the pipes of a loaded module as the initial states of the thread system, and
    the files of jit and jiq, with the name they share.

  \<^bold>\<open>How the parts interact.\<close> Module start gives every bare device a state that satisfies
  \<open>dev_wf\<close> for objects of the size of the cache, and every pipe the initial state of
  \<^verbatim>\<open>Scull_Pipe_Threads\<close>; open takes over the sizes that the control interface may have changed
  in between, which is where a device can leave its invariant (\<open>scull_reset_overflow\<close>,
  \<open>scull_p_resize_overflow\<close>). The proc file reads the devices under the same lock. In edu the
  attribute files, both halves of the interrupt handler and the timer share the state bits under the
  spin lock of the device.

  \<^bold>\<open>Bounds.\<close> Positions and counts of scull reads and writes are below $2^{63}$, as the kernel
  guarantees for a file position; counters of open files stay below $2^{63}$ by the same kind of
  argument. The text of jiq is bounded with rows of at most 99 characters, which process names of at
  most 15 characters and C integers imply. The jit clock advances by less than $2^{62}$ ticks between
  two reads. Runs of the jit files have at most 9 steps, those of jiq at most 15; nothing else is cut
  off by fuel.

  \<^bold>\<open>Not modelled.\<close> Debug and log messages; what the kernel does between a system call and the
  functions of a table, beyond the checks of position, count and open mode in \<^verbatim>\<open>Scull_Files\<close>; the
  buffering of sequence files; the memory ordering between processors, since every part under a lock is one
  step; the prototypes in the remaining headers, the debug macros of \<^verbatim>\<open>scull.h\<close>, the include
  lines and module descriptions, and the load scripts and makefiles. Calls on different bare devices are
  sequences, not interleavings: each one is a single section under the lock of its device. Of the attribute
  files of edu, the model has one device; the probe keeps what is acquired and released rather than
  register contents. In jiq the delay of the work queue and the expiry of the timer are not counted: a queued
  item may run at any later step.
\<close>

section \<open>The control interface and the bare device\<close>

text \<open>A first write that is longer than a slab object, into quanta that are longer still.\<close>

lemma scull_write_past_object:
  assumes k: "slab_alloc_ok objsz k" "k_kmem_cache_alloc k (slab h) \<noteq> None" "k_mutex_lock_interruptible k = 0"
      "k_kcalloc_qset k 0" "k_kcalloc_data k" "copy_from_user_ok k"
    and dev: "dev_lock dev = mutex_init" "qset dev = []" "0 < qset_len dev" "unat (quantum_len dev) * unat (qset_len dev) < 2 ^ 64"
    and count: "objsz < unat count" "count \<le> quantum_len dev" "unat count \<le> length buf"
  shows "scull_write k dev h buf count 0 = Inl OutOfBounds"
proof -
  let ?n = "unat (qset_len dev)"
  have pos: "0 < unat (quantum_len dev)" "0 < ?n"
    using count(1,2) dev(3) by (auto simp: word_le_nat_alt word_less_nat_alt)
  have "unat (quantum_len dev * qset_len dev) = unat (quantum_len dev) * ?n"
    using dev(4) by (simp add: unat_word_ariths)
  then have total: "quantum_len dev * qset_len dev \<noteq> 0" using pos by (metis mult_is_0 not_less_zero unat_0)
  obtain a b where ab: "k_kmem_cache_alloc k (slab h) = Some (a, b)" using k(2) by force
  then have b: "length b = objsz" using k(1) by (auto simp: slab_alloc_ok_def)
  have cp: "length (fst (k_copy_from_user k buf count)) = unat count"
    using k(6) count(3) by (simp add: copy_from_user_ok_def)
  have fl: "scull_follow k (dev\<lparr>dev_lock := \<lparr>held = True, ctx = 1\<rparr>\<rparr>) h 0 =
      Inr (\<lparr>qset_p = 0, quantum_p = 0, offset_p = 0\<rparr>, Some 0,
        dev\<lparr>dev_lock := \<lparr>held = True, ctx = 1\<rparr>, qset := [empty_qset]\<rparr>, h\<lparr>kmallocs := kmallocs h + 1\<rparr>)"
    using total k(4) dev(2) by (simp add: scull_follow_def lockdep_assert_held_def Let_def)
  have "\<not> quantum_len dev < count" using count(2) by simp
  then show ?thesis
    using k(3,5) dev(1) ab b cp count(1) pos
    by (simp add: scull_write_def mutex_defs write_locked_def write_quantum_def fl ensure_data_def empty_qset_def set_data_def
        ensure_quantum_def clip_quantum_def slab_store_def Let_def case_prod_unfold)
qed

text \<open>
  C13: The reset command against the slab cache. The cache of the quanta is created once, for the
  quantum size at module start (\<open>objsz\<close>); the reset command, which needs no privilege, sets the
  quantum to 4000, and the next write-only open gives the device that size. If the module was loaded
  with smaller quanta, a first write longer than an object then runs past its end.
\<close>

theorem scull_reset_overflow:
  assumes "slab_alloc_ok objsz k" and "k_kmem_cache_alloc k (slab (trim_qsets k (qset_len dev) (qset dev) h)) \<noteq> None" and "k_mutex_lock_interruptible k = 0"
    and "k_kcalloc_qset k 0" and "k_kcalloc_data k" and "copy_from_user_ok k" and "\<forall>a n. k_access_ok ki a n"
    and "dev_lock dev = mutex_init" and "objsz < unat count" and "unat count \<le> 4000" and "unat count \<le> length buf"
  shows "\<exists>g' dev' h'. scull_ioctl ki g mem SCULL_IOCRESET arg = (0, g', mem) \<and>
    scull_open k g' O_WRONLY dev h = Inr (0, dev', h') \<and>
    scull_write k dev' h' buf count 0 = Inl OutOfBounds"
proof -
  let ?g = "g\<lparr>scull_quantum := SCULL_QUANTUM, scull_qset := SCULL_QSET\<rparr>"
  let ?dev = "dev\<lparr>dev_len := 0, quantum_len := SCULL_QUANTUM, qset_len := SCULL_QSET, qset := [], dev_lock := mutex_init\<rparr>"
  let ?h = "trim_qsets k (qset_len dev) (qset dev) h"
  have "scull_ioctl ki g mem SCULL_IOCRESET arg = (0, ?g, mem)" by (rule scull_ioctl_cmds(1) [OF assms(7)])
  moreover have "scull_open k ?g O_WRONLY dev h = Inr (0, ?dev, ?h)"
    using assms(3,8) by (simp add: scull_open_def mutex_defs scull_trim_def)
  moreover have "scull_write k ?dev ?h buf count 0 = Inl OutOfBounds"
    by (rule scull_write_past_object [OF assms(1-6) _ _ _ _ assms(9) _ assms(11)])
      (use assms(10) in \<open>simp_all add: SCULL_QUANTUM_def SCULL_QSET_def word_le_nat_alt\<close>)
  ultimately show ?thesis by blast
qed

theorem scull_reset_overflow_witness:
  "\<exists>g' dev' h'. scull_ioctl demo_ioctl scull_globals_init Map.empty SCULL_IOCRESET 0 = (0, g', Map.empty) \<and>
     scull_open demo_kernel g' O_WRONLY demo_dev demo_heap = Inr (0, dev', h') \<and>
     scull_write demo_kernel dev' h' [1, 2, 3, 4, 5] 5 0 = Inl OutOfBounds"
  by (rule scull_reset_overflow [OF demo_kernel_ok(1)])
    (simp_all add: demo_kernel_ok demo_ioctl_ok, simp_all add: demo_kernel_def demo_dev_def demo_heap_def)

section \<open>The pipes of a loaded module\<close>

text \<open>
  Module start puts every pipe into the initial state of the thread system of the pipe, so that
  what is shown of its reachable states holds for each pipe of a loaded module.
\<close>

lemma scull_loaded_pipe_initial:
  assumes "mod_idle m" and "mod_kernel_ok k" and "scull_init_module k m = Inr (0, m1)"
    and "m_p_devices m1 = Some ps" and "p \<in> set ps"
    and "pipe_kernel_ok pk" and "scull_p_len g \<noteq> 0" and "h 0 = None"
  shows "p_initial pk g \<lparr>sys_dev = d_pipe p, sys_heap = h, sys_thr = replicate n NoFile, sys_in = [], sys_out = []\<rparr>"
proof -
  have "pipes_fresh m1" using scull_init_outcome [OF assms(1), of k] assms(2,3) by (auto simp: mod_kernel_ok_def)
  then have "map d_pipe ps = map (\<lambda>j. pipe_zero (of_nat j)) [0..<unat (scull_p_nr_devs (m_g m1))]"
    using assms(4) by (simp add: pipes_fresh_def)
  then have "d_pipe p \<in> set (map (\<lambda>j. pipe_zero (of_nat j)) [0..<unat (scull_p_nr_devs (m_g m1))])"
    using assms(5) by (metis image_eqI list.set_map)
  then obtain i where "d_pipe p = pipe_zero i" by auto
  then show ?thesis using assms(6-8) by (auto simp: p_initial_def)
qed

text \<open>
  C11: Every pipe of a loaded module, from the state module start leaves it in, with any number of
  threads that open, read, write and close it in any order and may be interrupted, as long as the
  proper pipe is never opened for both directions, its buffer can be allocated, the counters stay
  below \<open>2 ^ 63\<close> and the buffer length is not changed: no such step faults, and the bytes delivered to the
  readers and the contents are together the bytes accepted from the writers, counted from the last
  open that reset the pipe or the last close that freed its buffer.
\<close>

theorem scull_loaded_pipe_safe:
  assumes "mod_idle m" and "mod_kernel_ok k" and "scull_init_module k m = Inr (0, m1)"
    and "m_p_devices m1 = Some ps" and "p \<in> set ps"
    and "pipe_kernel_ok pk" and "scull_p_len g \<noteq> 0" and "h 0 = None"
    and "(p_step (p_admissible pk g) pk g)\<^sup>*\<^sup>* \<lparr>sys_dev = d_pipe p, sys_heap = h, sys_thr = replicate n NoFile, sys_in = [], sys_out = []\<rparr> s"
    and "p_admissible pk g s a"
  shows "p_exec pk g a s \<noteq> Some (Inl e) \<and> sys_in s = sys_out s @ pipe_content (sys_dev s) (sys_heap s)"
proof -
  have "p_inv pk g s"
    by (rule pipe_threads.steps_inv [OF assms(9)])
      (rule pipe_threads.init_inv, rule scull_loaded_pipe_initial [where h = h, OF assms(1-8)])
  then show ?thesis using p_exec_safe [OF _ assms(10)] by (auto simp: p_inv_def)
qed

theorem scull_loaded_pipe_safe_witness:
  "\<exists>m1 p. scull_init_module demo_mod_kernel demo_mod = Inr (0, m1) \<and> m_p_devices m1 = Some [p] \<and>
     p_schedule (p_admissible demo_pk demo_pg) demo_pk demo_pg
       [AOpen 0 FMODE_WRITE 0 0, AOpen 1 FMODE_READ 0 0, AWrite 0 [1, 2, 3] 0, ARead 1 1 0]
       \<lparr>sys_dev = d_pipe p, sys_heap = Map.empty, sys_thr = [NoFile, NoFile], sys_in = [], sys_out = []\<rparr> = Some fifo_state \<and>
     p_exec demo_pk demo_pg (ARead 1 8 0) fifo_state \<noteq> Some (Inl NullDeref) \<and>
     [1, 2, 3] = [1] @ pipe_content (sys_dev fifo_state) (sys_heap fifo_state)"
proof -
  have "map_sum id (\<lambda>(r, m). (r, map_option (map d_pipe) (m_p_devices m))) (scull_init_module demo_mod_kernel demo_mod) =
      Inr (0, Some [pipe_zero 0])"
    by (simp add: scull_init_module_def scull_init_rest_def register_region_def scull_p_init_def
      init_devices.simps init_pipes.simps scull_setup_cdev_def scull_p_setup_cdev_def cdev_defs set_cdev_ops_def
      demo_mod_kernel_def demo_mod_def scull_globals_init_def Let_def split_beta)
  then obtain m1 p where m1: "scull_init_module demo_mod_kernel demo_mod = Inr (0, m1)" "m_p_devices m1 = Some [p]" "d_pipe p = pipe_zero 0"
    by (cases "scull_init_module demo_mod_kernel demo_mod") auto
  have two: "[NoFile, NoFile] = replicate 2 NoFile" by (simp add: numeral_2_eq_2)
  let ?s = "\<lparr>sys_dev = d_pipe p, sys_heap = Map.empty, sys_thr = replicate 2 NoFile, sys_in = [], sys_out = []\<rparr>"
  have run: "p_schedule (p_admissible demo_pk demo_pg) demo_pk demo_pg fifo_schedule ?s = Some fifo_state"
    using fifo_run by (simp add: Scull_Pipe_Safe.demo_sys_def m1(3) two)
  have "p_admissible demo_pk demo_pg fifo_state (ARead 1 8 0)" by (simp add: p_admissible_def)
  from scull_loaded_pipe_safe [where h = Map.empty and n = 2 and p = p and e = NullDeref,
      OF demo_mod_ok m1(1,2) _ demo_pk_ok(3) _ _ schedule_steps [OF run] this]
  have "p_exec demo_pk demo_pg (ARead 1 8 0) fifo_state \<noteq> Some (Inl NullDeref) \<and>
      sys_in fifo_state = sys_out fifo_state @ pipe_content (sys_dev fifo_state) (sys_heap fifo_state)"
    by (simp add: demo_pg_def)
  moreover have "sys_in fifo_state = [1, 2, 3]" "sys_out fifo_state = [1]" by (simp_all add: fifo_state_def)
  ultimately show ?thesis using m1(1,2) run unfolding two fifo_schedule_def by auto
qed

section \<open>Files below /proc\<close>

text \<open>What opening a file of either module sets up.\<close>

definition jit_opens :: "(string \<times> seq_opened) list" where
  "jit_opens =
     [(''jitbusy'', Single_open Show_jit_fn (jit_files_num JIT_BUSY)), (''jitsched'', Single_open Show_jit_fn (jit_files_num JIT_SCHED)),
      (''jitqueue'', Single_open Show_jit_fn (jit_files_num JIT_QUEUE)), (''jitschedto'', Single_open Show_jit_fn (jit_files_num JIT_SCHEDTO)),
      (''currentime'', Single_open Show_jit_currenttime 0), (''jitimer'', Single_open Show_jit_timer 0),
      (''jitasklet'', Single_open Show_jit_tasklet 0), (''jitasklethi'', Single_open Show_jit_tasklet 1)]"

definition jiq_opens :: "(string \<times> seq_opened) list" where
  "jiq_opens =
     [(''jiqwq'', Single_open Show_jiq_wq 0), (''jiqwqdelay'', Single_open Show_jiq_wq_delayed 0),
      (''jiqtasklet'', Single_open Show_jiq_tasklet 0), (''jitimer'', Single_open Show_jiq_run_timer 0)]"

lemmas jit_entry_defs = jit_entries_def jit_entry_def jit_fn_fops_def jit_currenttime_fops_def jit_timer_fops_def jit_tasklet_fops_def
  jit_fn_open_def jit_currenttime_open_def jit_timer_open_def jit_tasklet_open_def

lemmas jiq_entry_defs = jiq_entries_def jiq_entry_def jiq_read_wq_fops_def jiq_read_wq_delayed_fops_def jiq_read_tasklet_fops_def
  jiq_read_run_timer_fops_def jiq_read_wq_open_def jiq_read_wq_delayed_open_def jiq_read_tasklet_open_def jiq_read_run_timer_open_def

lemma jit_entry_names: "map fst jit_entries = jit_names" "distinct (map fst jit_entries)"
  by (simp_all add: jit_entry_defs jit_names_def)

lemma jiq_entry_names: "map fst jiq_entries = jiq_names" "distinct (map fst jiq_entries)"
  by (simp_all add: jiq_entry_defs jiq_names_def)

text \<open>Loading a module whose names are free: every file is found, and unloading restores the directory.\<close>

lemma proc_file_created:
  assumes "distinct (map fst es)" and "set (map fst es) \<inter> fst ` set d = {}" and "(n, e) \<in> set es"
  shows "proc_file (fold proc_create es d) n = Some (pe_owner e, proc_open (pe_ops e) (pe_data e))"
  using proc_create_find [OF assms] by (simp add: proc_file_def)

lemma jit_loaded:
  assumes "set jit_names \<inter> fst ` set d = {}"
  shows "jit_cleanup (snd (jit_init d)) = d" "\<forall>(n, x) \<in> set jit_opens. proc_file (snd (jit_init d)) n = Some (Proc_jit, x)"
proof -
  have free: "set (map fst jit_entries) \<inter> fst ` set d = {}" using assms by (simp only: jit_entry_names)
  show "jit_cleanup (snd (jit_init d)) = d"
    using proc_create_remove [OF jit_entry_names(2) free] by (simp add: jit_cleanup_def jit_init_def jit_entry_names(1))
  have "\<forall>(n, x) \<in> set jit_opens. \<exists>e. (n, e) \<in> set jit_entries \<and> pe_owner e = Proc_jit \<and> proc_open (pe_ops e) (pe_data e) = x"
    by (simp add: jit_opens_def jit_entry_defs)
  then show "\<forall>(n, x) \<in> set jit_opens. proc_file (snd (jit_init d)) n = Some (Proc_jit, x)"
    using proc_file_created [OF jit_entry_names(2) free] by (fastforce simp: jit_init_def)
qed

lemma jiq_loaded:
  assumes "set jiq_names \<inter> fst ` set d = {}"
  shows "jiq_cleanup (snd (jiq_init d)) = d" "\<forall>(n, x) \<in> set jiq_opens. proc_file (snd (jiq_init d)) n = Some (Proc_jiq, x)"
proof -
  have free: "set (map fst jiq_entries) \<inter> fst ` set d = {}" using assms by (simp only: jiq_entry_names)
  show "jiq_cleanup (snd (jiq_init d)) = d"
    using proc_create_remove [OF jiq_entry_names(2) free] by (simp add: jiq_cleanup_def jiq_init_def jiq_entry_names(1))
  have "\<forall>(n, x) \<in> set jiq_opens. \<exists>e. (n, e) \<in> set jiq_entries \<and> pe_owner e = Proc_jiq \<and> proc_open (pe_ops e) (pe_data e) = x"
    by (simp add: jiq_opens_def jiq_entry_defs)
  then show "\<forall>(n, x) \<in> set jiq_opens. proc_file (snd (jiq_init d)) n = Some (Proc_jiq, x)"
    using proc_file_created [OF jiq_entry_names(2) free] by (fastforce simp: jiq_init_def)
qed

text \<open>The private data of the four delay files is decoded to the way of waiting that the entry was made with.\<close>

lemma jit_files_of_num: "jit_files_of (jit_files_num f) = Some f"
  by (cases f) (simp_all add: jit_files_of_def)

text \<open>The tables of all three modules release what their open functions set up.\<close>

lemma proc_tables_ok: "\<forall>e \<in> set (jit_entries @ jiq_entries). proc_ops_ok (pe_ops (snd e))" "proc_ops_ok scullseq_proc_ops"
  by (simp_all add: proc_ops_ok_def jit_entry_defs jiq_entry_defs scullseq_proc_ops_def scullseq_proc_open_def)

text \<open>
  C39: The files of the jit and jiq modules. Either module alone, loaded where its names are free,
  makes every name lead to the function that prints its file, with the data it decodes, and restores
  the directory when it is unloaded. Loaded after jiq, jit does not get its own
  \<^verbatim>\<open>jitimer\<close>, which both use: the name still leads to the timer file of jiq, and unloading jit
  removes it.
\<close>

theorem module_proc_files:
  "(\<forall>f. jit_files_of (jit_files_num f) = Some f) \<and>
   (set jit_names \<inter> fst ` set d = {} \<longrightarrow> jit_cleanup (snd (jit_init d)) = d \<and>
      (\<forall>(n, x) \<in> set jit_opens. proc_file (snd (jit_init d)) n = Some (Proc_jit, x))) \<and>
   (set jiq_names \<inter> fst ` set d = {} \<longrightarrow> jiq_cleanup (snd (jiq_init d)) = d \<and>
      (\<forall>(n, x) \<in> set jiq_opens. proc_file (snd (jiq_init d)) n = Some (Proc_jiq, x))) \<and>
   proc_file (snd (jit_init (snd (jiq_init [])))) ''jitimer'' = Some (Proc_jiq, Single_open Show_jiq_run_timer 0) \<and>
   proc_file (jit_cleanup (snd (jit_init (snd (jiq_init []))))) ''jitimer'' = None"
proof -
  have "proc_file (snd (jit_init (snd (jiq_init [])))) ''jitimer'' = Some (Proc_jiq, Single_open Show_jiq_run_timer 0)"
    by (simp add: proc_file_def jit_init_def jiq_init_def jit_entry_defs jiq_entry_defs proc_create_def)
  moreover have "map_of (jit_cleanup d) ''jitimer'' = None" for d
    unfolding jit_cleanup_def fold_remove_proc_entry map_of_eq_None_iff by (auto simp: jit_names_def)
  ultimately show ?thesis using jit_loaded jiq_loaded jit_files_of_num by (simp add: proc_file_def)
qed

theorem module_proc_files_witness:
  "jit_cleanup (snd (jit_init [])) = [] \<and>
   proc_file (snd (jit_init [])) ''jitqueue'' = Some (Proc_jit, Single_open Show_jit_fn (jit_files_num JIT_QUEUE))"
  using module_proc_files [of "[]"] by (simp add: jit_opens_def)

end
